(* ===== verification/Prelude.thy ===== *)
theory Prelude
  imports Main "HOL-Library.List_Lexorder" "HOL-Library.Char_ord" "HOL-Library.Multiset"
begin

text \<open>
  The vocabulary every component shares.

  A Go function that returns \<open>(value, error)\<close> is a HOL function into \<open>'e + 'a\<close>: \<open>Inl\<close> carries
  the error, \<open>Inr\<close> the value. \<open>rbind\<close> is the sequencing "call, return early on error, go on
  with the value" of Go's \<open>if err != nil\<close>; \<open>mapR\<close> is a loop that builds a slice and
  stops at the first error; \<open>foldR\<close> is a loop that threads an accumulator and stops at the
  first error. The congruence rules let recursive definitions call through them.

  A Go string is a sequence of bytes, modelled by \<open>string\<close> (a list of 8-bit characters), so
  \<open>len\<close>, comparison and concatenation are those of Go. The order on strings is the
  lexicographic order on bytes of List_Lexorder and Char_ord, which is Go's string order.
\<close>

named_theorems res_simps \<open>evaluation and inversion of error results\<close>

type_synonym ('e, 'a) res = "'e + 'a"

definition rbind :: "'e + 'a \<Rightarrow> ('a \<Rightarrow> 'e + 'b) \<Rightarrow> 'e + 'b" where
  "rbind r f = (case r of Inl e \<Rightarrow> Inl e | Inr x \<Rightarrow> f x)"

definition rmap :: "('a \<Rightarrow> 'b) \<Rightarrow> 'e + 'a \<Rightarrow> 'e + 'b" where
  "rmap f r = (case r of Inl e \<Rightarrow> Inl e | Inr x \<Rightarrow> Inr (f x))"

definition rwrap :: "('e \<Rightarrow> 'd) \<Rightarrow> 'e + 'a \<Rightarrow> 'd + 'a" where
  "rwrap w r = (case r of Inl e \<Rightarrow> Inl (w e) | Inr x \<Rightarrow> Inr x)"

definition rok :: "'e + 'a \<Rightarrow> bool" where
  "rok r = (case r of Inl _ \<Rightarrow> False | Inr _ \<Rightarrow> True)"

lemma rbind_cong [fundef_cong]:
  "r = r' \<Longrightarrow> (\<And>x. r' = Inr x \<Longrightarrow> f x = g x) \<Longrightarrow> rbind r f = rbind r' g"
  by (auto simp: rbind_def split: sum.splits)

lemma rbind_simps [simp, res_simps]:
  "rbind (Inl e) f = Inl e"
  "rbind (Inr x) f = f x"
  by (simp_all add: rbind_def)

lemma rbind_eq_Inr [simp, res_simps]: "rbind r f = Inr y \<longleftrightarrow> (\<exists>x. r = Inr x \<and> f x = Inr y)"
  by (cases r) simp_all

lemma rbind_eq_Inl [res_simps]:
  "rbind r f = Inl e \<longleftrightarrow> r = Inl e \<or> (\<exists>x. r = Inr x \<and> f x = Inl e)"
  by (cases r) simp_all

lemma rbind_assoc: "rbind (rbind r f) g = rbind r (\<lambda>x. rbind (f x) g)"
  by (cases r) simp_all

lemma rmap_simps [simp, res_simps]:
  "rmap f (Inl e) = Inl e"
  "rmap f (Inr x) = Inr (f x)"
  by (simp_all add: rmap_def)

lemma rmap_eq_Inr [simp, res_simps]: "rmap f r = Inr y \<longleftrightarrow> (\<exists>x. r = Inr x \<and> y = f x)"
  by (cases r) auto

lemma rwrap_simps [simp, res_simps]:
  "rwrap w (Inl e) = Inl (w e)"
  "rwrap w (Inr x) = Inr x"
  by (simp_all add: rwrap_def)

lemma rwrap_eq_Inr [simp, res_simps]: "rwrap w r = Inr y \<longleftrightarrow> r = Inr y"
  by (cases r) simp_all

lemma rwrap_eq_Inl [res_simps]: "rwrap w r = Inl e \<longleftrightarrow> (\<exists>e'. r = Inl e' \<and> e = w e')"
  by (cases r) auto

lemma rok_simps [simp, res_simps]:
  "rok (Inl e) = False"
  "rok (Inr x) = True"
  by (simp_all add: rok_def)

lemma rok_iff: "rok r \<longleftrightarrow> (\<exists>x. r = Inr x)"
  by (cases r) simp_all

lemma not_rok_iff: "\<not> rok r \<longleftrightarrow> (\<exists>e. r = Inl e)"
  by (cases r) simp_all

fun mapR :: "('a \<Rightarrow> 'e + 'b) \<Rightarrow> 'a list \<Rightarrow> 'e + 'b list" where
  "mapR f [] = Inr []"
| "mapR f (x # xs) = rbind (f x) (\<lambda>y. rbind (mapR f xs) (\<lambda>ys. Inr (y # ys)))"

lemma mapR_cong [fundef_cong]:
  "xs = ys \<Longrightarrow> (\<And>x. x \<in> set ys \<Longrightarrow> f x = g x) \<Longrightarrow> mapR f xs = mapR g ys"
  by (induction xs arbitrary: ys) auto

lemma mapR_Inr_length: "mapR f xs = Inr ys \<Longrightarrow> length ys = length xs"
  by (induction xs arbitrary: ys) auto

lemma mapR_Inr_iff: "mapR f xs = Inr ys \<longleftrightarrow> list_all2 (\<lambda>x y. f x = Inr y) xs ys"
  by (induction xs arbitrary: ys) (auto simp: list_all2_Cons1)

lemma mapR_InrI: "(\<And>x. x \<in> set xs \<Longrightarrow> f x = Inr (g x)) \<Longrightarrow> mapR f xs = Inr (map g xs)"
  by (induction xs) auto

fun foldR :: "('s \<Rightarrow> 'a \<Rightarrow> 'e + 's) \<Rightarrow> 's \<Rightarrow> 'a list \<Rightarrow> 'e + 's" where
  "foldR f s [] = Inr s"
| "foldR f s (x # xs) = rbind (f s x) (\<lambda>s'. foldR f s' xs)"

lemma foldR_append: "foldR f s (xs @ ys) = rbind (foldR f s xs) (\<lambda>s'. foldR f s' ys)"
  by (induction xs arbitrary: s) (auto simp: rbind_assoc)

lemma foldR_cong [fundef_cong]:
  "s = s' \<Longrightarrow> xs = ys \<Longrightarrow> (\<And>s x. x \<in> set ys \<Longrightarrow> f s x = g s x) \<Longrightarrow> foldR f s xs = foldR g s' ys"
proof (induction xs arbitrary: s s' ys)
  case Nil
  then show ?case by simp
next
  case (Cons x xs)
  then have "f s' x = g s' x" "\<And>t. foldR f t xs = foldR g t xs"
    by auto
  with Cons.prems show ?case by auto
qed

text \<open>A loop of checks.\<close>

fun allR :: "('a \<Rightarrow> 'e + unit) \<Rightarrow> 'a list \<Rightarrow> 'e + unit" where
  "allR f [] = Inr ()"
| "allR f (x # xs) = rbind (f x) (\<lambda>_. allR f xs)"

lemma allR_cong [fundef_cong]:
  "xs = ys \<Longrightarrow> (\<And>x. x \<in> set ys \<Longrightarrow> f x = g x) \<Longrightarrow> allR f xs = allR g ys"
  by (induction xs arbitrary: ys) auto

lemma allR_iff [res_simps]: "allR f xs = Inr u \<longleftrightarrow> (\<forall>x \<in> set xs. f x = Inr ())"
  by (induction xs) auto

lemma mapR_Inr_set: "mapR f xs = Inr ys \<Longrightarrow> y \<in> set ys \<Longrightarrow> \<exists>x \<in> set xs. f x = Inr y"
  by (induction xs arbitrary: ys) auto

lemma mapR_Inr_map: "mapR f xs = Inr ys \<Longrightarrow> (\<And>x y. x \<in> set xs \<Longrightarrow> f x = Inr y \<Longrightarrow> g y = h x) \<Longrightarrow> map g ys = map h xs"
  by (induction xs arbitrary: ys) auto

text \<open>An invariant of the accumulator holds after the loop.\<close>

lemma foldR_invariant:
  assumes "foldR f s xs = Inr s'" and "I s"
    and "\<And>s x t. x \<in> set xs \<Longrightarrow> I s \<Longrightarrow> f s x = Inr t \<Longrightarrow> I t"
  shows "I s'"
  using assms by (induction xs arbitrary: s) auto

lemma list_less_eq_total: "(x :: 'a::linorder list) < y \<or> x = y \<or> y < x"
  by (rule less_linear)

end
