(* ===== verification/NumType.thy ===== *)
theory NumType
  imports Complex_Main Prelude
begin

text \<open>
  numtype/numtype.go: the numeric subtype lattice. A numeric type pairs a domain (\<open>DInt\<close> below
  \<open>DRat\<close>) with a sign (\<open>SZero\<close> below \<open>SNonNeg\<close> and \<open>SNonPos\<close>, both below \<open>SAny\<close>). A runtime
  number is a \<open>math/big.Rat\<close>, an exact rational: \<open>rat\<close>. \<open>rat_IsInt\<close> and \<open>rat_Sign\<close> are
  \<open>Rat.IsInt\<close> and \<open>Rat.Sign\<close>.

  The lemmas show that \<open>Sub\<close> is the partial order that inclusion of value sets gives, that
  \<open>Join\<close> is its least upper bound (so the type is a \<open>semilattice_sup\<close> with a top), and that
  \<open>Parse\<close> and \<open>String\<close> are inverse on the six types a user can spell.
\<close>

subsection \<open>Exact rationals\<close>

definition rat_IsInt :: "rat \<Rightarrow> bool" where
  "rat_IsInt q \<longleftrightarrow> snd (quotient_of q) = 1"

definition rat_Sign :: "rat \<Rightarrow> int" where
  "rat_Sign q = (if q < 0 then - 1 else if q = 0 then 0 else 1)"

lemma rat_IsInt_of_int [simp]: "rat_IsInt (of_int i)"
  by (simp add: rat_IsInt_def)

lemma rat_IsInt_iff: "rat_IsInt q \<longleftrightarrow> q \<in> \<int>"
proof
  assume "rat_IsInt q"
  then have "quotient_of q = (fst (quotient_of q), 1)"
    by (simp add: rat_IsInt_def prod_eq_iff)
  then have "q = of_int (fst (quotient_of q))"
    by (metis quotient_of_div div_by_1 of_int_1)
  then show "q \<in> \<int>" by (metis Ints_of_int)
next
  assume "q \<in> \<int>"
  then show "rat_IsInt q" by (auto elim: Ints_cases)
qed

lemma rat_Sign_simps [simp]:
  "rat_Sign q = 0 \<longleftrightarrow> q = 0"
  "0 \<le> rat_Sign q \<longleftrightarrow> 0 \<le> q"
  "rat_Sign q \<le> 0 \<longleftrightarrow> q \<le> 0"
  by (auto simp: rat_Sign_def)

subsection \<open>The lattice\<close>

datatype domain = DRat | DInt

datatype sign = SAny | SNonNeg | SNonPos | SZero

datatype numType = NumType (nt_domain: domain) (nt_sign: sign)

definition nt_Parse :: "string \<Rightarrow> numType option" where
  "nt_Parse name =
     (if name = ''rat'' then Some (NumType DRat SAny)
      else if name = ''rat0+'' then Some (NumType DRat SNonNeg)
      else if name = ''rat0-'' then Some (NumType DRat SNonPos)
      else if name = ''int'' then Some (NumType DInt SAny)
      else if name = ''int0+'' then Some (NumType DInt SNonNeg)
      else if name = ''int0-'' then Some (NumType DInt SNonPos)
      else None)"

fun nt_String :: "numType \<Rightarrow> string" where
  "nt_String (NumType dm sg) =
     (let d = (if dm = DInt then ''int'' else ''rat'')
      in case sg of SNonNeg \<Rightarrow> d @ ''0+'' | SNonPos \<Rightarrow> d @ ''0-'' | SZero \<Rightarrow> d @ ''0'' | SAny \<Rightarrow> d)"

definition subDomain :: "domain \<Rightarrow> domain \<Rightarrow> bool" where
  "subDomain a b \<longleftrightarrow> a = b \<or> (a = DInt \<and> b = DRat)"

definition subSign :: "sign \<Rightarrow> sign \<Rightarrow> bool" where
  "subSign a b =
     (if a = b then True
      else case b of SAny \<Rightarrow> True | SNonNeg \<Rightarrow> a = SZero | SNonPos \<Rightarrow> a = SZero | SZero \<Rightarrow> False)"

definition nt_Sub :: "numType \<Rightarrow> numType \<Rightarrow> bool" where
  "nt_Sub a b \<longleftrightarrow> subDomain (nt_domain a) (nt_domain b) \<and> subSign (nt_sign a) (nt_sign b)"

definition joinDomain :: "domain \<Rightarrow> domain \<Rightarrow> domain" where
  "joinDomain a b = (if a = DRat \<or> b = DRat then DRat else DInt)"

definition joinSign :: "sign \<Rightarrow> sign \<Rightarrow> sign" where
  "joinSign a b = (if a = b then a else if a = SZero then b else if b = SZero then a else SAny)"

definition nt_Join :: "numType \<Rightarrow> numType \<Rightarrow> numType" where
  "nt_Join a b =
     NumType (joinDomain (nt_domain a) (nt_domain b)) (joinSign (nt_sign a) (nt_sign b))"

definition nt_Allows :: "numType \<Rightarrow> rat \<Rightarrow> bool" where
  "nt_Allows t v =
     (if nt_domain t = DInt \<and> \<not> rat_IsInt v then False
      else case nt_sign t of
             SNonNeg \<Rightarrow> rat_Sign v \<ge> 0
           | SNonPos \<Rightarrow> rat_Sign v \<le> 0
           | SZero \<Rightarrow> rat_Sign v = 0
           | SAny \<Rightarrow> True)"

subsection \<open>Membership on each axis\<close>

fun in_domain :: "domain \<Rightarrow> rat \<Rightarrow> bool" where
  "in_domain DRat v = True"
| "in_domain DInt v = rat_IsInt v"

fun in_sign :: "sign \<Rightarrow> rat \<Rightarrow> bool" where
  "in_sign SAny v = True"
| "in_sign SNonNeg v = (0 \<le> v)"
| "in_sign SNonPos v = (v \<le> 0)"
| "in_sign SZero v = (v = 0)"

lemma nt_Allows_iff: "nt_Allows t v \<longleftrightarrow> in_domain (nt_domain t) v \<and> in_sign (nt_sign t) v"
  by (cases t; cases "nt_domain t"; cases "nt_sign t") (auto simp: nt_Allows_def)

lemma nt_Allows_zero [simp]: "nt_Allows t 0"
proof -
  have "rat_IsInt 0" using rat_IsInt_of_int [of 0] by simp
  then show ?thesis by (cases "nt_domain t"; cases "nt_sign t") (auto simp: nt_Allows_iff)
qed

lemma subSign_sound: "subSign a b \<Longrightarrow> in_sign a v \<Longrightarrow> in_sign b v"
  by (cases a; cases b) (auto simp: subSign_def)

lemma subSign_complete: "\<not> subSign a b \<Longrightarrow> \<exists>v \<in> {- 1, 0, 1}. in_sign a v \<and> \<not> in_sign b v"
  by (cases a; cases b) (auto simp: subSign_def)

lemma joinSign_upper: "subSign a (joinSign a b) \<and> subSign b (joinSign a b)"
  by (cases a; cases b) (auto simp: subSign_def joinSign_def)

lemma joinSign_least: "subSign a c \<Longrightarrow> subSign b c \<Longrightarrow> subSign (joinSign a b) c"
  by (cases a; cases b; cases c) (auto simp: subSign_def joinSign_def)

lemma subSign_order:
  "subSign a a"
  "subSign a b \<Longrightarrow> subSign b c \<Longrightarrow> subSign a c"
  "subSign a b \<Longrightarrow> subSign b a \<Longrightarrow> a = b"
  by (cases a; cases b; cases c; simp add: subSign_def)+

lemma subDomain_order:
  "subDomain a a"
  "subDomain a b \<Longrightarrow> subDomain b c \<Longrightarrow> subDomain a c"
  "subDomain a b \<Longrightarrow> subDomain b a \<Longrightarrow> a = b"
  by (auto simp: subDomain_def)

lemma joinDomain_lub:
  "subDomain a (joinDomain a b)" "subDomain b (joinDomain a b)"
  "subDomain a c \<Longrightarrow> subDomain b c \<Longrightarrow> subDomain (joinDomain a b) c"
  by (cases a; cases b; cases c; simp add: subDomain_def joinDomain_def)+

subsection \<open>The subtype order as the library's order classes\<close>

instantiation numType :: semilattice_sup
begin

definition less_eq_numType :: "numType \<Rightarrow> numType \<Rightarrow> bool" where
  "less_eq_numType = nt_Sub"

definition less_numType :: "numType \<Rightarrow> numType \<Rightarrow> bool" where
  "less_numType a b \<longleftrightarrow> nt_Sub a b \<and> \<not> nt_Sub b a"

definition sup_numType :: "numType \<Rightarrow> numType \<Rightarrow> numType" where
  "sup_numType = nt_Join"

instance
proof
  fix x y z :: numType
  show "(x < y) = (x \<le> y \<and> \<not> y \<le> x)"
    by (simp add: less_numType_def less_eq_numType_def)
  show "x \<le> x"
    by (simp add: less_eq_numType_def nt_Sub_def subSign_order subDomain_order)
  show "x \<le> y \<Longrightarrow> y \<le> z \<Longrightarrow> x \<le> z"
    unfolding less_eq_numType_def nt_Sub_def by (blast intro: subSign_order subDomain_order)
  show "x \<le> y \<Longrightarrow> y \<le> x \<Longrightarrow> x = y"
    unfolding less_eq_numType_def nt_Sub_def
    by (blast intro: numType.expand subSign_order subDomain_order)
  show "x \<le> sup x y" "y \<le> sup x y"
    by (simp_all add: less_eq_numType_def sup_numType_def nt_Sub_def nt_Join_def joinSign_upper
        joinDomain_lub)
  show "y \<le> x \<Longrightarrow> z \<le> x \<Longrightarrow> sup y z \<le> x"
    by (simp add: less_eq_numType_def sup_numType_def nt_Sub_def nt_Join_def joinSign_least
        joinDomain_lub)
qed

end

instantiation numType :: order_top
begin

definition top_numType :: numType where
  "top_numType = NumType DRat SAny"

instance
proof
  show "a \<le> top" for a :: numType
    by (cases a; cases "nt_sign a")
      (auto simp: less_eq_numType_def top_numType_def nt_Sub_def subDomain_def subSign_def
        intro: domain.exhaust)
qed

end

lemma nt_Sub_le: "nt_Sub a b \<longleftrightarrow> a \<le> b"
  by (simp add: less_eq_numType_def)

lemma nt_Join_sup: "nt_Join a b = sup a b"
  by (simp add: sup_numType_def)

lemma nt_Sub_refl [simp, intro]: "nt_Sub a a"
  by (simp add: nt_Sub_le)

lemma nt_Sub_trans [trans]: "nt_Sub a b \<Longrightarrow> nt_Sub b c \<Longrightarrow> nt_Sub a c"
  unfolding nt_Sub_le by (rule order_trans)

lemma nt_Sub_Join: "nt_Sub a (nt_Join a b)" "nt_Sub b (nt_Join a b)"
  by (simp_all add: nt_Sub_le nt_Join_sup)

subsection \<open>Semantics\<close>

lemma Allows_mono: "nt_Sub a b \<Longrightarrow> nt_Allows a v \<Longrightarrow> nt_Allows b v"
  by (cases "nt_domain a"; cases "nt_domain b")
    (auto simp: nt_Sub_def nt_Allows_iff subDomain_def dest: subSign_sound)

lemma rat_half_not_int: "\<not> rat_IsInt (1 / 2)" "\<not> rat_IsInt (- (1 / 2))"
proof -
  have half: "(1 / 2 :: rat) \<noteq> of_int i" for i
  proof
    assume "(1 / 2 :: rat) = of_int i"
    then have "(of_int (2 * i) :: rat) = of_int 1" by simp
    then have "2 * i = 1" by (simp only: of_int_eq_iff)
    then show False by presburger
  qed
  show "\<not> rat_IsInt (1 / 2)"
    using half by (auto simp: rat_IsInt_iff elim: Ints_cases)
  show "\<not> rat_IsInt (- (1 / 2))"
  proof
    assume "rat_IsInt (- (1 / 2))"
    then have "- (- (1 / 2 :: rat)) \<in> \<int>" unfolding rat_IsInt_iff by (rule Ints_minus)
    with half show False by (auto elim: Ints_cases)
  qed
qed

text \<open>The type \<open>{Rat, Zero}\<close> has the one value 0, as \<open>{Int, Zero}\<close> has; it is the only type whose
  value set is not told apart from a type it is not below.\<close>

lemma Sub_complete:
  assumes spell: "a \<noteq> NumType DRat SZero" and incl: "\<And>v. nt_Allows a v \<Longrightarrow> nt_Allows b v"
  shows "nt_Sub a b"
proof -
  have "subSign (nt_sign a) (nt_sign b)"
  proof (rule ccontr)
    assume "\<not> ?thesis"
    then obtain v where v: "v \<in> {- 1, 0, 1}" "in_sign (nt_sign a) v" "\<not> in_sign (nt_sign b) v"
      using subSign_complete by blast
    moreover have "rat_IsInt v"
      using v(1) rat_IsInt_of_int [of "- 1"] rat_IsInt_of_int [of 0] rat_IsInt_of_int [of 1] by auto
    then have "in_domain d v" for d by (cases d) simp_all
    ultimately show False using incl [of v] by (simp add: nt_Allows_iff)
  qed
  moreover have "subDomain (nt_domain a) (nt_domain b)"
  proof (rule ccontr)
    assume "\<not> ?thesis"
    then have dom: "nt_domain a = DRat" "nt_domain b = DInt"
      by (cases "nt_domain a"; cases "nt_domain b"; simp add: subDomain_def)+
    then have "in_sign (nt_sign a) (1 / 2) \<or> in_sign (nt_sign a) (- (1 / 2))"
      using spell by (cases a; cases "nt_sign a") auto
    then show False
      using incl [of "1 / 2"] incl [of "- (1 / 2)"] dom by (auto simp: nt_Allows_iff rat_half_not_int)
  qed
  ultimately show ?thesis by (simp add: nt_Sub_def)
qed

text \<open>
  C36: assignability is inclusion of value sets. For every type other than the internal
  \<open>{Rat, Zero}\<close> (so for every type a user can spell, and for the type of the literal 0),
  \<open>Sub(a, b)\<close> holds exactly when every runtime value that \<open>Allows(a, _)\<close> accepts is accepted by
  \<open>Allows(b, _)\<close>.
\<close>

theorem Sub_iff_value_inclusion:
  assumes "a \<noteq> NumType DRat SZero"
  shows "nt_Sub a b \<longleftrightarrow> (\<forall>v. nt_Allows a v \<longrightarrow> nt_Allows b v)"
  using assms Allows_mono Sub_complete by blast

theorem Sub_iff_value_inclusion_witness:
  "nt_Sub (NumType DInt SNonNeg) (NumType DRat SAny) \<longleftrightarrow>
     (\<forall>v. nt_Allows (NumType DInt SNonNeg) v \<longrightarrow> nt_Allows (NumType DRat SAny) v)"
  by (rule Sub_iff_value_inclusion) simp

text \<open>
  C37: \<open>Join\<close> is the least upper bound of the subtype order, and a value of either operand's type
  is a value of the join.
\<close>

theorem Join_least_upper_bound:
  "nt_Sub (nt_Join a b) c \<longleftrightarrow> nt_Sub a c \<and> nt_Sub b c"
  by (simp add: nt_Sub_le nt_Join_sup)

lemma nt_Parse_nz: "nt_Parse nm = Some nt \<Longrightarrow> nt_sign nt \<noteq> SZero"
  by (auto simp: nt_Parse_def split: if_split_asm)

lemma nt_Parse_String: "nt_sign nt \<noteq> SZero \<Longrightarrow> nt_Parse (nt_String nt) = Some nt"
  by (cases nt; cases "nt_domain nt"; cases "nt_sign nt") (auto simp: nt_Parse_def)

text \<open>
  C38: \<open>Parse\<close> inverts \<open>String\<close> on every type but those with the internal Zero sign, which no
  spelling names; and it accepts nothing else.
\<close>

theorem Parse_String_roundtrip:
  "nt_Parse name = Some t \<longleftrightarrow> name = nt_String t \<and> nt_sign t \<noteq> SZero"
  by (cases t; cases "nt_domain t"; cases "nt_sign t") (auto simp: nt_Parse_def)

end
