(* ===== verification/GoMap.thy ===== *)
theory GoMap
  imports Prelude
begin

text \<open>
  Go maps with string keys. A map is an association list whose keys are strictly increasing
  (\<open>wfm\<close>), so two maps with the same contents are the same value and the model stays
  executable. \<open>map_of m k\<close> is Go's \<open>v, ok := m[k]\<close>, \<open>mput k v m\<close> is \<open>m[k] = v\<close>,
  \<open>mdel k m\<close> is \<open>delete(m, k)\<close>, \<open>mkeys m\<close> the key set, \<open>mfrom\<close> a map built by a loop of
  assignments. Go leaves the iteration order of \<open>range m\<close> open: a loop over a map runs over a
  permutation of its entries that the definitions take as an argument where it can matter.
\<close>

type_synonym 'v gomap = "(string \<times> 'v) list"

fun mput :: "string \<Rightarrow> 'v \<Rightarrow> 'v gomap \<Rightarrow> 'v gomap" where
  "mput k v [] = [(k, v)]"
| "mput k v ((k', v') # m) =
     (if k = k' then (k, v) # m
      else if k < k' then (k, v) # (k', v') # m
      else (k', v') # mput k v m)"

fun mdel :: "string \<Rightarrow> 'v gomap \<Rightarrow> 'v gomap" where
  "mdel k [] = []"
| "mdel k ((k', v') # m) = (if k = k' then mdel k m else (k', v') # mdel k m)"

definition mkeys :: "'v gomap \<Rightarrow> string list" where
  "mkeys m = map fst m"

definition mfrom :: "(string \<times> 'v) list \<Rightarrow> 'v gomap" where
  "mfrom es = fold (\<lambda>(k, v) m. mput k v m) es []"

definition wfm :: "'v gomap \<Rightarrow> bool" where
  "wfm m \<longleftrightarrow> sorted_wrt (<) (map fst m)"

definition mmap :: "('v \<Rightarrow> 'w) \<Rightarrow> 'v gomap \<Rightarrow> 'w gomap" where
  "mmap f m = map (\<lambda>(k, v). (k, f v)) m"

subsection \<open>Lookup after the operations\<close>

lemma map_of_mput [simp]: "map_of (mput k v m) = (map_of m)(k \<mapsto> v)"
  by (induction k v m rule: mput.induct) (auto simp: fun_eq_iff)

lemma map_of_mdel [simp]: "map_of (mdel k m) = (map_of m)(k := None)"
  by (induction k m rule: mdel.induct) (auto simp: fun_eq_iff)

lemma map_of_mmap [simp]: "map_of (mmap f m) k = map_option f (map_of m k)"
  by (induction m) (auto simp: mmap_def)

lemma mkeys_simps [simp]:
  "mkeys [] = []"
  "mkeys ((k, v) # m) = k # mkeys m"
  by (simp_all add: mkeys_def)

lemma set_mkeys: "set (mkeys m) = dom (map_of m)"
  by (simp add: mkeys_def dom_map_of_conv_image_fst)

lemma mkeys_mmap [simp]: "mkeys (mmap f m) = mkeys m"
  by (induction m) (auto simp: mmap_def)

subsection \<open>Well-formed maps\<close>

lemma wfm_Nil [simp]: "wfm []"
  by (simp add: wfm_def)

lemma wfm_Cons: "wfm ((k, v) # m) \<longleftrightarrow> (\<forall>k' \<in> dom (map_of m). k < k') \<and> wfm m"
  by (auto simp: wfm_def dom_map_of_conv_image_fst)

lemma wfm_ConsD: "wfm (kv # m) \<Longrightarrow> wfm m"
  by (simp add: wfm_def)

lemma wfm_mput [simp, intro]: "wfm m \<Longrightarrow> wfm (mput k v m)"
proof (induction k v m rule: mput.induct)
  case (1 k v)
  then show ?case by (simp add: wfm_def)
next
  case (2 k v k' v' m)
  then show ?case by (auto simp: wfm_Cons dest: less_trans)
qed

lemma wfm_mdel [simp, intro]: "wfm m \<Longrightarrow> wfm (mdel k m)"
  by (induction k m rule: mdel.induct) (auto simp: wfm_Cons)

lemma wfm_mmap [simp]: "wfm (mmap f m) \<longleftrightarrow> wfm m"
  by (simp add: wfm_def mmap_def comp_def case_prod_beta)

lemma wfm_distinct: "wfm m \<Longrightarrow> distinct (map fst m)"
  by (simp add: wfm_def strict_sorted_iff)

lemma wfm_map_of_iff: "wfm m \<Longrightarrow> map_of m k = Some v \<longleftrightarrow> (k, v) \<in> set m"
  by (simp add: wfm_distinct)

lemma wfm_fold_mput: "wfm m \<Longrightarrow> wfm (fold (\<lambda>(k, v). mput k v) es m)"
  by (induction es arbitrary: m) auto

lemma wfm_mfrom [simp, intro]: "wfm (mfrom es)"
  by (simp add: mfrom_def wfm_fold_mput)

lemma map_of_fold_mput:
  "map_of (fold (\<lambda>(k, v). mput k v) es m) k =
     (case map_of (rev es) k of None \<Rightarrow> map_of m k | Some v \<Rightarrow> Some v)"
  by (induction es arbitrary: m) (auto simp: map_add_def split: option.splits)

lemma map_of_mfrom: "map_of (mfrom es) k = map_of (rev es) k"
  by (simp add: mfrom_def map_of_fold_mput split: option.splits)

lemma map_of_rev_distinct: "distinct (map fst es) \<Longrightarrow> map_of (rev es) = map_of es"
  by (subst map_of_inject_set) (simp_all flip: rev_map)

lemma map_of_mfrom_distinct: "distinct (map fst es) \<Longrightarrow> map_of (mfrom es) = map_of es"
  by (simp add: fun_eq_iff map_of_mfrom map_of_rev_distinct)

text \<open>Two well-formed maps with the same lookups are equal: model equality is map equality.\<close>

lemma wfm_ConsE:
  assumes "wfm m" and "map_of m k = Some v" and "\<And>k' w. map_of m k' = Some w \<Longrightarrow> k \<le> k'"
  obtains m' where "m = (k, v) # m'" and "wfm m'"
proof (cases m)
  case Nil
  with assms(2) show ?thesis by simp
next
  case (Cons kv m')
  obtain k0 v0 where kv: "kv = (k0, v0)" by (cases kv)
  have "k \<le> k0" using assms(3) [of k0 v0] Cons kv by simp
  moreover have "k0 \<le> k"
    using assms(1,2) Cons kv by (force simp: wfm_Cons dom_def split: if_splits)
  ultimately have "k = k0" by simp
  with assms Cons kv that [of m'] show ?thesis by (simp add: wfm_Cons)
qed

lemma wfm_ext: "wfm m \<Longrightarrow> wfm m' \<Longrightarrow> map_of m = map_of m' \<Longrightarrow> m = m'"
proof (induction m arbitrary: m')
  case Nil
  then show ?case by (cases m') (auto simp: fun_eq_iff split: if_splits)
next
  case (Cons kv m)
  obtain k v where kv: "kv = (k, v)" by (cases kv)
  from Cons.prems kv have lt: "k < k'" if "map_of m k' = Some w" for k' w
    using that by (auto simp: wfm_Cons)
  have eq: "map_of m' = (map_of m)(k \<mapsto> v)"
    using Cons.prems(3) [symmetric] kv by (simp add: fun_eq_iff)
  obtain m'' where m': "m' = (k, v) # m''" "wfm m''"
  proof (rule wfm_ConsE [OF Cons.prems(2)])
    show "map_of m' k = Some v" by (simp add: eq)
    show "k \<le> k'" if "map_of m' k' = Some w" for k' w
      using that lt by (auto simp: eq less_imp_le split: if_splits)
  qed
  have fresh: "map_of m k = None" "map_of m'' k = None"
    using Cons.prems(1,2) kv m' by (auto simp: wfm_Cons dom_def)
  have "map_of m k' = map_of m'' k'" for k'
  proof (cases "k' = k")
    case True
    with fresh show ?thesis by simp
  next
    case False
    have "map_of m' k' = (if k' = k then Some v else map_of m'' k')" by (simp add: m'(1))
    with eq False show ?thesis by simp
  qed
  then have "map_of m = map_of m''" by blast
  with Cons.IH [of m''] Cons.prems(1) m' kv show ?case by (simp add: wfm_Cons)
qed

lemma mfrom_id: "wfm m \<Longrightarrow> mfrom m = m"
  by (rule wfm_ext) (auto simp: map_of_mfrom_distinct wfm_distinct)

lemma mput_same: "wfm m \<Longrightarrow> map_of m k = Some v \<Longrightarrow> mput k v m = m"
  by (rule wfm_ext) (auto simp: fun_eq_iff)

lemma set_mput_wfm: "wfm m \<Longrightarrow> set (mput k v m) = insert (k, v) {e \<in> set m. fst e \<noteq> k}"
  by (auto simp: wfm_map_of_iff [symmetric] split: if_splits)

text \<open>A loop over the entries that may fail: the keys stay, the values are mapped.\<close>

fun mmapR :: "('v \<Rightarrow> 'e + 'w) \<Rightarrow> 'v gomap \<Rightarrow> 'e + 'w gomap" where
  "mmapR f [] = Inr []"
| "mmapR f ((k, v) # m) = rbind (f v) (\<lambda>w. rbind (mmapR f m) (\<lambda>m'. Inr ((k, w) # m')))"

lemma mmapR_cong [fundef_cong]:
  "m = m' \<Longrightarrow> (\<And>k v. (k, v) \<in> set m' \<Longrightarrow> f v = g v) \<Longrightarrow> mmapR f m = mmapR g m'"
proof (induction m arbitrary: m')
  case Nil
  then show ?case by simp
next
  case (Cons kv m)
  obtain k v where kv: "kv = (k, v)" by (cases kv)
  have "mmapR f m = mmapR g m"
    using Cons.prems by (intro Cons.IH) (metis list.set_intros(2))+
  moreover have "f v = g v"
    using Cons.prems kv by (metis list.set_intros(1))
  ultimately show ?case using Cons.prems kv by auto
qed

lemma mmapR_Cons_Inr:
  "mmapR f ((k, v) # m) = Inr m' \<longleftrightarrow> (\<exists>w m''. f v = Inr w \<and> mmapR f m = Inr m'' \<and> m' = (k, w) # m'')"
  by auto

lemma mmapR_keys: "mmapR f m = Inr m' \<Longrightarrow> map fst m' = map fst m"
  by (induction m arbitrary: m') auto

lemma mmapR_wfm: "mmapR f m = Inr m' \<Longrightarrow> wfm m' = wfm m"
  by (simp add: wfm_def mmapR_keys)

lemma mmapR_None: "mmapR f m = Inr m' \<Longrightarrow> map_of m' k = None \<longleftrightarrow> map_of m k = None"
  by (simp add: map_of_eq_None_iff mmapR_keys flip: set_map)

lemma mmapR_Some:
  "mmapR f m = Inr m' \<Longrightarrow> map_of m k = Some v \<Longrightarrow> \<exists>w. f v = Inr w \<and> map_of m' k = Some w"
  by (induction m arbitrary: m') (auto split: if_splits)

lemma mmapR_InrI: "(\<And>k v. (k, v) \<in> set m \<Longrightarrow> f v = Inr (g v)) \<Longrightarrow> mmapR f m = Inr (mmap g m)"
proof (induction m)
  case Nil
  then show ?case by (simp add: mmap_def)
next
  case (Cons kv m)
  obtain k v where kv: "kv = (k, v)" by (cases kv)
  have "mmapR f m = Inr (mmap g m)"
    by (rule Cons.IH) (use Cons.prems in auto)
  with Cons.prems [of k v] kv show ?case by (simp add: mmap_def)
qed

lemma mmapR_id: "(\<And>k v. (k, v) \<in> set m \<Longrightarrow> f v = Inr v) \<Longrightarrow> mmapR f m = Inr m"
  using mmapR_InrI [of m f "\<lambda>v. v"] by (simp add: mmap_def)

subsection \<open>The map interface\<close>

text \<open>
  What the rest of the model relies on: a put is read back, other keys are untouched, a delete
  removes, and lookups determine the map.
\<close>

locale string_map =
  fixes empty :: "'m"
    and lookup :: "'m \<Rightarrow> string \<Rightarrow> 'v option"
    and put :: "string \<Rightarrow> 'v \<Rightarrow> 'm \<Rightarrow> 'm"
    and del :: "string \<Rightarrow> 'm \<Rightarrow> 'm"
    and wf :: "'m \<Rightarrow> bool"
  assumes lookup_empty: "lookup empty k = None"
    and lookup_put: "lookup (put k v m) k' = (if k' = k then Some v else lookup m k')"
    and lookup_del: "lookup (del k m) k' = (if k' = k then None else lookup m k')"
    and wf_empty: "wf empty"
    and wf_put: "wf m \<Longrightarrow> wf (put k v m)"
    and wf_del: "wf m \<Longrightarrow> wf (del k m)"
    and ext: "wf m \<Longrightarrow> wf m' \<Longrightarrow> (\<And>k. lookup m k = lookup m' k) \<Longrightarrow> m = m'"
begin

lemma put_put: "wf m \<Longrightarrow> put k v (put k w m) = put k v m"
  by (rule ext) (auto simp: lookup_put wf_put)

lemma put_commute: "wf m \<Longrightarrow> k \<noteq> k' \<Longrightarrow> put k v (put k' w m) = put k' w (put k v m)"
  by (rule ext) (auto simp: lookup_put wf_put)

lemma del_put_fresh: "wf m \<Longrightarrow> lookup m k = None \<Longrightarrow> del k (put k v m) = m"
  by (rule ext) (auto simp: lookup_put lookup_del wf_put wf_del)

end

interpretation gm: string_map "[]" map_of mput mdel wfm
  by unfold_locales (simp_all add: wfm_ext fun_eq_iff)

lemmas mput_mput = gm.put_put
lemmas mput_commute = gm.put_commute
lemmas mdel_mput_fresh = gm.del_put_fresh

end
