(* ===== verification/Syntax.thy ===== *)
theory Syntax
  imports NumType GoMap
begin

text \<open>
  parser/types.go: the abstract syntax the parser produces and the builder resolves, and the flat
  definitions of a plan. \<open>expr\<close> is Go's \<open>Expr\<close> closed sum, one constructor per \<open>ExprKind\<close> with
  the fields that kind uses. A pointer the code tests against nil is an \<open>option\<close>
  (\<open>Head\<close>, \<open>Fn\<close>, \<open>Init\<close>, \<open>Vec\<close>, \<open>Target\<close>, \<open>Value\<close>, \<open>Cond\<close>, \<open>Result\<close>); the elements of
  \<open>Args\<close> and the rational of a literal are never nil in any tree the program builds, and are
  plain. crdt/crdt.go's element descriptor \<open>ElemT\<close> is here too, because the builder produces it
  and the runtime consumes it.
\<close>

datatype refKind = RefPrimitive | RefFunction

datatype expr =
    ENumLit rat
  | EStrLit string
  | EName string
  | EVar string
  | ERef string nat refKind
  | EApp "expr option" "expr list"
  | EGuards "guardCase list"
  | EStructLit "structField list"
  | EField "expr option" string
  | EReduce "expr option" "expr option" "expr option"
  | EZip "expr option"
  | ELocal "expr option"
  | EWrite "expr option"
and guardCase =
    GuardCase (gc_Cond: "expr option") (gc_Result: "expr option") (gc_Otherwise: bool)
and structField =
    StructField (sf_Name: string) (sf_Value: "expr option")

datatype valType = TypeReal | TypeBool | TypeString

fun valType_String :: "valType \<Rightarrow> string" where
  "valType_String TypeReal = ''rat''"
| "valType_String TypeBool = ''bool''"
| "valType_String TypeString = ''string''"

record paramSpec =
  p_Name :: string
  p_Type :: string

record fieldSpec =
  fs_Name :: string
  fs_Type :: string

text \<open>
  The right-hand side of a type definition: a struct, a vector of a named element, a vector of an
  inline struct (\<open>Inner\<close>), or an element reference.
\<close>

datatype elemType =
    KindStruct "fieldSpec list"
  | KindVector string
  | KindVectorInner "fieldSpec list"
  | KindElemRef string

record typeDef =
  td_Name :: string
  td_Elem :: elemType

record fnDef =
  fd_Name :: string
  fd_Params :: "paramSpec list"
  fd_Body :: expr
  fd_RetType :: string

record mergeDef =
  md_TypeName :: string
  md_Body :: expr

record queryDef =
  qd_TypeName :: string
  qd_MethodName :: string
  qd_Params :: "paramSpec list"
  qd_Body :: expr

record updateDef =
  ud_TypeName :: string
  ud_MethodName :: string
  ud_Params :: "paramSpec list"
  ud_Body :: expr

record collectionSpec =
  cs_Name :: string
  cs_Key :: "paramSpec option"
  cs_Type :: string

record plan =
  pl_Types :: "typeDef list"
  pl_Functions :: "fnDef list"
  pl_Merges :: "mergeDef list"
  pl_Queries :: "queryDef list"
  pl_Updates :: "updateDef list"
  pl_Collections :: "collectionSpec list"

subsection \<open>Element descriptors\<close>

text \<open>
  \<open>crdt.ElemT\<close>: a slot holds a struct with named fields in declaration order, a string or a
  number. \<open>wf_elem\<close> says the field names of every struct are distinct and no leaf has the internal
  sign \<open>SZero\<close>, as the builder ensures.
\<close>

datatype elemT =
    TStruct string "(string \<times> elemT) list"
  | TStr
  | TNum numType

fun wf_elem :: "elemT \<Rightarrow> bool"
and wf_fields :: "(string \<times> elemT) list \<Rightarrow> bool" where
  "wf_elem (TStruct nm fs) = (distinct (map fst fs) \<and> wf_fields fs)"
| "wf_elem TStr = True"
| "wf_elem (TNum nt) = (nt_sign nt \<noteq> SZero)"
| "wf_fields [] = True"
| "wf_fields ((k, t) # fs) = (wf_elem t \<and> wf_fields fs)"

lemma wf_fields_iff: "wf_fields fs \<longleftrightarrow> (\<forall>(k, t) \<in> set fs. wf_elem t)"
  by (induction fs) auto

end
