(* ===== verification/Utf8.thy ===== *)
theory Utf8
  imports Prelude
begin

text \<open>
  UTF-8 as Go's unicode/utf8 and the conversions \<open>[]rune(s)\<close> and \<open>string(runes)\<close> have it.
  A string is a list of bytes (\<open>char\<close>), a rune is a code point (\<open>nat\<close>).
  \<open>utf8_ValidString\<close> is \<open>utf8.ValidString\<close>, \<open>utf8_encode\<close> one rune's encoding,
  \<open>go_runes\<close> is \<open>[]rune(s)\<close> (each byte that starts no valid sequence is U+FFFD).

  The main results: a string is valid exactly when it encodes a list of Unicode scalar values,
  decoding such a string gives the list back, and comparing valid strings by bytes is comparing
  them by code points. crdt/vector.go relies on the last one to identify the runtime's string
  order with the solver's.
\<close>

subsection \<open>Bytes\<close>

abbreviation byte :: "char \<Rightarrow> nat" where
  "byte \<equiv> of_char"

definition chr :: "nat \<Rightarrow> char" where
  "chr n = char_of n"

lemma byte_chr [simp]: "n < 256 \<Longrightarrow> byte (chr n) = n"
  by (simp add: chr_def)

lemma chr_byte [simp]: "chr (byte c) = c"
  by (simp add: chr_def)

lemma byte_less [simp]: "byte c < 256"
  by (rule nat_of_char_less_256)

lemma chr_eq_iff: "n < 256 \<Longrightarrow> chr n = c \<longleftrightarrow> n = byte c"
  by (metis byte_chr chr_byte)

lemma chr_less_iff: "m < 256 \<Longrightarrow> n < 256 \<Longrightarrow> chr m < chr n \<longleftrightarrow> m < n"
  by (simp add: less_char_def)

lemma chr_inj: "m < 256 \<Longrightarrow> n < 256 \<Longrightarrow> chr m = chr n \<longleftrightarrow> m = n"
  by (metis byte_chr)

subsection \<open>Encoding and decoding one rune\<close>

definition is_scalar :: "nat \<Rightarrow> bool" where
  "is_scalar r \<longleftrightarrow> r < 0xD800 \<or> (0xE000 \<le> r \<and> r \<le> 0x10FFFF)"

definition utf8_encode :: "nat \<Rightarrow> string" where
  "utf8_encode r =
     (if r < 0x80 then [chr r]
      else if r < 0x800 then [chr (0xC0 + r div 64), chr (0x80 + r mod 64)]
      else if r < 0x10000 then
        [chr (0xE0 + r div 64 div 64), chr (0x80 + r div 64 mod 64), chr (0x80 + r mod 64)]
      else
        [chr (0xF0 + r div 64 div 64 div 64), chr (0x80 + r div 64 div 64 mod 64),
         chr (0x80 + r div 64 mod 64), chr (0x80 + r mod 64)])"

definition in_range :: "nat \<Rightarrow> nat \<Rightarrow> char \<Rightarrow> bool" where
  "in_range lo hi c \<longleftrightarrow> lo \<le> byte c \<and> byte c \<le> hi"

definition cbits :: "char \<Rightarrow> nat" where
  "cbits c = byte c - 0x80"

fun decode1 :: "string \<Rightarrow> (nat \<times> string) option" where
  "decode1 [] = None"
| "decode1 (c0 # s) =
     (let b = byte c0 in
      if b < 0x80 then Some (b, s)
      else if 0xC2 \<le> b \<and> b \<le> 0xDF then
        (case s of
           c1 # r \<Rightarrow> if in_range 0x80 0xBF c1 then Some ((b - 0xC0) * 64 + cbits c1, r) else None
         | _ \<Rightarrow> None)
      else if 0xE0 \<le> b \<and> b \<le> 0xEF then
        (case s of
           c1 # c2 # r \<Rightarrow>
             if in_range (if b = 0xE0 then 0xA0 else 0x80) (if b = 0xED then 0x9F else 0xBF) c1
                \<and> in_range 0x80 0xBF c2
             then Some (((b - 0xE0) * 64 + cbits c1) * 64 + cbits c2, r) else None
         | _ \<Rightarrow> None)
      else if 0xF0 \<le> b \<and> b \<le> 0xF4 then
        (case s of
           c1 # c2 # c3 # r \<Rightarrow>
             if in_range (if b = 0xF0 then 0x90 else 0x80) (if b = 0xF4 then 0x8F else 0xBF) c1
                \<and> in_range 0x80 0xBF c2 \<and> in_range 0x80 0xBF c3
             then Some ((((b - 0xF0) * 64 + cbits c1) * 64 + cbits c2) * 64 + cbits c3, r) else None
         | _ \<Rightarrow> None)
      else None)"

lemma decode1_length: "decode1 s = Some (r, rest) \<Longrightarrow> length rest < length s"
  by (cases s) (auto simp: decode1.simps Let_def split: if_splits list.splits)

declare decode1.simps [simp del]

function go_runes :: "string \<Rightarrow> nat list" where
  "go_runes s =
     (case s of
        [] \<Rightarrow> []
      | c # cs \<Rightarrow>
          (case decode1 s of
             Some (r, rest) \<Rightarrow> r # go_runes rest
           | None \<Rightarrow> 0xFFFD # go_runes cs))"
  by pat_completeness auto
termination
  by (relation "measure length") (auto dest: decode1_length)

declare go_runes.simps [simp del]

function utf8_ValidString :: "string \<Rightarrow> bool" where
  "utf8_ValidString s =
     (case s of
        [] \<Rightarrow> True
      | c # cs \<Rightarrow>
          (case decode1 s of
             Some (r, rest) \<Rightarrow> utf8_ValidString rest
           | None \<Rightarrow> False))"
  by pat_completeness auto
termination
  by (relation "measure length") (auto dest: decode1_length)

declare utf8_ValidString.simps [simp del]

definition string_of_runes :: "nat list \<Rightarrow> string" where
  "string_of_runes rs = concat (map utf8_encode rs)"

lemma string_of_runes_simps [simp]:
  "string_of_runes [] = []"
  "string_of_runes (r # rs) = utf8_encode r @ string_of_runes rs"
  by (simp_all add: string_of_runes_def)

lemma utf8_encode_not_Nil [simp]: "utf8_encode r \<noteq> []"
  by (simp add: utf8_encode_def)

lemma digits64:
  fixes r :: nat
  defines "q1 \<equiv> r div 64" and "q2 \<equiv> r div 64 div 64" and "q3 \<equiv> r div 64 div 64 div 64"
  shows "q1 * 64 + r mod 64 = r" "q2 * 64 + q1 mod 64 = q1" "q3 * 64 + q2 mod 64 = q2"
  by (simp_all add: assms)

lemma decode1_encode:
  assumes "is_scalar r"
  shows "decode1 (utf8_encode r @ s) = Some (r, s)"
proof -
  define q1 q2 q3 where q: "q1 = r div 64" "q2 = q1 div 64" "q3 = q2 div 64"
  define d0 d1 d2 where d: "d0 = r mod 64" "d1 = q1 mod 64" "d2 = q2 mod 64"
  have eqs: "q1 * 64 + d0 = r" "q2 * 64 + d1 = q1" "q3 * 64 + d2 = q2"
    by (simp_all add: q d)
  have bd: "d0 < 64" "d1 < 64" "d2 < 64" by (simp_all add: d)
  have enc: "utf8_encode r =
     (if r < 0x80 then [chr r] else if r < 0x800 then [chr (0xC0 + q1), chr (0x80 + d0)]
      else if r < 0x10000 then [chr (0xE0 + q2), chr (0x80 + d1), chr (0x80 + d0)]
      else [chr (0xF0 + q3), chr (0x80 + d2), chr (0x80 + d1), chr (0x80 + d0)])"
    by (simp add: utf8_encode_def q d)
  consider "r < 0x80" | "0x80 \<le> r" "r < 0x800" | "0x800 \<le> r" "r < 0x10000"
    | "0x10000 \<le> r" by linarith
  then show ?thesis
  proof cases
    case 1
    then show ?thesis by (simp add: enc decode1.simps)
  next
    case 2
    then have "2 \<le> q1" "q1 < 32" using eqs bd by linarith+
    with 2 eqs bd show ?thesis
      by (simp add: enc decode1.simps in_range_def cbits_def Let_def)
  next
    case 3
    then have "q2 < 16" "q2 = 0 \<Longrightarrow> 32 \<le> d1" using eqs bd by linarith+
    moreover have "q2 = 13 \<Longrightarrow> d1 < 32"
      using assms 3 eqs bd unfolding is_scalar_def by linarith
    ultimately show ?thesis using 3 eqs bd
      by (auto simp: enc decode1.simps in_range_def cbits_def Let_def)
  next
    case 4
    then have r: "r \<le> 0x10FFFF" using assms by (simp add: is_scalar_def)
    then have "q3 \<le> 4" "q3 = 0 \<Longrightarrow> 16 \<le> d2" "q3 = 4 \<Longrightarrow> d2 < 16"
      using eqs bd 4 by linarith+
    with 4 eqs bd show ?thesis
      by (auto simp: enc decode1.simps in_range_def cbits_def Let_def)
  qed
qed

lemma base64_split:
  fixes x y :: nat
  assumes "y < 64"
  shows "(x * 64 + y) div 64 = x" "(x * 64 + y) mod 64 = y"
  using assms by simp_all

lemma decode1_Some:
  assumes "decode1 s = Some (r, rest)"
  shows "is_scalar r \<and> s = utf8_encode r @ rest"
proof (cases s)
  case Nil
  with assms show ?thesis by (simp add: decode1.simps)
next
  case (Cons c0 t)
  define b where "b = byte c0"
  have b256: "b < 256" by (simp add: b_def)
  consider "b < 0x80" | "0xC2 \<le> b" "b \<le> 0xDF" | "0xE0 \<le> b" "b \<le> 0xEF" | "0xF0 \<le> b" "b \<le> 0xF4"
    using assms Cons by (auto simp: decode1.simps b_def Let_def split: if_splits)
  then show ?thesis
  proof cases
    case 1
    with assms Cons have "r = b" "rest = t" by (auto simp: decode1.simps b_def Let_def)
    with 1 Cons show ?thesis by (simp add: is_scalar_def utf8_encode_def b_def)
  next
    case 2
    with assms Cons obtain c1 where t: "t = c1 # rest" "in_range 0x80 0xBF c1"
      and r: "r = (b - 0xC0) * 64 + cbits c1"
      by (auto simp: decode1.simps b_def Let_def split: if_splits list.splits)
    define d0 where "d0 = cbits c1"
    have c1: "byte c1 = 0x80 + d0" "d0 < 64" using t(2) by (auto simp: in_range_def cbits_def d0_def)
    have "r div 64 = b - 0xC0" "r mod 64 = d0" using r c1 by (auto simp: d0_def)
    moreover have "0x80 \<le> r" "r < 0x800" using r 2 c1 by (auto simp: d0_def)
    moreover have "chr b = c0" by (simp add: b_def)
    ultimately show ?thesis using 2 Cons t c1
      by (simp add: is_scalar_def utf8_encode_def c1(1) [symmetric])
  next
    case 3
    with assms Cons obtain c1 c2 where t: "t = c1 # c2 # rest" "in_range 0x80 0xBF c2"
        "in_range (if b = 0xE0 then 0xA0 else 0x80) (if b = 0xED then 0x9F else 0xBF) c1"
      and r: "r = ((b - 0xE0) * 64 + cbits c1) * 64 + cbits c2"
      by (auto simp: decode1.simps b_def Let_def split: if_splits list.splits)
    define d0 d1 where "d0 = cbits c2" and "d1 = cbits c1"
    have c: "byte c2 = 0x80 + d0" "d0 < 64" "byte c1 = 0x80 + d1" "d1 < 64"
      using t(2,3) by (auto simp: in_range_def cbits_def d0_def d1_def split: if_splits)
    have req: "r = ((b - 0xE0) * 64 + d1) * 64 + d0" using r by (simp add: d0_def d1_def)
    have q: "r div 64 = (b - 0xE0) * 64 + d1" "r mod 64 = d0"
      unfolding req by (rule base64_split [OF c(2)])+
    have q2: "r div 64 div 64 = b - 0xE0" "r div 64 mod 64 = d1"
      unfolding q by (rule base64_split [OF c(4)])+
    note req
    moreover have "b = 0xE0 \<Longrightarrow> 32 \<le> d1" "b = 0xED \<Longrightarrow> d1 < 32"
      using t(3) c by (auto simp: in_range_def)
    ultimately have "0x800 \<le> r \<and> r < 0x10000 \<and> (r < 0xD800 \<or> 0xE000 \<le> r)"
      using 3 c by (cases "b = 0xE0"; cases "b = 0xED"; simp) linarith+
    moreover have "chr b = c0" by (simp add: b_def)
    ultimately show ?thesis using 3 Cons t c q q2
      by (simp add: is_scalar_def utf8_encode_def c(1,3) [symmetric])
  next
    case 4
    with assms Cons obtain c1 c2 c3 where t: "t = c1 # c2 # c3 # rest" "in_range 0x80 0xBF c2"
        "in_range 0x80 0xBF c3"
        "in_range (if b = 0xF0 then 0x90 else 0x80) (if b = 0xF4 then 0x8F else 0xBF) c1"
      and r: "r = (((b - 0xF0) * 64 + cbits c1) * 64 + cbits c2) * 64 + cbits c3"
      by (auto simp: decode1.simps b_def Let_def split: if_splits list.splits)
    define d0 d1 d2 where "d0 = cbits c3" and "d1 = cbits c2" and "d2 = cbits c1"
    have c: "byte c3 = 0x80 + d0" "d0 < 64" "byte c2 = 0x80 + d1" "d1 < 64"
        "byte c1 = 0x80 + d2" "d2 < 64"
      using t(2-4) by (auto simp: in_range_def cbits_def d0_def d1_def d2_def split: if_splits)
    have req: "r = (((b - 0xF0) * 64 + d2) * 64 + d1) * 64 + d0"
      using r by (simp add: d0_def d1_def d2_def)
    have q: "r div 64 = ((b - 0xF0) * 64 + d2) * 64 + d1" "r mod 64 = d0"
      unfolding req by (rule base64_split [OF c(2)])+
    have q2: "r div 64 div 64 = (b - 0xF0) * 64 + d2" "r div 64 mod 64 = d1"
      unfolding q by (rule base64_split [OF c(4)])+
    have q3: "r div 64 div 64 div 64 = b - 0xF0" "r div 64 div 64 mod 64 = d2"
      unfolding q2 by (rule base64_split [OF c(6)])+
    have "b = 0xF0 \<Longrightarrow> 16 \<le> d2" "b = 0xF4 \<Longrightarrow> d2 < 16"
      using t(4) c by (auto simp: in_range_def)
    with req have "0x10000 \<le> r \<and> r \<le> 0x10FFFF"
      using 4 c by (cases "b = 0xF0"; cases "b = 0xF4"; simp) linarith+
    moreover have "chr b = c0" by (simp add: b_def)
    ultimately show ?thesis using 4 Cons t c q q2 q3
      by (simp add: is_scalar_def utf8_encode_def c(1,3,5) [symmetric])
  qed
qed


subsection \<open>Whole strings\<close>

lemma utf8_ValidString_Nil [simp]: "utf8_ValidString []"
  by (simp add: utf8_ValidString.simps)

lemma go_runes_Nil [simp]: "go_runes [] = []"
  by (simp add: go_runes.simps)

lemma encode_append_Cons:
  obtains c cs where "utf8_encode r @ s = c # cs"
  by (cases "utf8_encode r @ s") auto

lemma utf8_ValidString_encode [simp]:
  assumes "is_scalar r"
  shows "utf8_ValidString (utf8_encode r @ s) = utf8_ValidString s"
proof -
  obtain c cs where e: "utf8_encode r @ s = c # cs" by (rule encode_append_Cons)
  have "decode1 (c # cs) = Some (r, s)" using decode1_encode [OF assms, of s] e by simp
  then show ?thesis unfolding e by (subst utf8_ValidString.simps) simp
qed

lemma go_runes_encode [simp]:
  assumes "is_scalar r"
  shows "go_runes (utf8_encode r @ s) = r # go_runes s"
proof -
  obtain c cs where e: "utf8_encode r @ s = c # cs" by (rule encode_append_Cons)
  have "decode1 (c # cs) = Some (r, s)" using decode1_encode [OF assms, of s] e by simp
  then show ?thesis unfolding e by (subst go_runes.simps) simp
qed

lemma ValidString_string_of_runes: "list_all is_scalar rs \<Longrightarrow> utf8_ValidString (string_of_runes rs)"
  by (induction rs) auto

lemma go_runes_string_of_runes: "list_all is_scalar rs \<Longrightarrow> go_runes (string_of_runes rs) = rs"
  by (induction rs) auto

lemma ValidString_cases:
  assumes "utf8_ValidString s"
  obtains "s = []" | r t where "is_scalar r" "s = utf8_encode r @ t" "utf8_ValidString t"
proof (cases s)
  case (Cons c cs)
  then obtain r t where "decode1 s = Some (r, t)" "utf8_ValidString t"
    using assms by (subst (asm) utf8_ValidString.simps) (auto split: option.splits)
  with that(2) decode1_Some show ?thesis by blast
qed (rule that(1))

lemma ValidString_scalars: "utf8_ValidString s \<Longrightarrow> list_all is_scalar (go_runes s)"
proof (induction s rule: utf8_ValidString.induct)
  case (1 s)
  from "1.prems" show ?case
  proof (cases rule: ValidString_cases)
    case (2 r t)
    then have d: "decode1 s = Some (r, t)" by (simp add: decode1_encode)
    obtain c cs where sc: "s = c # cs" using encode_append_Cons [of r t] 2(2) by metis
    from "1.IH" [OF sc d refl] 2 show ?thesis by simp
  qed simp
qed

lemma string_of_go_runes: "utf8_ValidString s \<Longrightarrow> string_of_runes (go_runes s) = s"
proof (induction s rule: utf8_ValidString.induct)
  case (1 s)
  from "1.prems" show ?case
  proof (cases rule: ValidString_cases)
    case (2 r t)
    then have d: "decode1 s = Some (r, t)" by (simp add: decode1_encode)
    obtain c cs where sc: "s = c # cs" using encode_append_Cons [of r t] 2(2) by metis
    from "1.IH" [OF sc d refl] 2 show ?thesis by simp
  qed simp
qed

subsection \<open>Byte order is code-point order\<close>

lemma list_less_append_same: "(p @ x :: 'a::linorder list) < p @ y \<longleftrightarrow> x < y"
  by (induction p) auto

lemma utf8_encode_less:
  assumes "is_scalar a" and "is_scalar b" and "a < b"
  shows "utf8_encode a @ x < utf8_encode b @ y"
proof -
  define p1 p2 p3 where p: "p1 = a div 64" "p2 = p1 div 64" "p3 = p2 div 64"
  define d0 d1 d2 where d: "d0 = a mod 64" "d1 = p1 mod 64" "d2 = p2 mod 64"
  define q1 q2 q3 where q: "q1 = b div 64" "q2 = q1 div 64" "q3 = q2 div 64"
  define e0 e1 e2 where e: "e0 = b mod 64" "e1 = q1 mod 64" "e2 = q2 mod 64"
  have eqs: "p1 * 64 + d0 = a" "p2 * 64 + d1 = p1" "p3 * 64 + d2 = p2"
      "q1 * 64 + e0 = b" "q2 * 64 + e1 = q1" "q3 * 64 + e2 = q2"
    by (simp_all add: p d q e)
  have bd: "d0 < 64" "d1 < 64" "d2 < 64" "e0 < 64" "e1 < 64" "e2 < 64" by (simp_all add: d e)
  have max: "a \<le> 0x10FFFF" "b \<le> 0x10FFFF" using assms by (auto simp: is_scalar_def)
  have enc: "utf8_encode a =
     (if a < 0x80 then [chr a] else if a < 0x800 then [chr (0xC0 + p1), chr (0x80 + d0)]
      else if a < 0x10000 then [chr (0xE0 + p2), chr (0x80 + d1), chr (0x80 + d0)]
      else [chr (0xF0 + p3), chr (0x80 + d2), chr (0x80 + d1), chr (0x80 + d0)])"
      "utf8_encode b =
     (if b < 0x80 then [chr b] else if b < 0x800 then [chr (0xC0 + q1), chr (0x80 + e0)]
      else if b < 0x10000 then [chr (0xE0 + q2), chr (0x80 + e1), chr (0x80 + e0)]
      else [chr (0xF0 + q3), chr (0x80 + e2), chr (0x80 + e1), chr (0x80 + e0)])"
    by (simp_all add: utf8_encode_def p d q e)
  have o2: "p2 < q2 \<or> p2 = q2 \<and> (d1 < e1 \<or> d1 = e1 \<and> d0 < e0)"
    using eqs bd assms(3) by linarith
  have o3: "p3 < q3 \<or> p3 = q3 \<and> (d2 < e2 \<or> d2 = e2 \<and> (d1 < e1 \<or> d1 = e1 \<and> d0 < e0))"
    using eqs bd assms(3) by linarith
  have o1: "p1 < q1 \<or> p1 = q1 \<and> d0 < e0" using eqs bd assms(3) by linarith
  show ?thesis
  proof (cases "b < 0x80")
    case True
    with assms(3) show ?thesis by (simp add: enc chr_less_iff)
  next
    case b80: False
    show ?thesis
    proof (cases "b < 0x800")
      case True
      have "p1 < 32" "q1 < 32" using True assms(3) eqs by linarith+
      with True b80 assms(3) o1 bd show ?thesis
        by (cases "a < 0x80") (auto simp: enc chr_less_iff chr_inj)
    next
      case b800: False
      show ?thesis
      proof (cases "b < 0x10000")
        case True
        have "p2 < 16" "q2 < 16" using True assms(3) eqs by linarith+
        moreover have "a < 0x800 \<Longrightarrow> p1 < 32" using eqs by linarith
        ultimately show ?thesis using True b80 b800 assms(3) o2 bd
          by (cases "a < 0x80"; cases "a < 0x800") (auto simp: enc chr_less_iff chr_inj)
      next
        case False
        have "p3 \<le> 4" "q3 \<le> 4" using max eqs by linarith+
        moreover have "a < 0x800 \<Longrightarrow> p1 < 32" "a < 0x10000 \<Longrightarrow> p2 < 16" using eqs by linarith+
        ultimately show ?thesis using False b80 b800 assms(3) o3 bd
          by (cases "a < 0x80"; cases "a < 0x800"; cases "a < 0x10000")
            (auto simp: enc chr_less_iff chr_inj)
      qed
    qed
  qed
qed

lemma string_of_runes_less:
  "list_all is_scalar rs \<Longrightarrow> list_all is_scalar rs' \<Longrightarrow> rs < rs' \<Longrightarrow>
   string_of_runes rs < string_of_runes rs'"
proof (induction rs arbitrary: rs')
  case Nil
  then obtain r rt where "rs' = r # rt" by (cases rs') auto
  then show ?case by (cases "utf8_encode r") auto
next
  case (Cons r rs)
  then obtain r' rt where rs': "rs' = r' # rt" by (cases rs') auto
  show ?case
  proof (cases "r = r'")
    case True
    with Cons rs' show ?thesis by (auto simp: list_less_append_same)
  next
    case False
    with Cons.prems rs' show ?thesis by (auto intro: utf8_encode_less)
  qed
qed

text \<open>For valid UTF-8, Go's string order (by bytes) is the order by code points.\<close>

lemma valid_utf8_order:
  assumes "utf8_ValidString s" and "utf8_ValidString t"
  shows "s < t \<longleftrightarrow> go_runes s < go_runes t"
proof -
  have *: "u < v" if "go_runes u < go_runes v" "utf8_ValidString u" "utf8_ValidString v" for u v
    using string_of_runes_less [OF _ _ that(1)] that ValidString_scalars string_of_go_runes by metis
  show ?thesis
    using * [of s t] * [of t s] assms string_of_go_runes
    by (metis less_asym linorder_neqE)
qed

end
