(* ===== verification/GoText.thy ===== *)
theory GoText
  imports Complex_Main NumType Utf8
begin

text \<open>
  The text forms of numbers the code relies on, as Go's math/big and strings packages have them.
  \<open>int_String\<close> is \<open>Int.String\<close>, \<open>RatString\<close> is \<open>Rat.RatString\<close>, \<open>Rat_SetString\<close> is
  \<open>Rat.SetString\<close> with its fraction form, base prefixes, digit separators, radix point and
  exponents, and its limits on exponents; \<open>TrimSpace\<close> is \<open>strings.TrimSpace\<close>.

  The main result is \<open>SetString_RatString\<close>: parsing a printed rational gives it back, which is
  what makes the wire format exact. The locale \<open>rat_text\<close> is that contract, the only fact the
  wire codec uses about the two functions.
\<close>

subsection \<open>Decimal digits\<close>

definition digit_char :: "nat \<Rightarrow> char" where
  "digit_char d = chr (48 + d)"

fun nat_String :: "nat \<Rightarrow> string" where
  "nat_String n = (if n < 10 then [digit_char n] else nat_String (n div 10) @ [digit_char (n mod 10)])"

declare nat_String.simps [simp del]

definition int_String :: "int \<Rightarrow> string" where
  "int_String i = (if i < 0 then CHR ''-'' # nat_String (nat (- i)) else nat_String (nat i))"

definition RatString :: "rat \<Rightarrow> string" where
  "RatString q =
     (case quotient_of q of
        (a, b) \<Rightarrow> if b = 1 then int_String a else int_String a @ CHR ''/'' # int_String b)"

subsection \<open>Scanning a number\<close>

text \<open>The value of a digit character in a base up to 36; 63 (\<open>MaxBase + 1\<close>) where there is none.\<close>

definition digit_val :: "char \<Rightarrow> nat" where
  "digit_val c =
     (let b = byte c in
      if 48 \<le> b \<and> b \<le> 57 then b - 48
      else if 97 \<le> b \<and> b \<le> 122 then b - 97 + 10
      else if 65 \<le> b \<and> b \<le> 90 then b - 65 + 10
      else 63)"

text \<open>The kind of the character before: a digit, a separator, or anything else.\<close>

datatype prev = PDigit | PSep | POther

text \<open>
  The state of \<open>nat.scan\<close>'s loop: whether a radix point may still come, the previous character's
  kind, whether a misplaced separator was seen, the digits counted, where the point was, and the
  value so far.
\<close>

record scan_st =
  s_frac :: bool
  s_prev :: prev
  s_inval :: bool
  s_count :: nat
  s_dp :: "nat option"
  s_acc :: nat

fun scan_loop :: "nat \<Rightarrow> scan_st \<Rightarrow> string \<Rightarrow> scan_st \<times> string" where
  "scan_loop b st [] = (st, [])"
| "scan_loop b st (ch # r) =
     (if ch = CHR ''.'' \<and> s_frac st then
        scan_loop b (st\<lparr>s_frac := False, s_inval := s_inval st \<or> s_prev st = PSep, s_prev := POther,
                       s_dp := Some (s_count st)\<rparr>) r
      else if ch = CHR ''_'' then
        scan_loop b (st\<lparr>s_inval := s_inval st \<or> s_prev st \<noteq> PDigit, s_prev := PSep\<rparr>) r
      else if digit_val ch \<ge> b then (st, ch # r)
      else scan_loop b (st\<lparr>s_prev := PDigit, s_count := s_count st + 1,
                          s_acc := s_acc st * b + digit_val ch\<rparr>) r)"

text \<open>
  \<open>nat.scan(r, 0, fracOk)\<close>: the value, the base, the count (negative: minus the number of digits
  after the point) and the rest of the input; None for an error.
\<close>

datatype nat_prefix = NoPrefix | LetterPrefix | OctalZero

definition scan_prefix :: "bool \<Rightarrow> string \<Rightarrow> nat \<times> nat_prefix \<times> prev \<times> nat \<times> string" where
  "scan_prefix fracOk s =
     (case s of
        c # r \<Rightarrow>
          if c \<noteq> CHR ''0'' then (10, NoPrefix, POther, 0, s)
          else (case r of
             [] \<Rightarrow> (10, NoPrefix, PDigit, 1, [])
           | c1 # r1 \<Rightarrow>
               if c1 = CHR ''b'' \<or> c1 = CHR ''B'' then (2, LetterPrefix, PDigit, 0, r1)
               else if c1 = CHR ''o'' \<or> c1 = CHR ''O'' then (8, LetterPrefix, PDigit, 0, r1)
               else if c1 = CHR ''x'' \<or> c1 = CHR ''X'' then (16, LetterPrefix, PDigit, 0, r1)
               else if \<not> fracOk then (8, OctalZero, PDigit, 0, r)
               else (10, NoPrefix, PDigit, 1, r))
      | [] \<Rightarrow> (10, NoPrefix, POther, 0, []))"

definition nat_scan :: "bool \<Rightarrow> string \<Rightarrow> (nat \<times> nat \<times> int \<times> string) option" where
  "nat_scan fracOk s =
     (case scan_prefix fracOk s of
        (b, prefix, pv, cnt, r) \<Rightarrow>
          (case scan_loop b \<lparr>s_frac = fracOk, s_prev = pv, s_inval = False, s_count = cnt,
                             s_dp = None, s_acc = 0\<rparr> r of
             (st, rest) \<Rightarrow>
               if s_inval st \<or> s_prev st = PSep then None
               else if s_count st = 0 then
                 (if prefix = OctalZero then Some (0, 10, 1, rest) else None)
               else Some (s_acc st, b,
                          (case s_dp st of None \<Rightarrow> int (s_count st)
                           | Some dp \<Rightarrow> int dp - int (s_count st)), rest)))"

text \<open>\<open>scanSign\<close>: an optional sign, an error on empty input.\<close>

definition scanSign :: "string \<Rightarrow> (bool \<times> string) option" where
  "scanSign s =
     (case s of
        [] \<Rightarrow> None
      | c # r \<Rightarrow> if c = CHR ''-'' then Some (True, r) else if c = CHR ''+'' then Some (False, r)
                 else Some (False, s))"

text \<open>\<open>Int.SetString(s, 0)\<close>.\<close>

definition Int_SetString :: "string \<Rightarrow> int option" where
  "Int_SetString s =
     (case scanSign s of
        None \<Rightarrow> None
      | Some (neg, r) \<Rightarrow>
          (case nat_scan False r of
             Some (n, b, c, []) \<Rightarrow> Some (if neg then - int n else int n)
           | _ \<Rightarrow> None))"

subsection \<open>Exponents\<close>

text \<open>The digits of an exponent: value, whether a digit was seen, the last kind, misplacement.\<close>

fun exp_digits :: "nat \<Rightarrow> bool \<Rightarrow> prev \<Rightarrow> bool \<Rightarrow> string \<Rightarrow> nat \<times> bool \<times> prev \<times> bool \<times> string" where
  "exp_digits acc has pv inval [] = (acc, has, pv, inval, [])"
| "exp_digits acc has pv inval (ch # r) =
     (if 48 \<le> byte ch \<and> byte ch \<le> 57 then
        exp_digits (acc * 10 + (byte ch - 48)) True PDigit inval r
      else if ch = CHR ''_'' then exp_digits acc has PSep (inval \<or> pv \<noteq> PDigit) r
      else (acc, has, pv, inval, ch # r))"

text \<open>
  \<open>scanExponent(r, true, true)\<close>: the exponent, its base and the rest. The value is parsed as an
  int64, so a larger one is an error.
\<close>

definition scanExponent :: "string \<Rightarrow> (int \<times> nat \<times> string) option" where
  "scanExponent s =
     (case s of
        [] \<Rightarrow> Some (0, 10, [])
      | c # r \<Rightarrow>
          if c = CHR ''e'' \<or> c = CHR ''E'' \<or> c = CHR ''p'' \<or> c = CHR ''P'' then
            (let base = (if c = CHR ''e'' \<or> c = CHR ''E'' then 10 else 2);
                 neg = (r \<noteq> [] \<and> hd r = CHR ''-'');
                 r' = (if r \<noteq> [] \<and> (hd r = CHR ''-'' \<or> hd r = CHR ''+'') then tl r else r)
             in case exp_digits 0 False POther False r' of
                  (n, has, pv, inval, rest) \<Rightarrow>
                    if \<not> has then None
                    else if n > (if neg then 2 ^ 63 else 2 ^ 63 - 1) then None
                    else if inval \<or> pv = PSep then None
                    else Some (if neg then - int n else int n, base, rest))
          else Some (0, 10, s))"

definition rat_pow :: "rat \<Rightarrow> int \<Rightarrow> rat" where
  "rat_pow x n = (if 0 \<le> n then x ^ nat n else 1 / x ^ nat (- n))"

text \<open>\<open>strings.Index(s, "/")\<close> with the two sides.\<close>

definition split_slash :: "string \<Rightarrow> (string \<times> string) option" where
  "split_slash s =
     (if CHR ''/'' \<in> set s
      then Some (takeWhile (\<lambda>c. c \<noteq> CHR ''/'') s, tl (dropWhile (\<lambda>c. c \<noteq> CHR ''/'') s))
      else None)"

definition Rat_SetString :: "string \<Rightarrow> rat option" where
  "Rat_SetString s =
     (if s = [] then None
      else case split_slash s of
        Some (l, r) \<Rightarrow>
          (case Int_SetString l of
             None \<Rightarrow> None
           | Some a \<Rightarrow>
               (case nat_scan False r of
                  Some (b, _, _, []) \<Rightarrow>
                    if b = 0 then None else Some (rat_of_int a / rat_of_nat b)
                | _ \<Rightarrow> None))
      | None \<Rightarrow>
          (case scanSign s of
             None \<Rightarrow> None
           | Some (neg, r) \<Rightarrow>
               (case nat_scan True r of
                  None \<Rightarrow> None
                | Some (n, base, fcount, r1) \<Rightarrow>
                    (case scanExponent r1 of
                       Some (e, ebase, []) \<Rightarrow>
                         if n = 0 then Some 0
                         else
                           (let d = (if fcount < 0 then fcount else 0);
                                exp5 = (if base = 10 then d else 0) + (if ebase = 10 then e else 0);
                                exp2 = (if base = 8 then d * 3 else if base = 16 then d * 4 else d) + e
                            in if \<bar>exp5\<bar> > 10 ^ 6 then None
                               else if exp2 < - (10 ^ 7) \<or> exp2 > 10 ^ 7 then None
                               else
                                 (let m = rat_of_nat n * rat_pow 5 exp5 * rat_pow 2 exp2
                                  in Some (if neg then - m else m)))
                     | _ \<Rightarrow> None))))"

subsection \<open>strings.TrimSpace\<close>

text \<open>The UTF-8 encodings of the runes of \<open>unicode.IsSpace\<close>.\<close>

definition space_encodings :: "string list" where
  "space_encodings =
     map utf8_encode
       [9, 10, 11, 12, 13, 32, 0x85, 0xA0, 0x1680, 0x2000, 0x2001, 0x2002, 0x2003, 0x2004, 0x2005,
        0x2006, 0x2007, 0x2008, 0x2009, 0x200A, 0x2028, 0x2029, 0x202F, 0x205F, 0x3000]"

definition strip_prefix :: "string list \<Rightarrow> string \<Rightarrow> string option" where
  "strip_prefix encs s =
     (case filter (\<lambda>e. take (length e) s = e) encs of
        [] \<Rightarrow> None
      | e # _ \<Rightarrow> Some (drop (length e) s))"

fun trim_left_fuel :: "string list \<Rightarrow> nat \<Rightarrow> string \<Rightarrow> string" where
  "trim_left_fuel encs 0 s = s"
| "trim_left_fuel encs (Suc n) s =
     (case strip_prefix encs s of None \<Rightarrow> s | Some t \<Rightarrow> trim_left_fuel encs n t)"

definition TrimSpace :: "string \<Rightarrow> string" where
  "TrimSpace s =
     (let l = trim_left_fuel space_encodings (length s) s
      in rev (trim_left_fuel (map rev space_encodings) (length l) (rev l)))"


subsection \<open>Printed digits\<close>

definition is_digit_char :: "char \<Rightarrow> bool" where
  "is_digit_char c \<longleftrightarrow> 48 \<le> byte c \<and> byte c \<le> 57"

lemma digit_char [simp]:
  assumes "d < 10"
  shows "is_digit_char (digit_char d)" "digit_val (digit_char d) = d"
    "digit_char d = CHR ''0'' \<longleftrightarrow> d = 0"
proof -
  have b: "byte (digit_char d) = 48 + d" using assms by (simp add: digit_char_def)
  show "is_digit_char (digit_char d)" "digit_val (digit_char d) = d"
    using assms by (simp_all add: is_digit_char_def digit_val_def b)
  have "digit_char d = CHR ''0'' \<longleftrightarrow> byte (digit_char d) = byte (CHR ''0'')"
    by (simp only: of_char_eq_iff)
  also have "\<dots> \<longleftrightarrow> d = 0" unfolding b by simp
  finally show "digit_char d = CHR ''0'' \<longleftrightarrow> d = 0" .
qed

lemma is_digit_char_simps:
  assumes "is_digit_char c"
  shows "c \<noteq> CHR ''.''" "c \<noteq> CHR ''_''" "c \<noteq> CHR ''/''" "c \<noteq> CHR ''-''" "c \<noteq> CHR ''+''"
    "digit_val c < 10"
proof -
  have "byte c \<noteq> byte (CHR ''.'')" "byte c \<noteq> byte (CHR ''_'')" "byte c \<noteq> byte (CHR ''/'')"
    "byte c \<noteq> byte (CHR ''-'')" "byte c \<noteq> byte (CHR ''+'')"
    using assms by (simp_all add: is_digit_char_def)
  then show "c \<noteq> CHR ''.''" "c \<noteq> CHR ''_''" "c \<noteq> CHR ''/''" "c \<noteq> CHR ''-''" "c \<noteq> CHR ''+''" by auto
  show "digit_val c < 10" using assms by (auto simp: is_digit_char_def digit_val_def)
qed

lemma nat_String_not_Nil [simp]: "nat_String n \<noteq> []"
  by (subst nat_String.simps) simp

lemma nat_String_digits: "list_all is_digit_char (nat_String n)"
proof (induction n rule: nat_String.induct)
  case (1 n)
  then show ?case by (subst nat_String.simps) (auto simp: digit_char)
qed

lemma nat_String_value: "foldl (\<lambda>a c. a * 10 + digit_val c) 0 (nat_String n) = n"
proof (induction n rule: nat_String.induct)
  case (1 n)
  then show ?case by (subst nat_String.simps) (auto simp: digit_char)
qed

lemma nat_String_hd: "0 < n \<Longrightarrow> hd (nat_String n) \<noteq> CHR ''0''"
proof (induction n rule: nat_String.induct)
  case (1 n)
  show ?case
  proof (cases "n < 10")
    case True
    with "1.prems" show ?thesis by (subst nat_String.simps) (simp add: digit_char)
  next
    case False
    then have "hd (nat_String (n div 10)) \<noteq> CHR ''0''" using "1.IH" by auto
    with False show ?thesis by (subst nat_String.simps) (simp add: hd_append)
  qed
qed

lemma nat_String_0: "nat_String 0 = ''0''"
  by (subst nat_String.simps) (simp add: digit_char_def chr_def, code_simp)

lemma scan_loop_digits:
  assumes "list_all is_digit_char ds"
  shows "scan_loop 10 st ds =
    ((if ds = [] then st
      else st\<lparr>s_prev := PDigit, s_count := s_count st + length ds,
             s_acc := foldl (\<lambda>a c. a * 10 + digit_val c) (s_acc st) ds\<rparr>), [])"
  using assms
proof (induction ds arbitrary: st)
  case (Cons d ds)
  then show ?case by (simp add: is_digit_char_simps not_le)
qed simp

lemma nat_scan_String: "nat_scan f (nat_String n) = Some (n, 10, int (length (nat_String n)), [])"
proof (cases "n = 0")
  case True
  then show ?thesis by (simp add: nat_String_0 nat_scan_def scan_prefix_def)
next
  case False
  obtain d ds where ds: "nat_String n = d # ds" by (cases "nat_String n") auto
  with nat_String_hd [of n] False have "d \<noteq> CHR ''0''" by simp
  then have pre: "scan_prefix f (nat_String n) = (10, NoPrefix, POther, 0, nat_String n)"
    by (simp add: scan_prefix_def ds)
  show ?thesis
    by (simp add: nat_scan_def pre scan_loop_digits nat_String_digits nat_String_value)
qed

lemma nat_String_no_sign:
  "scanSign (nat_String n) = Some (False, nat_String n)"
proof -
  obtain d ds where ds: "nat_String n = d # ds" by (cases "nat_String n") auto
  then have "is_digit_char d" using nat_String_digits [of n] by simp
  then show ?thesis by (simp add: scanSign_def ds is_digit_char_simps)
qed

lemma Int_SetString_String: "Int_SetString (int_String i) = Some i"
proof (cases "i < 0")
  case True
  then show ?thesis by (simp add: Int_SetString_def int_String_def nat_scan_String scanSign_def)
next
  case False
  then show ?thesis by (simp add: Int_SetString_def int_String_def nat_scan_String nat_String_no_sign)
qed

lemma no_slash: "CHR ''/'' \<notin> set (int_String i)"
proof -
  have "CHR ''/'' \<notin> set (nat_String n)" for n
    using nat_String_digits [of n] is_digit_char_simps(3) by (auto simp: list_all_iff)
  then show ?thesis by (auto simp: int_String_def)
qed

lemma int_String_not_Nil [simp]: "int_String i \<noteq> []"
  by (simp add: int_String_def)

lemma RatString_not_Nil [simp]: "RatString q \<noteq> []"
  by (simp add: RatString_def split: prod.split)

lemma SetString_int: "Rat_SetString (int_String i) = Some (of_int i)"
proof -
  have sl: "split_slash (int_String i) = None" by (simp add: split_slash_def no_slash)
  have "scanSign (int_String i) = Some (i < 0, nat_String (nat \<bar>i\<bar>))"
    by (auto simp: int_String_def scanSign_def nat_String_no_sign [unfolded scanSign_def])
  moreover have "rat_of_nat (nat \<bar>i\<bar>) = of_int \<bar>i\<bar>" by simp
  ultimately show ?thesis
    by (auto simp: Rat_SetString_def sl nat_scan_String scanExponent_def rat_pow_def Let_def)
qed

lemma SetString_RatString: "Rat_SetString (RatString q) = Some q"
proof -
  obtain a b where q: "quotient_of q = (a, b)" by (cases "quotient_of q")
  then have b: "0 < b" and div: "q = of_int a / of_int b"
    by (auto dest: quotient_of_denom_pos quotient_of_div)
  show ?thesis
  proof (cases "b = 1")
    case True
    with q div show ?thesis by (simp add: RatString_def SetString_int)
  next
    case False
    have tw: "takeWhile (\<lambda>c. c \<noteq> CHR ''/'') (int_String a @ CHR ''/'' # t) = int_String a"
      "dropWhile (\<lambda>c. c \<noteq> CHR ''/'') (int_String a @ CHR ''/'' # t) = CHR ''/'' # t" for t
      by (subst takeWhile_append2 dropWhile_append2; use no_slash [of a] in auto)+
    have str: "RatString q = int_String a @ CHR ''/'' # nat_String (nat b)"
      using q False b by (simp add: RatString_def int_String_def)
    have sp: "split_slash (RatString q) = Some (int_String a, nat_String (nat b))"
      by (simp add: str split_slash_def tw)
    have "rat_of_int a / rat_of_nat (nat b) = q" "0 < nat b" using b div by simp_all
    then show ?thesis
      by (simp add: Rat_SetString_def sp Int_SetString_String nat_scan_String)
  qed
qed

subsection \<open>The contract of the text form\<close>

locale rat_text =
  fixes print :: "rat \<Rightarrow> string" and parse :: "string \<Rightarrow> rat option"
  assumes parse_print: "parse (print q) = Some q"
    and print_not_empty: "print q \<noteq> []"
begin

lemma print_inj: "print q = print r \<Longrightarrow> q = r"
  by (metis parse_print option.inject)

end

interpretation big_rat: rat_text RatString Rat_SetString
  by unfold_locales (simp_all add: SetString_RatString)

end
