(* ===== verification/RtVal.thy ===== *)
theory RtVal
  imports Syntax GoText
begin

text \<open>
  crdt/vector.go, the runtime values: \<open>rtVal\<close> (a closed sum over \<open>rtKind\<close>), their deep copy,
  zero slots, primitives and comparison. A Go function value is a closure; here it is the
  datatype \<open>closure\<close> with one constructor per place that builds one (a primitive reference, a
  reference to a user function captured at an evaluation depth, a partial application), and
  \<open>Eval.callClo\<close> is what calling it does.
\<close>

datatype rtVal =
    VNum rat
  | VStr string
  | VBool bool
  | VStruct "(string \<times> rtVal) list"
  | VVec "(string \<times> rtVal) list"
  | VFunc nat closure
and closure =
    CPrim string
  | CUser string nat
  | CPartial closure "rtVal list"

text \<open>The errors of the runtime, one constructor per message of crdt/vector.go. \<open>Panic\<close> is a Go
  panic (nil dereference or index out of range); \<open>OutOfFuel\<close> is the model's own and is shown
  never to occur.\<close>

datatype rtErr =
    DepthExceeded
  | UnboundVariable string
  | UnknownFunction string
  | UnknownPrimitive string
  | NoHead
  | FuncAsArg
  | CondNotBool
  | NonExhaustiveGuards
  | FieldNoValue string
  | FieldNotValue string
  | NoTarget
  | FieldOfNonStruct string
  | NoSuchField string
  | MalformedReduce
  | NotAVector
  | WantFunction nat nat
  | NotAFunction
  | TooManyArgs nat nat
  | NotNumeric
  | CompareMismatch
  | CannotEvaluate
  | Panic
  | OutOfFuel

subsection \<open>Copies and defaults\<close>

fun is_func :: "rtVal \<Rightarrow> bool" where
  "is_func (VFunc a c) = True"
| "is_func v = False"

text \<open>
  \<open>cloneSlot\<close>: a deep copy. A slot value is a struct, a string or a number; for any other kind the
  code copies a nil \<open>*big.Rat\<close> and panics.
\<close>

fun cloneSlot :: "rtVal \<Rightarrow> rtErr + rtVal"
and cloneFields :: "(string \<times> rtVal) list \<Rightarrow> rtErr + (string \<times> rtVal) list" where
  "cloneSlot (VStruct m) = rbind (cloneFields m) (\<lambda>m'. Inr (VStruct m'))"
| "cloneSlot (VStr s) = Inr (VStr s)"
| "cloneSlot (VNum q) = Inr (VNum q)"
| "cloneSlot (VBool b) = Inl Panic"
| "cloneSlot (VVec m) = Inl Panic"
| "cloneSlot (VFunc a c) = Inl Panic"
| "cloneFields [] = Inr []"
| "cloneFields ((k, v) # m) =
     rbind (cloneSlot v) (\<lambda>v'. rbind (cloneFields m) (\<lambda>m'. Inr ((k, v') # m')))"

text \<open>The zero of an element type: 0, the empty string, or a struct of zeros.\<close>

fun zeroSlot :: "elemT \<Rightarrow> rtVal"
and zeroFields :: "(string \<times> elemT) list \<Rightarrow> rtVal gomap \<Rightarrow> rtVal gomap" where
  "zeroSlot (TStruct nm fs) = VStruct (zeroFields fs [])"
| "zeroSlot TStr = VStr []"
| "zeroSlot (TNum nt) = VNum 0"
| "zeroFields [] m = m"
| "zeroFields ((k, t) # fs) m = zeroFields fs (mput k (zeroSlot t) m)"

text \<open>Storable values: structs (well-formed maps), strings and numbers all the way down.\<close>

fun storable :: "rtVal \<Rightarrow> bool"
and storable_fields :: "(string \<times> rtVal) list \<Rightarrow> bool" where
  "storable (VStruct m) = (wfm m \<and> storable_fields m)"
| "storable (VStr s) = True"
| "storable (VNum q) = True"
| "storable (VBool b) = False"
| "storable (VVec m) = False"
| "storable (VFunc a c) = False"
| "storable_fields [] = True"
| "storable_fields ((k, v) # m) = (storable v \<and> storable_fields m)"

lemma storable_fields_iff: "storable_fields m \<longleftrightarrow> (\<forall>(k, v) \<in> set m. storable v)"
  by (induction m) auto

lemma clone_storable:
  "storable v \<Longrightarrow> cloneSlot v = Inr v"
  "storable_fields m \<Longrightarrow> cloneFields m = Inr m"
  by (induction v and m rule: cloneSlot_cloneFields.induct) auto

lemma clone_Inr:
  "cloneSlot v = Inr w \<Longrightarrow> w = v"
  "cloneFields m = Inr m' \<Longrightarrow> m' = m"
  by (induction v and m arbitrary: w and m' rule: cloneSlot_cloneFields.induct) auto

lemma storable_not_func: "storable v \<Longrightarrow> \<not> is_func v"
  by (cases v) auto

subsection \<open>Membership in an element type\<close>

text \<open>
  \<open>conforms t v\<close>: the value has the element type's shape, its numbers are allowed by their
  numeric types and its strings are valid UTF-8.
\<close>

fun conforms :: "elemT \<Rightarrow> rtVal \<Rightarrow> bool"
and conforms_fields :: "(string \<times> elemT) list \<Rightarrow> rtVal gomap \<Rightarrow> bool" where
  "conforms (TStruct nm fs) (VStruct m) =
     (wfm m \<and> set (mkeys m) = set (map fst fs) \<and> conforms_fields fs m)"
| "conforms TStr (VStr s) = utf8_ValidString s"
| "conforms (TNum nt) (VNum q) = nt_Allows nt q"
| "conforms t v = False"
| "conforms_fields [] m = True"
| "conforms_fields ((k, t) # fs) m =
     ((case map_of m k of None \<Rightarrow> False | Some v \<Rightarrow> conforms t v) \<and> conforms_fields fs m)"

lemma conforms_fields_iff:
  "conforms_fields fs m \<longleftrightarrow> (\<forall>(k, t) \<in> set fs. \<exists>v. map_of m k = Some v \<and> conforms t v)"
  by (induction fs) (auto split: option.splits)

lemma conforms_TStructE:
  assumes "conforms (TStruct nm fs) v"
  obtains m where "v = VStruct m" "wfm m" "set (mkeys m) = set (map fst fs)" "conforms_fields fs m"
  using assms by (cases v) auto

lemma conforms_TStrE:
  assumes "conforms TStr v"
  obtains s where "v = VStr s" "utf8_ValidString s"
  using assms by (cases v) auto

lemma conforms_TNumE:
  assumes "conforms (TNum nt) v"
  obtains q where "v = VNum q" "nt_Allows nt q"
  using assms by (cases v) auto

lemma conforms_storable:
  "conforms t v \<Longrightarrow> storable v"
proof (induction v arbitrary: t rule: storable_storable_fields.induct(1)
    [where Q = "\<lambda>m. \<forall>(k, v) \<in> set m. (\<exists>t. conforms t v) \<longrightarrow> storable v"])
  case (1 m)
  then obtain nm fs where t: "t = TStruct nm fs" by (cases t) auto
  have "storable v" if "(k, v) \<in> set m" for k v
  proof -
    have "map_of m k = Some v" using that "1.prems" t by (simp add: wfm_distinct)
    moreover have "k \<in> fst ` set m" using that by force
    then have "k \<in> set (map fst fs)" using "1.prems" t by (simp add: mkeys_def)
    ultimately have "\<exists>t. conforms t v"
      using "1.prems" t by (force simp: conforms_fields_iff)
    with "1"(1) that show ?thesis by blast
  qed
  with "1.prems" t show ?case by (auto simp: storable_fields_iff)
next
  case (4 b)
  then show ?case by (cases t) simp_all
next
  case (5 m)
  then show ?case by (cases t) simp_all
next
  case (6 a c)
  then show ?case by (cases t) simp_all
qed (auto simp del: conforms.simps)

lemma zeroFields_lookup:
  "distinct (map fst fs) \<Longrightarrow>
   map_of (zeroFields fs m) k =
     (case map_of fs k of None \<Rightarrow> map_of m k | Some t \<Rightarrow> Some (zeroSlot t))"
proof (induction fs arbitrary: m)
  case Nil
  then show ?case by simp
next
  case (Cons f fs)
  obtain k' t where f: "f = (k', t)" by (cases f)
  have "map_of fs k' = None" using Cons.prems f by (simp add: map_of_eq_None_iff)
  with Cons f show ?case by (auto split: option.splits)
qed

lemma wfm_zeroFields: "wfm m \<Longrightarrow> wfm (zeroFields fs m)"
proof (induction fs arbitrary: m)
  case Nil
  then show ?case by simp
next
  case (Cons f fs)
  obtain k t where "f = (k, t)" by (cases f)
  with Cons show ?case by simp
qed

text \<open>The default of an absent slot is a member of the element type.\<close>

lemma zeroSlot_conforms:
  "wf_elem t \<Longrightarrow> conforms t (zeroSlot t)"
proof (induction t rule: wf_elem_wf_fields.induct(1)
    [where Q = "\<lambda>fs. wf_fields fs \<longrightarrow> (\<forall>(k, t) \<in> set fs. conforms t (zeroSlot t))"])
  case (1 nm fs)
  then have d: "distinct (map fst fs)" and
    c: "\<forall>(k, t) \<in> set fs. conforms t (zeroSlot t)" by auto
  have "set (mkeys (zeroFields fs [])) = set (map fst fs)"
    unfolding set_mkeys using d
    by (auto simp: dom_def zeroFields_lookup map_of_eq_None_iff split: option.splits)
  moreover have "conforms_fields fs (zeroFields fs [])"
    using c d by (auto simp: conforms_fields_iff zeroFields_lookup map_of_is_SomeI)
  ultimately show ?case using d by (simp add: wfm_zeroFields)
qed auto

subsection \<open>Primitives\<close>

definition asNum :: "rtVal \<Rightarrow> rtErr + rat" where
  "asNum r = (case r of VNum q \<Rightarrow> Inr q | _ \<Rightarrow> Inl NotNumeric)"

definition rat_Cmp :: "rat \<Rightarrow> rat \<Rightarrow> int" where
  "rat_Cmp a b = (if a < b then - 1 else if a = b then 0 else 1)"

definition strings_Compare :: "string \<Rightarrow> string \<Rightarrow> int" where
  "strings_Compare a b = (if a = b then 0 else if a < b then - 1 else 1)"

definition arith :: "(rat \<Rightarrow> rat \<Rightarrow> rat) \<Rightarrow> rtVal \<Rightarrow> rtVal \<Rightarrow> rtErr + rtVal" where
  "arith f a b = rbind (asNum a) (\<lambda>x. rbind (asNum b) (\<lambda>y. Inr (VNum (f x y))))"

definition compareVals :: "rtVal \<Rightarrow> rtVal \<Rightarrow> rtErr + int" where
  "compareVals a b =
     (case (a, b) of
        (VNum x, VNum y) \<Rightarrow> Inr (rat_Cmp x y)
      | (VStr x, VStr y) \<Rightarrow> Inr (strings_Compare x y)
      | _ \<Rightarrow> Inl CompareMismatch)"

definition cmpOp :: "(int \<Rightarrow> bool) \<Rightarrow> rtVal \<Rightarrow> rtVal \<Rightarrow> rtErr + rtVal" where
  "cmpOp pred a b = rbind (compareVals a b) (\<lambda>c. Inr (VBool (pred c)))"

definition primOp :: "string \<Rightarrow> rtErr + (rtVal \<Rightarrow> rtVal \<Rightarrow> rtErr + rtVal)" where
  "primOp op =
     (if op = ''+'' then Inr (arith (\<lambda>a b. a + b))
      else if op = ''*'' then Inr (arith (\<lambda>a b. a * b))
      else if op = ''-'' then Inr (arith (\<lambda>a b. a - b))
      else if op = ''max'' then Inr (arith (\<lambda>a b. if rat_Cmp a b \<ge> 0 then a else b))
      else if op = ''min'' then Inr (arith (\<lambda>a b. if rat_Cmp a b \<le> 0 then a else b))
      else if op = ''>'' then Inr (cmpOp (\<lambda>c. c > 0))
      else if op = ''<'' then Inr (cmpOp (\<lambda>c. c < 0))
      else if op = ''>='' then Inr (cmpOp (\<lambda>c. c \<ge> 0))
      else if op = ''<='' then Inr (cmpOp (\<lambda>c. c \<le> 0))
      else if op = ''=='' then Inr (cmpOp (\<lambda>c. c = 0))
      else if op = ''/='' then Inr (cmpOp (\<lambda>c. c \<noteq> 0))
      else Inl (UnknownPrimitive op))"

lemma rat_Cmp_simps [simp]:
  "0 \<le> rat_Cmp a b \<longleftrightarrow> b \<le> a" "rat_Cmp a b \<le> 0 \<longleftrightarrow> a \<le> b" "rat_Cmp a b = 0 \<longleftrightarrow> a = b"
  "0 < rat_Cmp a b \<longleftrightarrow> b < a" "rat_Cmp a b < 0 \<longleftrightarrow> a < b"
  by (auto simp: rat_Cmp_def)

lemma strings_Compare_simps [simp]:
  "0 \<le> strings_Compare a b \<longleftrightarrow> b \<le> a" "strings_Compare a b \<le> 0 \<longleftrightarrow> a \<le> b"
  "strings_Compare a b = 0 \<longleftrightarrow> a = b" "0 < strings_Compare a b \<longleftrightarrow> b < a"
  "strings_Compare a b < 0 \<longleftrightarrow> a < b"
  by (auto simp: strings_Compare_def)

lemma arith_VNum [simp]: "arith f (VNum x) (VNum y) = Inr (VNum (f x y))"
  by (simp add: arith_def asNum_def)

lemma arith_Inr: "arith f a b = Inr v \<longleftrightarrow> (\<exists>x y. a = VNum x \<and> b = VNum y \<and> v = VNum (f x y))"
  by (cases a; cases b) (auto simp: arith_def asNum_def)

lemma cmpOp_simps [simp]:
  "cmpOp p (VNum x) (VNum y) = Inr (VBool (p (rat_Cmp x y)))"
  "cmpOp p (VStr s) (VStr t) = Inr (VBool (p (strings_Compare s t)))"
  by (simp_all add: cmpOp_def compareVals_def)

lemma cmpOp_Inr: "cmpOp p a b = Inr v \<Longrightarrow> \<exists>t. v = VBool t"
  by (auto simp: cmpOp_def)

text \<open>A primitive returns a number or a bool, or an error.\<close>

lemma primOp_result:
  "primOp op = Inr g \<Longrightarrow> g a b = Inr v \<Longrightarrow> (\<exists>q. v = VNum q) \<or> (\<exists>t. v = VBool t)"
  by (auto simp: primOp_def arith_Inr dest!: cmpOp_Inr split: if_splits)

lemma arith_no_fuel [simp]: "arith f a b \<noteq> Inl OutOfFuel"
  by (cases a; cases b) (simp_all add: arith_def asNum_def)

lemma compareVals_no_fuel [simp]: "compareVals a b \<noteq> Inl OutOfFuel"
  by (cases a; cases b) (simp_all add: compareVals_def)

lemma cmpOp_no_fuel [simp]: "cmpOp p a b \<noteq> Inl OutOfFuel"
  by (simp add: cmpOp_def rbind_eq_Inl)

lemma primOp_no_fuel: "primOp op = Inr g \<Longrightarrow> g a b \<noteq> Inl OutOfFuel"
  by (auto simp: primOp_def split: if_splits)

text \<open>
  C18: Comparing strings at run time is comparing code points. For valid UTF-8 operands, which the
  ingress checks guarantee, the bytewise comparison of the runtime orders strings as their code
  point sequences, the order in which the prover's \<open>str.<\<close> decides the same comparison.
\<close>

theorem compareVals_code_points:
  assumes "utf8_ValidString s" and "utf8_ValidString t"
  shows "compareVals (VStr s) (VStr t) =
    Inr (if go_runes s < go_runes t then - 1 else if go_runes s = go_runes t then 0 else 1)"
  using valid_utf8_order [OF assms] valid_utf8_order [OF assms(2,1)] assms string_of_go_runes
  by (auto simp: compareVals_def strings_Compare_def)

lemma compareVals_code_points_witness:
  "compareVals (VStr ''ab'') (VStr ''b'') =
    Inr (if go_runes ''ab'' < go_runes ''b'' then - 1 else if go_runes ''ab'' = go_runes ''b'' then 0 else 1)"
  by (rule compareVals_code_points) code_simp+

end
