(* ===== verification/Eval.thy ===== *)
theory Eval
  imports RtVal
begin

text \<open>
  crdt/vector.go, expression evaluation: \<open>eval\<close>, \<open>evalFuncVal\<close>, \<open>refVal\<close> and \<open>apply\<close>, with the
  calls of the closures they build.

  Parameters: \<open>F\<close> is the global function environment (\<open>v.funcs\<close>); \<open>ord\<close> is the order in which
  a \<open>range\<close> loop visits the entries of a map, which Go leaves open (theorems quantify over it);
  \<open>n\<close> is call fuel and \<open>d\<close> the code's own evaluation depth. Fuel is spent only when a call enters
  a user function's body, where the code increments the depth, and \<open>evalFuel = maxEvalDepth + 1\<close>
  is enough for a program in which every term has the arity its position needs (\<open>arity_ok\<close>
  below, which the builder establishes): \<open>eval_sorted\<close> shows that \<open>OutOfFuel\<close> is then never the
  result, so the depth guard alone stops a non-terminating definition.
\<close>

record func =
  f_Name :: string
  f_Params :: "paramSpec list"
  f_Body :: expr

definition maxEvalDepth :: nat where
  "maxEvalDepth = 10000"

definition evalFuel :: nat where
  "evalFuel = maxEvalDepth + 1"

definition at_depth :: "nat \<Rightarrow> rtErr + 'a \<Rightarrow> rtErr + 'a" where
  "at_depth d r = (if d > maxEvalDepth then Inl DepthExceeded else r)"

lemma at_depth_cong [fundef_cong]:
  "d = d' \<Longrightarrow> (d' \<le> maxEvalDepth \<Longrightarrow> r = r') \<Longrightarrow> at_depth d r = at_depth d' r'"
  by (simp add: at_depth_def)

lemma at_depth_Inr [simp]: "at_depth d r = Inr v \<longleftrightarrow> d \<le> maxEvalDepth \<and> r = Inr v"
  by (auto simp: at_depth_def)


text \<open>A dereference of a pointer the code does not test.\<close>

fun deref :: "'a option \<Rightarrow> ('a \<Rightarrow> rtErr + 'b) \<Rightarrow> rtErr + 'b" where
  "deref None f = Inl Panic"
| "deref (Some x) f = f x"

lemma deref_cong [fundef_cong]:
  "x = y \<Longrightarrow> (\<And>z. y = Some z \<Longrightarrow> f z = g z) \<Longrightarrow> deref x f = deref y g"
  by (cases y) auto

text \<open>The function value of a reference; its closure captures the depth of the reference.\<close>

definition refVal :: "func gomap \<Rightarrow> nat \<Rightarrow> string \<Rightarrow> refKind \<Rightarrow> rtErr + rtVal" where
  "refVal F d nm rk =
     (case rk of
        RefPrimitive \<Rightarrow> rbind (primOp nm) (\<lambda>op. Inr (VFunc 2 (CPrim nm)))
      | RefFunction \<Rightarrow>
          (case map_of F nm of
             None \<Rightarrow> Inl (UnknownFunction nm)
           | Some def \<Rightarrow> Inr (VFunc (length (f_Params def)) (CUser nm d))))"

text \<open>The test of \<open>evalFuncVal\<close> on the evaluated term.\<close>

definition wantFn :: "nat \<Rightarrow> rtVal \<Rightarrow> rtErr + rtVal" where
  "wantFn want v =
     (case v of
        VFunc a c \<Rightarrow> if a = want then Inr v else Inl (WantFunction want a)
      | _ \<Rightarrow> Inl (WantFunction want 0))"

text \<open>The environment of a call: the parameters are assigned in order.\<close>

definition callEnv :: "paramSpec list \<Rightarrow> rtVal list \<Rightarrow> rtVal gomap" where
  "callEnv ps args = mfrom (zip (map p_Name ps) args)"

function eval :: "func gomap \<Rightarrow> (rtVal gomap \<Rightarrow> rtVal gomap) \<Rightarrow> nat \<Rightarrow> nat \<Rightarrow> rtVal gomap \<Rightarrow> expr \<Rightarrow> rtErr + rtVal"
and evalArgs :: "func gomap \<Rightarrow> (rtVal gomap \<Rightarrow> rtVal gomap) \<Rightarrow> nat \<Rightarrow> nat \<Rightarrow> rtVal gomap \<Rightarrow> expr list \<Rightarrow> rtErr + rtVal list"
and evalCases :: "func gomap \<Rightarrow> (rtVal gomap \<Rightarrow> rtVal gomap) \<Rightarrow> nat \<Rightarrow> nat \<Rightarrow> rtVal gomap \<Rightarrow> guardCase list \<Rightarrow> rtErr + rtVal"
and evalFields :: "func gomap \<Rightarrow> (rtVal gomap \<Rightarrow> rtVal gomap) \<Rightarrow> nat \<Rightarrow> nat \<Rightarrow> rtVal gomap \<Rightarrow> structField list \<Rightarrow> rtVal gomap \<Rightarrow> rtErr + rtVal gomap"
and foldVec :: "func gomap \<Rightarrow> (rtVal gomap \<Rightarrow> rtVal gomap) \<Rightarrow> nat \<Rightarrow> rtVal \<Rightarrow> rtVal \<Rightarrow> rtVal gomap \<Rightarrow> rtErr + rtVal"
and applyFn :: "func gomap \<Rightarrow> (rtVal gomap \<Rightarrow> rtVal gomap) \<Rightarrow> nat \<Rightarrow> rtVal \<Rightarrow> rtVal list \<Rightarrow> rtErr + rtVal"
and callClo :: "func gomap \<Rightarrow> (rtVal gomap \<Rightarrow> rtVal gomap) \<Rightarrow> nat \<Rightarrow> closure \<Rightarrow> rtVal list \<Rightarrow> rtErr + rtVal"
where
  "eval F ord n d env (ENumLit q) = at_depth d (Inr (VNum q))"
| "eval F ord n d env (EStrLit s) = at_depth d (Inr (VStr s))"
| "eval F ord n d env (EVar x) = at_depth d
     (case map_of env x of None \<Rightarrow> Inl (UnboundVariable x) | Some v \<Rightarrow> Inr v)"
| "eval F ord n d env (ERef nm ar rk) = at_depth d (refVal F d nm rk)"
| "eval F ord n d env (EApp h as) = at_depth d
     (case h of
        None \<Rightarrow> Inl NoHead
      | Some h' \<Rightarrow>
          rbind (eval F ord n d env h') (\<lambda>f.
          rbind (evalArgs F ord n d env as) (\<lambda>vs.
          applyFn F ord n f vs)))"
| "eval F ord n d env (EGuards cs) = at_depth d (evalCases F ord n d env cs)"
| "eval F ord n d env (EStructLit sfs) = at_depth d
     (rbind (evalFields F ord n d env sfs []) (\<lambda>m. Inr (VStruct m)))"
| "eval F ord n d env (EField t fld) = at_depth d
     (case t of
        None \<Rightarrow> Inl NoTarget
      | Some t' \<Rightarrow>
          rbind (eval F ord n d env t') (\<lambda>tv.
          case tv of
            VStruct m \<Rightarrow>
              (case map_of m fld of None \<Rightarrow> Inl (NoSuchField fld) | Some v \<Rightarrow> Inr v)
          | _ \<Rightarrow> Inl (FieldOfNonStruct fld)))"
| "eval F ord n d env (EReduce f i v) = at_depth d
     (case f of None \<Rightarrow> Inl MalformedReduce | Some f' \<Rightarrow>
      case i of None \<Rightarrow> Inl MalformedReduce | Some i' \<Rightarrow>
      case v of None \<Rightarrow> Inl MalformedReduce | Some v' \<Rightarrow>
        rbind (eval F ord n d env f') (\<lambda>fv0.
        rbind (wantFn 2 fv0) (\<lambda>fv.
        rbind (eval F ord n d env i') (\<lambda>acc.
        rbind (eval F ord n d env v') (\<lambda>vecv.
        case vecv of
          VVec m \<Rightarrow> foldVec F ord n fv acc (ord m)
        | _ \<Rightarrow> Inl NotAVector)))))"
| "eval F ord n d env (EName x) = at_depth d (Inl CannotEvaluate)"
| "eval F ord n d env (EZip f) = at_depth d (Inl CannotEvaluate)"
| "eval F ord n d env (ELocal f) = at_depth d (Inl CannotEvaluate)"
| "eval F ord n d env (EWrite f) = at_depth d (Inl CannotEvaluate)"
| "evalArgs F ord n d env [] = Inr []"
| "evalArgs F ord n d env (e # es) =
     rbind (eval F ord n d env e) (\<lambda>v.
     if is_func v then Inl FuncAsArg
     else rbind (evalArgs F ord n d env es) (\<lambda>vs. Inr (v # vs)))"
| "evalCases F ord n d env [] = Inl NonExhaustiveGuards"
| "evalCases F ord n d env (GuardCase c r ow # cs) =
     (if ow then deref r (\<lambda>r'. eval F ord n d env r')
      else deref c (\<lambda>c'.
        rbind (eval F ord n d env c') (\<lambda>cv.
        case cv of
          VBool b \<Rightarrow>
            if b then deref r (\<lambda>r'. eval F ord n d env r') else evalCases F ord n d env cs
        | _ \<Rightarrow> Inl CondNotBool)))"
| "evalFields F ord n d env [] m = Inr m"
| "evalFields F ord n d env (StructField nm val # sfs) m =
     (case val of
        None \<Rightarrow> Inl (FieldNoValue nm)
      | Some e \<Rightarrow>
          rbind (eval F ord n d env e) (\<lambda>v.
          if is_func v then Inl (FieldNotValue nm)
          else evalFields F ord n d env sfs (mput nm v m)))"
| "foldVec F ord n f acc [] = Inr acc"
| "foldVec F ord n f acc ((k, sv) # m) =
     rbind (cloneSlot sv) (\<lambda>sv'.
     rbind (applyFn F ord n f [acc, sv']) (\<lambda>acc'. foldVec F ord n f acc' m))"
| "applyFn F ord n f args =
     (case f of
        VFunc a c \<Rightarrow>
          if length args = a then callClo F ord n c args
          else if length args < a then Inr (VFunc (a - length args) (CPartial c args))
          else Inl (TooManyArgs a (length args))
      | _ \<Rightarrow> Inl NotAFunction)"
| "callClo F ord n (CPrim nm) args =
     rbind (primOp nm) (\<lambda>op.
     case args of a # b # _ \<Rightarrow> op a b | _ \<Rightarrow> Inl Panic)"
| "callClo F ord n (CUser nm d) args =
     (case map_of F nm of
        None \<Rightarrow> Inl Panic
      | Some def \<Rightarrow>
          if length args < length (f_Params def) then Inl Panic
          else if n = 0 then Inl OutOfFuel
          else eval F ord (n - 1) (d + 1) (callEnv (f_Params def) args) (f_Body def))"
| "callClo F ord n (CPartial c bound) rest = callClo F ord n c (bound @ rest)"

  by pat_completeness auto

termination
proof (relation "measures
    [case_sum
       (case_sum (\<lambda>(F, ord, n, d, env, e). n)
         (case_sum (\<lambda>(F, ord, n, d, env, es). n) (\<lambda>(F, ord, n, d, env, cs). n)))
       (case_sum
         (case_sum (\<lambda>(F, ord, n, d, env, sfs, m). n) (\<lambda>(F, ord, n, f, acc, m). n))
         (case_sum (\<lambda>(F, ord, n, f, args). n) (\<lambda>(F, ord, n, c, args). n))),
     case_sum
       (case_sum (\<lambda>_. 3) (case_sum (\<lambda>_. 3) (\<lambda>_. 3)))
       (case_sum (case_sum (\<lambda>_. 3) (\<lambda>_. 2)) (case_sum (\<lambda>_. 1) (\<lambda>_. 0))),
     case_sum
       (case_sum (\<lambda>(F, ord, n, d, env, e). size e)
         (case_sum (\<lambda>(F, ord, n, d, env, es). size_list size es)
           (\<lambda>(F, ord, n, d, env, cs). size_list size cs)))
       (case_sum
         (case_sum (\<lambda>(F, ord, n, d, env, sfs, m). size_list size sfs)
           (\<lambda>(F, ord, n, f, acc, m). length m))
         (case_sum (\<lambda>(F, ord, n, f, args). 0) (\<lambda>(F, ord, n, c, args). size c)))]", goal_cases)
  case 1
  then show ?case by simp
qed simp_all

subsection \<open>Arities\<close>

text \<open>
  \<open>ar F e\<close> is the number of arguments a term still expects (0 for a value), or None when some
  position holds a term of the wrong arity or a node the evaluator has no case for.
  \<open>arity_ok F\<close> says that the body of every function of the environment is a value.
\<close>

definition is_prim :: "string \<Rightarrow> bool" where
  "is_prim nm = rok (primOp nm)"

fun ar :: "func gomap \<Rightarrow> expr \<Rightarrow> nat option" where
  "ar F (ENumLit q) = Some 0"
| "ar F (EStrLit s) = Some 0"
| "ar F (EVar x) = Some 0"
| "ar F (ERef nm a RefPrimitive) = (if is_prim nm then Some 2 else None)"
| "ar F (ERef nm a RefFunction) =
     (case map_of F nm of
        None \<Rightarrow> None
      | Some def \<Rightarrow> if f_Params def = [] then None else Some (length (f_Params def)))"
| "ar F (EApp h as) =
     (case h of None \<Rightarrow> None | Some h' \<Rightarrow>
      case ar F h' of None \<Rightarrow> None | Some k \<Rightarrow>
        if 0 < k \<and> length as \<le> k \<and> list_all (\<lambda>a. ar F a = Some 0) as
        then Some (k - length as) else None)"
| "ar F (EGuards cs) =
     (if list_all (\<lambda>c. case c of GuardCase cd r ow \<Rightarrow>
           (ow \<or> (case cd of None \<Rightarrow> False | Some c' \<Rightarrow> ar F c' = Some 0)) \<and>
           (case r of None \<Rightarrow> False | Some r' \<Rightarrow> ar F r' = Some 0)) cs
      then Some 0 else None)"
| "ar F (EStructLit sfs) =
     (if list_all (\<lambda>sf. case sf of StructField nm v \<Rightarrow>
           (case v of None \<Rightarrow> False | Some v' \<Rightarrow> ar F v' = Some 0)) sfs
      then Some 0 else None)"
| "ar F (EField t fld) =
     (case t of None \<Rightarrow> None | Some t' \<Rightarrow> if ar F t' = Some 0 then Some 0 else None)"
| "ar F (EReduce f i v) =
     (case f of None \<Rightarrow> None | Some f' \<Rightarrow>
      case i of None \<Rightarrow> None | Some i' \<Rightarrow>
      case v of None \<Rightarrow> None | Some v' \<Rightarrow>
        if ar F f' = Some 2 \<and> ar F i' = Some 0 \<and> ar F v' = Some 0 then Some 0 else None)"
| "ar F (EName x) = None"
| "ar F (EZip f) = None"
| "ar F (ELocal f) = None"
| "ar F (EWrite f) = None"

definition arity_ok :: "func gomap \<Rightarrow> bool" where
  "arity_ok F = list_all (\<lambda>(nm, def). ar F (f_Body def) = Some 0) F"

text \<open>First-order values: no function inside, and vectors of storable slots.\<close>

fun vok :: "rtVal \<Rightarrow> bool" where
  "vok (VNum q) = True"
| "vok (VStr s) = True"
| "vok (VBool b) = True"
| "vok (VStruct m) = (\<forall>kv \<in> set m. vok (snd kv))"
| "vok (VVec m) = (\<forall>kv \<in> set m. storable (snd kv))"
| "vok (VFunc a c) = False"

fun clo_ok :: "func gomap \<Rightarrow> nat \<Rightarrow> closure \<Rightarrow> nat \<Rightarrow> bool" where
  "clo_ok F d (CPrim nm) k = (is_prim nm \<and> k = 2)"
| "clo_ok F d (CUser nm d') k =
     (d' = d \<and> (case map_of F nm of None \<Rightarrow> False | Some def \<Rightarrow> k = length (f_Params def)))"
| "clo_ok F d (CPartial c bound) k = (list_all vok bound \<and> clo_ok F d c (length bound + k))"

definition sorted_val :: "func gomap \<Rightarrow> nat \<Rightarrow> nat \<Rightarrow> rtVal \<Rightarrow> bool" where
  "sorted_val F d k v =
     (if k = 0 then vok v else (case v of VFunc a c \<Rightarrow> a = k \<and> clo_ok F d c k | _ \<Rightarrow> False))"

text \<open>The errors of ill-formed programs; the others depend on the values at run time.\<close>

fun static_err :: "rtErr \<Rightarrow> bool" where
  "static_err DepthExceeded = False"
| "static_err (UnboundVariable x) = False"
| "static_err CondNotBool = False"
| "static_err NonExhaustiveGuards = False"
| "static_err (FieldOfNonStruct f) = False"
| "static_err (NoSuchField f) = False"
| "static_err NotAVector = False"
| "static_err NotNumeric = False"
| "static_err CompareMismatch = False"
| "static_err e = True"

definition res_ok :: "('a \<Rightarrow> bool) \<Rightarrow> rtErr + 'a \<Rightarrow> bool" where
  "res_ok P r = (case r of Inl e \<Rightarrow> \<not> static_err e | Inr v \<Rightarrow> P v)"

lemma res_ok_simps [simp]:
  "res_ok P (Inl e) \<longleftrightarrow> \<not> static_err e"
  "res_ok P (Inr v) \<longleftrightarrow> P v"
  by (simp_all add: res_ok_def)

lemma res_ok_rbind:
  "res_ok P r \<Longrightarrow> (\<And>x. r = Inr x \<Longrightarrow> P x \<Longrightarrow> res_ok Q (f x)) \<Longrightarrow> res_ok Q (rbind r f)"
  by (cases r) auto

lemma res_ok_at_depth:
  "(d \<le> maxEvalDepth \<Longrightarrow> res_ok P r) \<Longrightarrow> res_ok P (at_depth d r)"
  by (simp add: at_depth_def)

lemma vok_not_func: "vok v \<Longrightarrow> \<not> is_func v"
  by (cases v) auto

lemma storable_vok: "storable v \<Longrightarrow> vok v"
proof (induction v rule: storable_storable_fields.induct(1)
    [where Q = "\<lambda>m. storable_fields m \<longrightarrow> (\<forall>kv \<in> set m. vok (snd kv))"])
  case (8 k v m)
  then show ?case by simp
qed auto

lemma primOp_res_ok: "primOp nm = Inr op \<Longrightarrow> res_ok vok (op a b)"
proof (cases "op a b")
  case (Inl e)
  moreover assume "primOp nm = Inr op"
  ultimately have "e = NotNumeric \<or> e = CompareMismatch"
    by (auto simp: primOp_def arith_def asNum_def cmpOp_def compareVals_def rbind_eq_Inl
        split: if_splits rtVal.splits)
  with Inl show ?thesis by auto
next
  case (Inr v)
  moreover assume "primOp nm = Inr op"
  ultimately show ?thesis by (auto dest: primOp_result)
qed

lemma callEnv_vok:
  assumes "list_all vok args" and "map_of (callEnv ps args) x = Some v"
  shows "vok v"
proof -
  from assms(2) have "v \<in> set args"
    by (auto simp: callEnv_def map_of_mfrom dest!: map_of_SomeD elim: in_set_zipE)
  with assms(1) show ?thesis by (auto simp: list_all_iff)
qed

text \<open>What \<open>range\<close> promises: every entry once, in some order.\<close>

definition range_order :: "('v gomap \<Rightarrow> 'v gomap) \<Rightarrow> bool" where
  "range_order ord \<longleftrightarrow> (\<forall>m. mset (ord m) = mset m)"

lemma range_order_set: "range_order ord \<Longrightarrow> set (ord m) = set m"
  unfolding range_order_def by (metis set_mset_mset)

lemma range_order_id: "range_order (\<lambda>m. m)" "range_order rev"
  by (simp_all add: range_order_def)

definition env_ok :: "rtVal gomap \<Rightarrow> bool" where
  "env_ok env \<longleftrightarrow> (\<forall>x v. map_of env x = Some v \<longrightarrow> vok v)"

definition fits :: "nat \<Rightarrow> nat \<Rightarrow> bool" where
  "fits n d \<longleftrightarrow> maxEvalDepth < n + d"

lemma fits_call: "fits n d \<Longrightarrow> d \<le> maxEvalDepth \<Longrightarrow> 0 < n \<and> fits (n - 1) (Suc d)"
  by (auto simp: fits_def)

lemma sorted_val_0 [simp]: "sorted_val F d 0 = vok"
  by (simp add: sorted_val_def fun_eq_iff)

lemma sorted_val_pos:
  "0 < k \<Longrightarrow> sorted_val F d k v \<longleftrightarrow> (\<exists>c. v = VFunc k c \<and> clo_ok F d c k)"
  by (cases v) (auto simp: sorted_val_def)

lemma refVal_sorted:
  "ar F (ERef nm a rk) = Some k \<Longrightarrow> res_ok (sorted_val F d k) (refVal F d nm rk)"
  by (cases rk)
    (auto simp: refVal_def sorted_val_def is_prim_def rok_iff split: if_splits option.splits)

lemma ar_EApp: "ar F (EApp h as) = Some k \<Longrightarrow> \<exists>h' k0. h = Some h' \<and> ar F h' = Some k0 \<and> 0 < k0 \<and>
    length as \<le> k0 \<and> list_all (\<lambda>a. ar F a = Some 0) as \<and> k = k0 - length as"
  by (cases h) (simp_all split: option.splits if_splits)

lemma ar_EField: "ar F (EField t fld) = Some k \<Longrightarrow> \<exists>t'. t = Some t' \<and> ar F t' = Some 0 \<and> k = 0"
  by (cases t) (simp_all split: if_splits)

lemma ar_EReduce: "ar F (EReduce f i v) = Some k \<Longrightarrow> \<exists>f' i' v'. f = Some f' \<and> i = Some i' \<and> v = Some v' \<and>
    ar F f' = Some 2 \<and> ar F i' = Some 0 \<and> ar F v' = Some 0 \<and> k = 0"
  by (cases f; cases i; cases v) (simp_all split: if_splits)

lemma ar_EGuards: "ar F (EGuards cs) = Some k \<Longrightarrow> k = 0"
  by (simp split: if_splits)

lemma ar_EGuards_Cons: "ar F (EGuards (GuardCase c r ow # cs)) = Some k \<Longrightarrow>
    (\<exists>r'. r = Some r' \<and> ar F r' = Some 0) \<and> (ow \<or> (\<exists>c'. c = Some c' \<and> ar F c' = Some 0)) \<and>
    ar F (EGuards cs) = Some 0"
  by (cases c; cases r) (simp_all split: if_splits)

lemma ar_EStructLit: "ar F (EStructLit sfs) = Some k \<Longrightarrow> k = 0"
  by (simp split: if_splits)

lemma ar_EStructLit_Cons: "ar F (EStructLit (StructField nm v # sfs)) = Some k \<Longrightarrow>
    (\<exists>v'. v = Some v' \<and> ar F v' = Some 0) \<and> ar F (EStructLit sfs) = Some 0"
  by (cases v) (simp_all split: if_splits)

lemma eval_sorted_all:
  "\<And>k. ar F e = Some k \<Longrightarrow> arity_ok F \<Longrightarrow> range_order ord \<Longrightarrow> env_ok env \<Longrightarrow> fits n d \<Longrightarrow>
     res_ok (sorted_val F d k) (eval F ord n d env e)"
  "list_all (\<lambda>e. ar F e = Some 0) es \<Longrightarrow> arity_ok F \<Longrightarrow> range_order ord \<Longrightarrow> env_ok env \<Longrightarrow> fits n d \<Longrightarrow>
     res_ok (\<lambda>vs. length vs = length es \<and> list_all vok vs) (evalArgs F ord n d env es)"
  "ar F (EGuards cs) = Some 0 \<Longrightarrow> arity_ok F \<Longrightarrow> range_order ord \<Longrightarrow> env_ok env \<Longrightarrow> fits n d \<Longrightarrow>
     res_ok vok (evalCases F ord n d env cs)"
  "ar F (EStructLit sfs) = Some 0 \<Longrightarrow> arity_ok F \<Longrightarrow> range_order ord \<Longrightarrow> env_ok env \<Longrightarrow> fits n d \<Longrightarrow>
     wfm m \<Longrightarrow> \<forall>kv \<in> set m. vok (snd kv) \<Longrightarrow>
     res_ok (\<lambda>m. \<forall>kv \<in> set m. vok (snd kv)) (evalFields F ord n d env sfs m)"
  "\<And>d. f = VFunc 2 c \<Longrightarrow> clo_ok F d c 2 \<Longrightarrow> vok acc \<Longrightarrow> \<forall>kv \<in> set m'. storable (snd kv) \<Longrightarrow>
     arity_ok F \<Longrightarrow> range_order ord \<Longrightarrow> fits n d \<Longrightarrow> d \<le> maxEvalDepth \<Longrightarrow>
     res_ok vok (foldVec F ord n f acc m')"
  "\<And>d k. f = VFunc k c \<Longrightarrow> clo_ok F d c k \<Longrightarrow> length args \<le> k \<Longrightarrow> list_all vok args \<Longrightarrow>
     arity_ok F \<Longrightarrow> range_order ord \<Longrightarrow> fits n d \<Longrightarrow> d \<le> maxEvalDepth \<Longrightarrow> 0 < k \<Longrightarrow>
     res_ok (sorted_val F d (k - length args)) (applyFn F ord n f args)"
  "\<And>d. clo_ok F d clo (length args) \<Longrightarrow> list_all vok args \<Longrightarrow>
     arity_ok F \<Longrightarrow> range_order ord \<Longrightarrow> fits n d \<Longrightarrow> d \<le> maxEvalDepth \<Longrightarrow>
     res_ok vok (callClo F ord n clo args)"
proof (induction F ord n d env e and F ord n d env es and F ord n d env cs and F ord n d env sfs m
    and F ord n f acc m' and F ord n f args and F ord n clo args
    arbitrary: and and and and c and c and
    rule: eval_evalArgs_evalCases_evalFields_foldVec_applyFn_callClo.induct)
  case (1 F ord n d env q)
  then show ?case by (auto intro!: res_ok_at_depth)
next
  case (2 F ord n d env s)
  then show ?case by (auto intro!: res_ok_at_depth)
next
  case (3 F ord n d env x)
  then show ?case by (auto intro!: res_ok_at_depth simp: env_ok_def split: option.splits)
next
  case (4 F ord n d env nm a rk)
  then show ?case by (auto intro!: res_ok_at_depth refVal_sorted simp del: ar.simps)
next
  case (5 F ord n d env h as)
  from "5.prems"(1) obtain h' k0 where h: "h = Some h'" "ar F h' = Some k0" "0 < k0"
    "length as \<le> k0" "list_all (\<lambda>a. ar F a = Some 0) as" "k = k0 - length as"
    by (blast dest: ar_EApp)
  show ?case
    unfolding eval.simps h(1) option.case
  proof (intro res_ok_at_depth res_ok_rbind)
    assume d: "d \<le> maxEvalDepth"
    show f: "res_ok (sorted_val F d k0) (eval F ord n d env h')"
      using "5.IH"(1) d h "5.prems" by simp
    fix f vs assume f: "eval F ord n d env h' = Inr f" "sorted_val F d k0 f"
    show "res_ok (\<lambda>vs. length vs = length as \<and> list_all vok vs) (evalArgs F ord n d env as)"
      using "5.IH"(2) d h "5.prems" f by simp
    assume vs: "evalArgs F ord n d env as = Inr vs" "length vs = length as \<and> list_all vok vs"
    from f(2) h(3) obtain c where c: "f = VFunc k0 c" "clo_ok F d c k0"
      by (auto simp: sorted_val_pos)
    show "res_ok (sorted_val F d k) (applyFn F ord n f vs)"
      using "5.IH"(3) [OF d h(1) f(1) vs(1) c] d h vs "5.prems" by simp
  qed
next
  case (6 F ord n d env cs)
  then have k: "k = 0" by (blast dest: ar_EGuards ar_EStructLit)
  show ?case unfolding eval.simps k
    using 6 k by (auto intro!: res_ok_at_depth simp del: ar.simps)
next
  case (7 F ord n d env sfs)
  then have k: "k = 0" by (blast dest: ar_EGuards ar_EStructLit)
  show ?case unfolding eval.simps k sorted_val_0
  proof (intro res_ok_at_depth res_ok_rbind)
    assume d: "d \<le> maxEvalDepth"
    show "res_ok (\<lambda>m. \<forall>kv \<in> set m. vok (snd kv)) (evalFields F ord n d env sfs [])"
      by (rule "7.IH" [OF d]) (use "7.prems" k in simp_all)
  qed auto
next
  case (8 F ord n d env t fld)
  from "8.prems"(1) obtain t' where t: "t = Some t'" "ar F t' = Some 0" "k = 0"
    by (blast dest: ar_EField)
  show ?case
    unfolding eval.simps t option.case sorted_val_0
  proof (intro res_ok_at_depth res_ok_rbind)
    assume d: "d \<le> maxEvalDepth"
    show "res_ok vok (eval F ord n d env t')"
      using "8.IH" [OF d t(1,2)] "8.prems" by simp
    fix tv assume "vok tv"
    then show "res_ok vok
      (case tv of
         VStruct m \<Rightarrow> (case map_of m fld of None \<Rightarrow> Inl (NoSuchField fld) | Some v \<Rightarrow> Inr v)
       | _ \<Rightarrow> Inl (FieldOfNonStruct fld))"
      by (cases tv) (auto split: option.split dest!: map_of_SomeD)
  qed
next
  case (9 F ord n d env f i v)
  from "9.prems"(1) obtain f' i' v' where fiv: "f = Some f'" "i = Some i'" "v = Some v'"
    and ars: "ar F f' = Some 2" "ar F i' = Some 0" "ar F v' = Some 0" "k = 0"
    by (blast dest: ar_EReduce)
  show ?case
    unfolding eval.simps fiv option.case ars(4) sorted_val_0
  proof (intro res_ok_at_depth res_ok_rbind)
    assume d: "d \<le> maxEvalDepth"
    show "res_ok (sorted_val F d 2) (eval F ord n d env f')"
      using "9.IH"(1) [OF d fiv ars(1)] "9.prems" by simp
    fix fv0 assume f0: "eval F ord n d env f' = Inr fv0" and "sorted_val F d 2 fv0"
    then obtain c where c: "fv0 = VFunc 2 c" "clo_ok F d c 2" by (auto simp: sorted_val_pos)
    then have w: "wantFn 2 fv0 = Inr fv0" by (simp add: wantFn_def)
    then show "res_ok (\<lambda>x. x = fv0) (wantFn 2 fv0)" by simp
    fix fv assume fv: "wantFn 2 fv0 = Inr fv" "fv = fv0"
    show "res_ok vok (eval F ord n d env i')"
      using "9.IH"(2) [OF d fiv f0 fv(1) ars(2)] "9.prems" by simp
    fix acc assume acc: "eval F ord n d env i' = Inr acc" "vok acc"
    show "res_ok vok (eval F ord n d env v')"
      using "9.IH"(3) [OF d fiv f0 fv(1) acc(1) ars(3)] "9.prems" by simp
    fix vecv assume vec: "eval F ord n d env v' = Inr vecv" "vok vecv"
    show "res_ok vok
      (case vecv of VVec m \<Rightarrow> foldVec F ord n fv acc (ord m) | _ \<Rightarrow> Inl NotAVector)"
    proof (cases vecv)
      case (VVec m)
      with vec "9.prems" have "\<forall>kv \<in> set (ord m). storable (snd kv)"
        by (simp add: range_order_set)
      with "9.IH"(4) [OF d fiv f0 fv(1) acc(1) vec(1) VVec] fv c d acc "9.prems" VVec
      show ?thesis by simp
    qed auto
  qed
next
  case (14 F ord n d env)
  then show ?case by simp
next
  case (15 F ord n d env e es)
  show ?case unfolding evalArgs.simps
  proof (rule res_ok_rbind)
    show "res_ok vok (eval F ord n d env e)"
      using "15.IH"(1) [of 0] "15.prems" by simp
    fix v assume v: "eval F ord n d env e = Inr v" "vok v"
    have "res_ok (\<lambda>vs. length vs = length es \<and> list_all vok vs) (evalArgs F ord n d env es)"
      using "15.IH"(2) [OF v(1)] "15.prems" v vok_not_func by simp
    then show "res_ok (\<lambda>vs. length vs = length (e # es) \<and> list_all vok vs)
      (if is_func v then Inl FuncAsArg
       else rbind (evalArgs F ord n d env es) (\<lambda>vs. Inr (v # vs)))"
      using v vok_not_func by (auto elim!: res_ok_rbind)
  qed
next
  case (16 F ord n d env)
  then show ?case by simp
next
  case (17 F ord n d env c r ow cs)
  from "17.prems"(1) obtain r' where r: "r = Some r'" "ar F r' = Some 0"
    by (blast dest: ar_EGuards_Cons)
  show ?case
  proof (cases ow)
    case True
    with "17.IH"(1) [OF True r] "17.prems" r show ?thesis by simp
  next
    case False
    with "17.prems"(1) obtain c' where c: "c = Some c'" "ar F c' = Some 0"
      by (blast dest: ar_EGuards_Cons)
    have cs: "ar F (EGuards cs) = Some 0" using "17.prems"(1) by (blast dest: ar_EGuards_Cons)
    have "res_ok vok (rbind (eval F ord n d env c') (\<lambda>cv.
        case cv of
           VBool b \<Rightarrow> if b then deref r (eval F ord n d env) else evalCases F ord n d env cs
         | _ \<Rightarrow> Inl CondNotBool))"
    proof (rule res_ok_rbind)
      show "res_ok vok (eval F ord n d env c')"
        using "17.IH"(2) [OF False c] "17.prems" by simp
      fix cv assume cv: "eval F ord n d env c' = Inr cv" "vok cv"
      show "res_ok vok
        (case cv of
           VBool b \<Rightarrow> if b then deref r (eval F ord n d env) else evalCases F ord n d env cs
         | _ \<Rightarrow> Inl CondNotBool)"
      proof (cases cv)
        case (VBool b)
        then show ?thesis
          using "17.IH"(3) [OF False c(1) cv(1) VBool _ r] "17.IH"(4) [OF False c(1) cv(1) VBool _ cs]
            "17.prems"(2-) r by simp
      qed simp_all
    qed
    then show ?thesis unfolding evalCases.simps c(1) deref.simps if_not_P [OF False] .
  qed
next
  case (18 F ord n d env m)
  then show ?case by simp
next
  case (19 F ord n d env nm val sfs m)
  from "19.prems"(1) obtain e where e: "val = Some e" "ar F e = Some 0"
    and sfs: "ar F (EStructLit sfs) = Some 0"
    by (blast dest: ar_EStructLit_Cons)
  have "res_ok (\<lambda>m. \<forall>kv \<in> set m. vok (snd kv)) (rbind (eval F ord n d env e) (\<lambda>v.
      if is_func v then Inl (FieldNotValue nm) else evalFields F ord n d env sfs (mput nm v m)))"
  proof (rule res_ok_rbind)
    show "res_ok vok (eval F ord n d env e)"
      using "19.IH"(1) [OF e] "19.prems"(2-) by simp
    fix v assume v: "eval F ord n d env e = Inr v" "vok v"
    then have nf: "\<not> is_func v" by (simp add: vok_not_func)
    have "\<forall>kv \<in> set (mput nm v m). vok (snd kv)"
      using v "19.prems"(6,7) by (auto simp: set_mput_wfm)
    then show "res_ok (\<lambda>m. \<forall>kv \<in> set m. vok (snd kv))
      (if is_func v then Inl (FieldNotValue nm) else evalFields F ord n d env sfs (mput nm v m))"
      using "19.IH"(2) [OF e(1) v(1) nf sfs] "19.prems"(2-) nf by simp
  qed
  with e show ?case by simp
next
  case (20 F ord n f acc)
  then show ?case by simp
next
  case (21 F ord n f acc k sv m)
  then have sv: "cloneSlot sv = Inr sv" "vok sv" by (auto simp: clone_storable storable_vok)
  have "res_ok vok (applyFn F ord n f [acc, sv])"
    using "21.IH"(1) [OF sv(1) "21.prems"(1)] "21.prems" sv by simp
  then show ?case
    using "21.IH"(2) [OF sv(1) _ "21.prems"(1,2)] "21.prems" sv by (auto elim!: res_ok_rbind)
next
  case (22 F ord n f args)
  show ?case
  proof (cases "length args = k")
    case True
    with 22 show ?thesis by simp
  next
    case False
    with "22.prems" show ?thesis by (simp add: sorted_val_pos)
  qed
next
  case (23 F ord n nm args)
  then obtain a b where "args = [a, b]" by (auto simp: length_Suc_conv numeral_2_eq_2)
  moreover obtain op where "primOp nm = Inr op"
    using 23 by (auto simp: is_prim_def rok_iff)
  ultimately show ?case by (simp add: primOp_res_ok)
next
  case (24 F ord n nm d' args)
  then obtain def where def: "map_of F nm = Some def" "length args = length (f_Params def)" "d' = d"
    by (auto split: option.splits)
  have n: "0 < n" "fits (n - 1) (d + 1)" using 24 fits_call [of n d] by simp_all
  have "res_ok (sorted_val F (d' + 1) 0)
    (eval F ord (n - 1) (d' + 1) (callEnv (f_Params def) args) (f_Body def))"
  proof (rule "24.IH" [OF def(1)])
    show "ar F (f_Body def) = Some 0"
      using 24 def by (auto simp: arity_ok_def list_all_iff dest: map_of_SomeD)
    show "env_ok (callEnv (f_Params def) args)"
      using 24 callEnv_vok by (auto simp: env_ok_def)
  qed (use 24 def n in simp_all)
  with n def show ?case by simp
next
  case (25 F ord n c bound rest)
  from "25.prems"(1) have "list_all vok bound" "clo_ok F d c (length (bound @ rest))" by simp_all
  with "25.prems"(2-) show ?case
    unfolding callClo.simps by (intro "25.IH" [of d]) simp_all
qed auto

subsection \<open>Evaluation as the operations start it\<close>

text \<open>Every operation evaluates at depth 0; a function value it obtains is then applied.\<close>

definition evalTop :: "func gomap \<Rightarrow> (rtVal gomap \<Rightarrow> rtVal gomap) \<Rightarrow> rtVal gomap \<Rightarrow> expr \<Rightarrow> rtErr + rtVal" where
  "evalTop F ord env e = eval F ord evalFuel 0 env e"

definition evalFuncVal :: "func gomap \<Rightarrow> (rtVal gomap \<Rightarrow> rtVal gomap) \<Rightarrow> rtVal gomap \<Rightarrow> expr \<Rightarrow> nat \<Rightarrow> rtErr + rtVal" where
  "evalFuncVal F ord env e want = rbind (evalTop F ord env e) (wantFn want)"

definition applyTop :: "func gomap \<Rightarrow> (rtVal gomap \<Rightarrow> rtVal gomap) \<Rightarrow> rtVal \<Rightarrow> rtVal list \<Rightarrow> rtErr + rtVal" where
  "applyTop F ord f args = applyFn F ord evalFuel f args"

lemma fits_evalFuel: "fits evalFuel 0"
  by (simp add: fits_def evalFuel_def)

lemma wantFn_Inr: "wantFn k v = Inr f \<longleftrightarrow> f = v \<and> (\<exists>c. v = VFunc k c)"
  by (cases v) (auto simp: wantFn_def)

lemma evalFuncVal_Inr: "evalFuncVal F ord env e k = Inr f \<Longrightarrow> \<exists>c. f = VFunc k c"
  by (auto simp: evalFuncVal_def wantFn_Inr)

lemma evalFuncVal_sorted:
  assumes "arity_ok F" "range_order ord" "env_ok env" "ar F e = Some k" "0 < k"
  shows "res_ok (sorted_val F 0 k) (evalFuncVal F ord env e k)"
  unfolding evalFuncVal_def
proof (rule res_ok_rbind)
  show "res_ok (sorted_val F 0 k) (evalTop F ord env e)"
    unfolding evalTop_def using assms eval_sorted_all(1) fits_evalFuel by simp
  fix v assume "sorted_val F 0 k v"
  with assms(5) show "res_ok (sorted_val F 0 k) (wantFn k v)"
    by (auto simp: sorted_val_pos wantFn_def)
qed

lemma applyTop_sorted:
  assumes "arity_ok F" "range_order ord" "sorted_val F 0 k f" "0 < k" "list_all vok args" "length args = k"
  shows "res_ok vok (applyTop F ord f args)"
proof -
  from assms obtain c where "f = VFunc k c" "clo_ok F 0 c k" by (auto simp: sorted_val_pos)
  with eval_sorted_all(6) [of f k c F 0 args ord evalFuel] assms fits_evalFuel
  show ?thesis by (simp add: applyTop_def)
qed

text \<open>
  C16: Evaluation always returns, and a program whose terms have the arities their positions need
  never fails for a structural reason: the result of a term of arity k is a first-order value
  (k = 0) or a function expecting exactly k arguments, or one of the errors that depend on values
  (the depth guard, a missing variable or field, an operand of the wrong kind). In particular
  fuel never runs out and no Go panic is reached.
\<close>

theorem eval_sorted:
  assumes "arity_ok F" and "range_order ord" and "env_ok env" and "ar F e = Some k"
  shows "(\<exists>v. evalTop F ord env e = Inr v \<and> sorted_val F 0 k v) \<or>
    (\<exists>err. evalTop F ord env e = Inl err \<and> \<not> static_err err)"
  using eval_sorted_all(1) [OF assms(4,1-3) fits_evalFuel]
  by (cases "evalTop F ord env e") (auto simp: evalTop_def)

text \<open>The factorial-shaped recursion of the examples, and a definition that calls itself forever.\<close>

definition sum_to :: func where
  "sum_to = \<lparr> f_Name = ''sum'', f_Params = [\<lparr> p_Name = ''x'', p_Type = ''int'' \<rparr>],
     f_Body = EGuards
       [GuardCase (Some (EApp (Some (ERef ''>'' 2 RefPrimitive)) [EVar ''x'', ENumLit 0]))
          (Some (EApp (Some (ERef ''+'' 2 RefPrimitive))
             [EVar ''x'', EApp (Some (ERef ''sum'' 1 RefFunction))
                [EApp (Some (ERef ''-'' 2 RefPrimitive)) [EVar ''x'', ENumLit 1]]])) False,
        GuardCase None (Some (ENumLit 0)) True] \<rparr>"


lemma is_prim_simps [simp]: "is_prim ''+''" "is_prim ''-''" "is_prim ''*''" "is_prim ''>''"
    "is_prim ''max''" "is_prim ''min''" "is_prim ''==''"
  by (simp_all add: is_prim_def primOp_def)

lemma eval_sorted_witness:
  "(\<exists>v. evalTop [(''sum'', sum_to)] (\<lambda>m. m) [(''n'', VNum 3)]
      (EApp (Some (ERef ''sum'' 1 RefFunction)) [EVar ''n'']) = Inr v \<and> vok v) \<or>
   (\<exists>err. evalTop [(''sum'', sum_to)] (\<lambda>m. m) [(''n'', VNum 3)]
      (EApp (Some (ERef ''sum'' 1 RefFunction)) [EVar ''n'']) = Inl err \<and> \<not> static_err err)"
  using eval_sorted [of "[(''sum'', sum_to)]" "\<lambda>m. m" "[(''n'', VNum 3)]"
      "EApp (Some (ERef ''sum'' 1 RefFunction)) [EVar ''n'']" 0]
  by (simp add: arity_ok_def sum_to_def env_ok_def range_order_id)

lemma sum_to_3:
  "evalTop [(''sum'', sum_to)] (\<lambda>m. m) [(''n'', VNum 3)]
     (EApp (Some (ERef ''sum'' 1 RefFunction)) [EVar ''n'']) = Inr (VNum 6)"
  by (simp add: evalTop_def evalFuel_def maxEvalDepth_def at_depth_def refVal_def primOp_def
      sum_to_def callEnv_def mfrom_def)





end
