(* ===== verification/Wire.thy ===== *)
theory Wire
  imports RtVal
begin

text \<open>
  crdt/crdt.go and crdt/vector.go, the transport form of a slot: \<open>SlotWire\<close>, its encoder
  \<open>slotToWire\<close> and its validating decoder \<open>wireToSlot\<close>. An absent \<open>Num\<close> is the empty string;
  \<open>Str\<close> and \<open>Struct\<close> are a pointer and a map, nil when absent.
\<close>

datatype slotWire =
  SlotWire (sw_Num: string) (sw_Str: "string option")
    (sw_Struct: "(string \<times> slotWire) list option")

datatype wireErr =
    MalformedSlot nat
  | WantStruct
  | FieldCount nat nat
  | MissingField string
  | InField string wireErr
  | WantString
  | BadUtf8
  | WantScalar
  | BadNumber string
  | OffDomain rat numType

fun slotToWire :: "rtVal \<Rightarrow> rtErr + slotWire"
and fieldsToWire :: "(string \<times> rtVal) list \<Rightarrow> rtErr + (string \<times> slotWire) list" where
  "slotToWire (VStruct m) = rbind (fieldsToWire m) (\<lambda>w. Inr (SlotWire [] None (Some w)))"
| "slotToWire (VStr s) = Inr (SlotWire [] (Some s) None)"
| "slotToWire (VNum q) = Inr (SlotWire (RatString q) None None)"
| "slotToWire (VBool b) = Inl Panic"
| "slotToWire (VVec m) = Inl Panic"
| "slotToWire (VFunc a c) = Inl Panic"
| "fieldsToWire [] = Inr []"
| "fieldsToWire ((k, v) # m) =
     rbind (slotToWire v) (\<lambda>w. rbind (fieldsToWire m) (\<lambda>ws. Inr ((k, w) # ws)))"

text \<open>The number of populated tags.\<close>

definition populated :: "slotWire \<Rightarrow> nat" where
  "populated s =
     (if sw_Num s \<noteq> [] then 1 else 0) + (if sw_Str s \<noteq> None then 1 else 0) +
     (if sw_Struct s \<noteq> None then 1 else 0)"

definition one_tag :: "slotWire \<Rightarrow> (wireErr + 'a) \<Rightarrow> wireErr + 'a" where
  "one_tag s r = (if populated s \<noteq> 1 then Inl (MalformedSlot (populated s)) else r)"

lemma one_tag_cong [fundef_cong]: "s = s' \<Longrightarrow> r = r' \<Longrightarrow> one_tag s r = one_tag s' r'"
  by simp

fun wireToSlot :: "slotWire \<Rightarrow> elemT \<Rightarrow> wireErr + rtVal"
and wireToFields :: "(string \<times> slotWire) list \<Rightarrow> (string \<times> elemT) list \<Rightarrow> rtVal gomap \<Rightarrow> wireErr + rtVal gomap"
where
  "wireToSlot s (TStruct nm fs) = one_tag s
     (case sw_Struct s of
        None \<Rightarrow> Inl WantStruct
      | Some m \<Rightarrow>
          if length m \<noteq> length fs then Inl (FieldCount (length m) (length fs))
          else rbind (wireToFields m fs []) (\<lambda>m'. Inr (VStruct m')))"
| "wireToSlot s TStr = one_tag s
     (case sw_Str s of
        None \<Rightarrow> Inl WantString
      | Some x \<Rightarrow> if utf8_ValidString x then Inr (VStr x) else Inl BadUtf8)"
| "wireToSlot s (TNum nt) = one_tag s
     (if sw_Num s = [] then Inl WantScalar
      else case Rat_SetString (sw_Num s) of
          None \<Rightarrow> Inl (BadNumber (sw_Num s))
        | Some q \<Rightarrow> if nt_Allows nt q then Inr (VNum q) else Inl (OffDomain q nt))"
| "wireToFields m [] acc = Inr acc"
| "wireToFields m ((k, t) # fs) acc =
     (case map_of m k of
        None \<Rightarrow> Inl (MissingField k)
      | Some w \<Rightarrow>
          rbind (rwrap (InField k) (wireToSlot w t)) (\<lambda>v.
          wireToFields m fs (mput k v acc)))"

lemma one_tag_Inr [simp]: "one_tag s r = Inr v \<longleftrightarrow> populated s = 1 \<and> r = Inr v"
  by (simp add: one_tag_def)

subsection \<open>Encoding\<close>

lemma slotToWire_one_tag: "slotToWire v = Inr w \<Longrightarrow> populated w = 1"
  by (cases v) (auto simp: populated_def)

lemma slotToWire_storable:
  "storable v \<Longrightarrow> \<exists>w. slotToWire v = Inr w"
  "storable_fields m \<Longrightarrow> \<exists>w. fieldsToWire m = Inr w"
  by (induction v and m rule: slotToWire_fieldsToWire.induct) auto

lemma fieldsToWire_lookup:
  "fieldsToWire m = Inr w \<Longrightarrow> map_of m k = Some v \<Longrightarrow> \<exists>x. map_of w k = Some x \<and> slotToWire v = Inr x"
  by (induction m arbitrary: w) (auto split: if_splits)

lemma fieldsToWire_keys: "fieldsToWire m = Inr w \<Longrightarrow> map fst w = map fst m"
  by (induction m arbitrary: w) auto

subsection \<open>Decoding\<close>

lemma wireToFields_Cons:
  "wireToFields m ((k, t) # fs) acc = Inr m' \<longleftrightarrow>
     (\<exists>w v. map_of m k = Some w \<and> wireToSlot w t = Inr v \<and> wireToFields m fs (mput k v acc) = Inr m')"
  by (simp split: option.split)

lemma wireToFields_wfm: "wireToFields m fs acc = Inr m' \<Longrightarrow> wfm acc \<Longrightarrow> wfm m'"
proof (induction fs arbitrary: acc)
  case (Cons f fs)
  then show ?case by (cases f) (auto simp: wireToFields_Cons simp del: wireToFields.simps)
qed simp

lemma wireToFields_total:
  "wireToFields m fs acc = Inr m' \<Longrightarrow>
   \<forall>(k, t) \<in> set fs. \<exists>w v. map_of m k = Some w \<and> wireToSlot w t = Inr v"
proof (induction fs arbitrary: acc)
  case (Cons f fs)
  obtain k t where f: "f = (k, t)" by (cases f)
  with Cons.prems obtain w v where "map_of m k = Some w" "wireToSlot w t = Inr v"
    "wireToFields m fs (mput k v acc) = Inr m'" by (auto simp: wireToFields_Cons simp del: wireToFields.simps)
  with Cons.IH f show ?case by auto
qed simp

lemma wireToFields_lookup:
  "wireToFields m fs acc = Inr m' \<Longrightarrow> distinct (map fst fs) \<Longrightarrow>
   map_of m' k =
      (case map_of fs k of
         None \<Rightarrow> map_of acc k
       | Some t \<Rightarrow> (case map_of m k of None \<Rightarrow> None | Some w \<Rightarrow>
           (case wireToSlot w t of Inl e \<Rightarrow> None | Inr v \<Rightarrow> Some v)))"
proof (induction fs arbitrary: acc)
  case (Cons f fs)
  obtain k0 t where f: "f = (k0, t)" by (cases f)
  with Cons.prems obtain w v where wv: "map_of m k0 = Some w" "wireToSlot w t = Inr v"
    "wireToFields m fs (mput k0 v acc) = Inr m'" by (auto simp: wireToFields_Cons simp del: wireToFields.simps)
  have fresh: "map_of fs k0 = None" using Cons.prems f by (simp add: map_of_eq_None_iff)
  show ?case
  proof (cases "k = k0")
    case True
    with Cons.IH [OF wv(3)] Cons.prems f wv fresh show ?thesis by simp
  next
    case False
    with Cons.IH [OF wv(3)] Cons.prems(2) f show ?thesis by (cases "map_of fs k") simp_all
  qed
qed simp

text \<open>A decoded slot is a member of the element type.\<close>

lemma wireToSlot_conforms:
  "wf_elem t \<Longrightarrow> wireToSlot w t = Inr v \<Longrightarrow> conforms t v"
proof (induction t arbitrary: w v rule: wf_elem_wf_fields.induct(1)
    [where Q = "\<lambda>fs. wf_fields fs \<longrightarrow>
      (\<forall>(k, t) \<in> set fs. \<forall>w v. wireToSlot w t = Inr v \<longrightarrow> conforms t v)"])
  case (1 nm fs)
  from "1.prems" obtain m m' where m: "wireToFields m fs [] = Inr m'" "v = VStruct m'"
    by (auto split: option.splits if_splits)
  from "1.prems" have d: "distinct (map fst fs)" and
    c: "\<forall>(k, t) \<in> set fs. \<forall>w v. wireToSlot w t = Inr v \<longrightarrow> conforms t v"
    using "1"(1) by auto
  note look0 = wireToFields_lookup [OF m(1) d]
  have look: "\<exists>v. map_of m' k = Some v \<and> conforms t v" if "(k, t) \<in> set fs" for k t
  proof -
    from that d have "map_of fs k = Some t" by simp
    with look0 [of k] wireToFields_total [OF m(1)] that c show ?thesis by force
  qed
  have "map_of m' k = None" if "k \<notin> set (map fst fs)" for k
    using look0 [of k] that by (simp add: map_of_eq_None_iff [THEN iffD2])
  then have "set (mkeys m') = set (map fst fs)"
    using look by (force simp: set_mkeys dom_def)
  with look wireToFields_wfm [OF m(1)] m(2) show ?case by (force simp: conforms_fields_iff)
qed (auto split: option.splits if_splits)

text \<open>Decoding an encoded member gives the member back.\<close>

lemma wire_roundtrip:
  "wf_elem t \<Longrightarrow> conforms t v \<Longrightarrow> slotToWire v = Inr w \<Longrightarrow> wireToSlot w t = Inr v"
proof (induction t arbitrary: w v rule: wf_elem_wf_fields.induct(1)
    [where Q = "\<lambda>fs. wf_fields fs \<longrightarrow>
      (\<forall>(k, t) \<in> set fs. \<forall>w v. conforms t v \<longrightarrow> slotToWire v = Inr w \<longrightarrow> wireToSlot w t = Inr v)"])
  case (1 nm fs)
  from "1.prems" obtain m where m: "v = VStruct m" "wfm m" "set (mkeys m) = set (map fst fs)"
    "conforms_fields fs m" by (auto elim: conforms_TStructE)
  with "1.prems" obtain mw where mw: "w = SlotWire [] None (Some mw)" "fieldsToWire m = Inr mw"
    by auto
  from "1.prems" have d: "distinct (map fst fs)" and
    c: "\<forall>(k, t) \<in> set fs. \<forall>w v. conforms t v \<longrightarrow> slotToWire v = Inr w \<longrightarrow> wireToSlot w t = Inr v"
    using "1"(1) by auto
  have "length m = length fs"
    using m(2,3) d by (metis distinct_card length_map mkeys_def wfm_distinct)
  then have len: "length mw = length fs" using mw(2) by (metis fieldsToWire_keys length_map)
  have field: "\<exists>x y. map_of m k = Some y \<and> map_of mw k = Some x \<and> wireToSlot x t = Inr y"
    if "(k, t) \<in> set fs" for k t
  proof -
    from m(4) that obtain y where "map_of m k = Some y" "conforms t y"
      by (auto simp: conforms_fields_iff)
    with fieldsToWire_lookup [OF mw(2)] c that show ?thesis by fastforce
  qed
  have ok: "\<exists>m'. wireToFields mw gs acc = Inr m'" if "set gs \<subseteq> set fs" for gs acc
    using that
  proof (induction gs arbitrary: acc)
    case (Cons g gs)
    obtain k t where g: "g = (k, t)" by (cases g)
    with Cons.prems field [of k t] obtain x y where "map_of mw k = Some x" "wireToSlot x t = Inr y"
      by auto
    with Cons g show ?case by simp
  qed simp
  then obtain m' where m': "wireToFields mw fs [] = Inr m'" by blast
  note look0 = wireToFields_lookup [OF m' d]
  have "map_of m' k = map_of m k" for k
  proof (cases "map_of fs k")
    case None
    then have "k \<notin> set (mkeys m)" using m(3) by (simp add: map_of_eq_None_iff)
    with None look0 [of k] show ?thesis by (simp add: set_mkeys dom_def)
  next
    case (Some t)
    then have "(k, t) \<in> set fs" by (rule map_of_SomeD)
    with Some field [of k t] look0 [of k] show ?thesis by auto
  qed
  then have "m' = m" using m(2) wireToFields_wfm [OF m'] by (intro wfm_ext) (auto simp: fun_eq_iff)
  with m' mw(1) m(1) len show ?case by (simp add: populated_def)
next
  case 2
  then show ?case by (auto elim!: conforms_TStrE simp: populated_def)
next
  case (3 nt)
  then show ?case by (auto elim!: conforms_TNumE simp: populated_def SetString_RatString)
qed auto

end
