(* ===== verification/Vector.thy ===== *)
theory Vector
  imports Eval Wire
begin

text \<open>
  crdt/vector.go, the replica: \<open>VectorCRDT\<close> and its operations \<open>Apply\<close>, \<open>Query\<close>,
  \<open>ValidateQuery\<close>, \<open>Merge\<close>, \<open>Snapshot\<close>, \<open>SnapshotWire\<close> and \<open>MergeWire\<close>.

  An operation that changes the replica returns the replica after it and the error, if any, as the
  Go method leaves both. The mutex serialises the operations, so each is one atomic step and the
  mutex is not part of the state; \<open>big.Rat\<close> pointers are values, and the clones at the boundaries
  are kept because they panic on kinds that are not slot values. Two order arguments appear:
  \<open>ord\<close> for the \<open>range\<close> loops inside expression evaluation and \<open>lord\<close> for the loop of the merge.
\<close>

record crdt_method =
  mt_Params :: "paramSpec list"
  mt_Body :: expr
  mt_Result :: valType
  mt_ResultNum :: numType
  mt_ResultStruct :: "elemT option"

record vectorCRDT =
  v_nodeID :: string
  v_elem :: elemT
  v_state :: "rtVal gomap"
  v_merge :: expr
  v_queries :: "crdt_method gomap"
  v_updates :: "crdt_method gomap"
  v_funcs :: "func gomap"

definition NewVector :: "string \<Rightarrow> elemT \<Rightarrow> expr \<Rightarrow> crdt_method gomap \<Rightarrow> crdt_method gomap \<Rightarrow> func gomap \<Rightarrow> vectorCRDT" where
  "NewVector nodeID elem merge queries updates funcs =
     \<lparr> v_nodeID = nodeID, v_elem = elem, v_state = [], v_merge = merge, v_queries = queries,
       v_updates = updates, v_funcs = funcs \<rparr>"

text \<open>
  Values of type \<open>any\<close>: what a request carries and what a query returns. A \<open>float64\<close> is its
  exact rational value, None for NaN and the infinities.
\<close>

datatype goAny =
    GRat rat
  | GString string
  | GFloat64 "rat option"
  | GInt64 int
  | GInt int
  | GBool bool
  | GMap "(string \<times> goAny) list"
  | GOther string

datatype paramErr =
    WantStringParam
  | ParamNotUtf8
  | InvalidNumber string
  | NotFinite
  | CannotConvert
  | UnknownType string
  | ParamOffDomain rat string

datatype vecErr =
    UnknownAction string
  | UnknownQuery string
  | ParamCount nat nat
  | BadParam string paramErr
  | ParamIndex
  | NotLocalWrite
  | NotUnary
  | MergeNotZip
  | EvalErr rtErr
  | NoValue
  | BadWireSlot string wireErr

subsection \<open>Parameters\<close>

definition toRat :: "goAny \<Rightarrow> paramErr + rat" where
  "toRat v =
     (case v of
        GRat q \<Rightarrow> Inr q
      | GString s \<Rightarrow>
          (case Rat_SetString (TrimSpace s) of None \<Rightarrow> Inl (InvalidNumber s) | Some q \<Rightarrow> Inr q)
      | GFloat64 x \<Rightarrow> (case x of None \<Rightarrow> Inl NotFinite | Some q \<Rightarrow> Inr q)
      | GInt64 i \<Rightarrow> Inr (of_int i)
      | GInt i \<Rightarrow> Inr (of_int i)
      | _ \<Rightarrow> Inl CannotConvert)"

definition bindParam :: "string \<Rightarrow> goAny \<Rightarrow> paramErr + rtVal" where
  "bindParam ty val =
     (if ty = ''string'' then
        (case val of
           GString s \<Rightarrow> if utf8_ValidString s then Inr (VStr s) else Inl ParamNotUtf8
         | _ \<Rightarrow> Inl WantStringParam)
      else
        rbind (toRat val) (\<lambda>f.
        case nt_Parse ty of
          None \<Rightarrow> Inl (UnknownType ty)
        | Some nt \<Rightarrow> if nt_Allows nt f then Inr (VNum f) else Inl (ParamOffDomain f ty)))"

fun bindParams_from :: "paramSpec list \<Rightarrow> goAny list \<Rightarrow> rtVal gomap \<Rightarrow> vecErr + rtVal gomap" where
  "bindParams_from [] vals m = Inr m"
| "bindParams_from (p # ps) [] m = Inl ParamIndex"
| "bindParams_from (p # ps) (x # vals) m =
     rbind (rwrap (BadParam (p_Name p)) (bindParam (p_Type p) x)) (\<lambda>v.
     bindParams_from ps vals (mput (p_Name p) v m))"

definition bindParams :: "paramSpec list \<Rightarrow> goAny list \<Rightarrow> vecErr + rtVal gomap" where
  "bindParams specs vals = bindParams_from specs vals []"

subsection \<open>Operations\<close>

definition cloneState :: "rtVal gomap \<Rightarrow> vecErr + rtVal gomap" where
  "cloneState st = rwrap EvalErr (mmapR cloneSlot st)"

text \<open>The value an update's function is applied to: the own slot, or for \<open>write\<close> the vector with
  the own slot present.\<close>

definition updateArg :: "vectorCRDT \<Rightarrow> bool \<Rightarrow> vecErr + rtVal" where
  "updateArg v write =
     (if write then
        rbind (cloneState (v_state v)) (\<lambda>snap.
        Inr (VVec (case map_of snap (v_nodeID v) of
                     Some s \<Rightarrow> snap
                   | None \<Rightarrow> mput (v_nodeID v) (zeroSlot (v_elem v)) snap)))
      else
        Inr (case map_of (v_state v) (v_nodeID v) of
               Some cur \<Rightarrow> cur
             | None \<Rightarrow> zeroSlot (v_elem v)))"

definition updateBody :: "expr \<Rightarrow> (bool \<times> expr) option" where
  "updateBody e =
     (case e of
        ELocal (Some f) \<Rightarrow> Some (False, f)
      | EWrite (Some f) \<Rightarrow> Some (True, f)
      | _ \<Rightarrow> None)"

definition nextSlot :: "(rtVal gomap \<Rightarrow> rtVal gomap) \<Rightarrow> vectorCRDT \<Rightarrow> string \<Rightarrow> goAny list \<Rightarrow> vecErr + rtVal" where
  "nextSlot ord v action payload =
     (case map_of (v_updates v) action of
        None \<Rightarrow> Inl (UnknownAction action)
      | Some m \<Rightarrow>
          if length payload \<noteq> length (mt_Params m)
          then Inl (ParamCount (length (mt_Params m)) (length payload))
          else rbind (bindParams (mt_Params m) payload) (\<lambda>env.
            case updateBody (mt_Body m) of
              None \<Rightarrow> Inl NotLocalWrite
            | Some (write, fn) \<Rightarrow>
                rbind (rwrap EvalErr (evalFuncVal (v_funcs v) ord env fn 1)) (\<lambda>f.
                rbind (updateArg v write) (\<lambda>arg.
                rbind (rwrap EvalErr (applyTop (v_funcs v) ord f [arg])) (\<lambda>next.
                rwrap EvalErr (cloneSlot next))))))"

definition Apply :: "(rtVal gomap \<Rightarrow> rtVal gomap) \<Rightarrow> vectorCRDT \<Rightarrow> string \<Rightarrow> goAny list \<Rightarrow> vectorCRDT \<times> vecErr option" where
  "Apply ord v action payload =
     (case nextSlot ord v action payload of
        Inl e \<Rightarrow> (v, Some e)
      | Inr nx \<Rightarrow> (v\<lparr>v_state := mput (v_nodeID v) nx (v_state v)\<rparr>, None))"

fun rtToAny :: "rtVal \<Rightarrow> vecErr + goAny"
and fieldsToAny :: "(string \<times> rtVal) list \<Rightarrow> vecErr + (string \<times> goAny) list" where
  "rtToAny (VNum q) = Inr (GString (RatString q))"
| "rtToAny (VStr s) = Inr (GString s)"
| "rtToAny (VBool b) = Inr (GBool b)"
| "rtToAny (VStruct m) = rbind (fieldsToAny m) (\<lambda>obj. Inr (GMap obj))"
| "rtToAny (VVec m) = Inl NoValue"
| "rtToAny (VFunc a c) = Inl NoValue"
| "fieldsToAny [] = Inr []"
| "fieldsToAny ((k, v) # m) =
     rbind (rtToAny v) (\<lambda>a. rbind (fieldsToAny m) (\<lambda>as. Inr ((k, a) # as)))"

definition ValidateQuery :: "vectorCRDT \<Rightarrow> string \<Rightarrow> goAny list \<Rightarrow> vecErr option" where
  "ValidateQuery v name params =
     (case map_of (v_queries v) name of
        None \<Rightarrow> Some (UnknownQuery name)
      | Some m \<Rightarrow>
          if length params \<noteq> length (mt_Params m)
          then Some (ParamCount (length (mt_Params m)) (length params))
          else (case bindParams (mt_Params m) params of Inl e \<Rightarrow> Some e | Inr env \<Rightarrow> None))"

definition Query :: "(rtVal gomap \<Rightarrow> rtVal gomap) \<Rightarrow> vectorCRDT \<Rightarrow> string \<Rightarrow> goAny list \<Rightarrow> vecErr + goAny" where
  "Query ord v name params =
     (case ValidateQuery v name params of
        Some e \<Rightarrow> Inl e
      | None \<Rightarrow>
          (case map_of (v_queries v) name of
             None \<Rightarrow> Inl (EvalErr Panic)
           | Some m \<Rightarrow>
               rbind (bindParams (mt_Params m) params) (\<lambda>env.
               rbind (rwrap EvalErr (evalTop (v_funcs v) ord env (mt_Body m))) (\<lambda>f.
               case f of
                 VFunc a c \<Rightarrow>
                   if a \<noteq> 1 then Inl NotUnary
                   else
                     rbind (cloneState (v_state v)) (\<lambda>snap.
                     rbind (rwrap EvalErr (applyTop (v_funcs v) ord f [VVec snap])) rtToAny)
               | _ \<Rightarrow> Inl NotUnary))))"

text \<open>The merge function, evaluated once, and one iteration of the loop over the remote slots.\<close>

definition mergeFn :: "(rtVal gomap \<Rightarrow> rtVal gomap) \<Rightarrow> vectorCRDT \<Rightarrow> vecErr + rtVal" where
  "mergeFn ord v =
     (case v_merge v of
        EZip (Some fn) \<Rightarrow> rwrap EvalErr (evalFuncVal (v_funcs v) ord [] fn 2)
      | _ \<Rightarrow> Inl MergeNotZip)"

definition mergeStep :: "(rtVal \<Rightarrow> rtVal \<Rightarrow> rtErr + rtVal) \<Rightarrow> rtVal gomap \<Rightarrow> string \<times> rtVal \<Rightarrow> rtErr + rtVal gomap" where
  "mergeStep fn merged kv =
     (case map_of merged (fst kv) of
        Some cur \<Rightarrow>
          rbind (cloneSlot (snd kv)) (\<lambda>rv.
          rbind (fn cur rv) (\<lambda>nv.
          rbind (cloneSlot nv) (\<lambda>nv'. Inr (mput (fst kv) nv' merged))))
      | None \<Rightarrow> rbind (cloneSlot (snd kv)) (\<lambda>rv. Inr (mput (fst kv) rv merged)))"

definition mergeSlots ::
  "(rtVal \<Rightarrow> rtVal \<Rightarrow> rtErr + rtVal) \<Rightarrow> (rtVal gomap \<Rightarrow> rtVal gomap) \<Rightarrow> rtVal gomap \<Rightarrow> rtVal gomap \<Rightarrow> rtErr + rtVal gomap"
where
  "mergeSlots fn lord st remote =
     rbind (mmapR cloneSlot st) (\<lambda>merged. foldR (mergeStep fn) merged (lord remote))"

definition mergeRemote ::
  "(rtVal gomap \<Rightarrow> rtVal gomap) \<Rightarrow> (rtVal gomap \<Rightarrow> rtVal gomap) \<Rightarrow> vectorCRDT \<Rightarrow> rtVal gomap \<Rightarrow> vectorCRDT \<times> vecErr option"
where
  "mergeRemote ord lord v remote =
     (case rbind (mergeFn ord v) (\<lambda>fn.
        rwrap EvalErr (mergeSlots (\<lambda>a b. applyTop (v_funcs v) ord fn [a, b]) lord (v_state v) remote)) of
        Inl e \<Rightarrow> (v, Some e)
      | Inr merged \<Rightarrow> (v\<lparr>v_state := merged\<rparr>, None))"

definition Snapshot :: "vectorCRDT \<Rightarrow> rtErr + rtVal gomap" where
  "Snapshot v = mmapR cloneSlot (v_state v)"

definition SnapshotWire :: "vectorCRDT \<Rightarrow> rtErr + slotWire gomap" where
  "SnapshotWire v = mmapR slotToWire (v_state v)"

text \<open>\<open>MergeWire\<close> decodes every slot before it merges; the first bad slot is an error.\<close>

fun decodeSlots :: "elemT \<Rightarrow> slotWire gomap \<Rightarrow> vecErr + rtVal gomap" where
  "decodeSlots t [] = Inr []"
| "decodeSlots t ((k, s) # m) =
     rbind (rwrap (BadWireSlot k) (wireToSlot s t)) (\<lambda>rv.
     rbind (decodeSlots t m) (\<lambda>m'. Inr ((k, rv) # m')))"

definition MergeWire ::
  "(rtVal gomap \<Rightarrow> rtVal gomap) \<Rightarrow> (rtVal gomap \<Rightarrow> rtVal gomap) \<Rightarrow> vectorCRDT \<Rightarrow> slotWire gomap \<Rightarrow> vectorCRDT \<times> vecErr option"
where
  "MergeWire ord lord v snap =
     (case decodeSlots (v_elem v) snap of
        Inl e \<Rightarrow> (v, Some e)
      | Inr remote \<Rightarrow> mergeRemote ord lord v remote)"

subsection \<open>Binding parameters\<close>

text \<open>A bound parameter is a member of its declared type.\<close>

definition param_ok :: "string \<Rightarrow> rtVal \<Rightarrow> bool" where
  "param_ok ty v \<longleftrightarrow>
     (if ty = ''string'' then \<exists>s. v = VStr s \<and> utf8_ValidString s
      else \<exists>nt q. nt_Parse ty = Some nt \<and> v = VNum q \<and> nt_Allows nt q)"

lemma bindParam_ok: "bindParam ty x = Inr v \<Longrightarrow> param_ok ty v"
  by (auto simp: bindParam_def param_ok_def split: if_splits goAny.splits option.splits)

lemma param_ok_vok: "param_ok ty v \<Longrightarrow> vok v"
  by (auto simp: param_ok_def split: if_splits)

lemma bindParams_from_ok:
  assumes "bindParams_from ps vals m = Inr env" and "map_of env x = Some v"
  shows "map_of m x = Some v \<or> (\<exists>p \<in> set ps. p_Name p = x \<and> param_ok (p_Type p) v)"
  using assms
proof (induction ps vals m rule: bindParams_from.induct)
  case (3 p ps x' vals m)
  then obtain w where "bindParam (p_Type p) x' = Inr w"
    "bindParams_from ps vals (mput (p_Name p) w m) = Inr env" by auto
  with "3.IH" [of w] "3.prems"(2) bindParam_ok show ?case by (auto split: if_splits)
qed auto

lemma bindParams_from_keys:
  "bindParams_from ps vals m = Inr env \<Longrightarrow>
   dom (map_of env) = dom (map_of m) \<union> p_Name ` set ps \<and> (wfm m \<longrightarrow> wfm env)"
proof (induction ps vals m rule: bindParams_from.induct)
  case (3 p ps x' vals m)
  then obtain w where "bindParam (p_Type p) x' = Inr w"
    "bindParams_from ps vals (mput (p_Name p) w m) = Inr env" by auto
  with "3.IH" [of w] show ?case by auto
qed auto

text \<open>
  C14: Ingress of operation arguments. When the arguments of an update or a query are accepted,
  exactly the declared parameters are bound, and each to a value of its declared type: a string
  parameter to valid UTF-8, a numeric one to a rational that its numeric type admits (so a
  negative amount for a \<open>rat0+\<close> parameter is refused).
\<close>

theorem bindParams_sound:
  assumes "bindParams ps vals = Inr env"
  shows "dom (map_of env) = p_Name ` set ps \<and>
    (\<forall>x v. map_of env x = Some v \<longrightarrow> (\<exists>p \<in> set ps. p_Name p = x \<and> param_ok (p_Type p) v))"
  using bindParams_from_keys [of ps vals "[]" env] bindParams_from_ok [of ps vals "[]" env] assms
  by (auto simp: bindParams_def)

lemma bindParams_sound_witness:
  "map_of [(''k'', VNum 3)] ''k'' = Some (VNum 3) \<and> param_ok ''int0+'' (VNum 3)"
  using bindParams_sound [of "[\<lparr> p_Name = ''k'', p_Type = ''int0+'' \<rparr>]" "[GInt 3]" "[(''k'', VNum 3)]"]
  by (simp add: bindParams_def bindParam_def toRat_def nt_Parse_def nt_Allows_def rat_Sign_def rat_IsInt_def)

lemma bindParams_env_ok: "bindParams ps vals = Inr env \<Longrightarrow> env_ok env"
  using bindParams_from_ok [of ps vals "[]" env] param_ok_vok
  by (fastforce simp: env_ok_def bindParams_def)

lemma bindParams_length: "length vals = length ps \<Longrightarrow> bindParams_from ps vals m \<noteq> Inl ParamIndex"
proof (induction ps vals m rule: bindParams_from.induct)
  case (3 p ps x vals m)
  then show ?case by (auto simp: rbind_eq_Inl rwrap_def split: sum.splits)
qed auto

subsection \<open>The merge loop\<close>

definition joinSlot :: "(rtVal \<Rightarrow> rtVal \<Rightarrow> rtErr + rtVal) \<Rightarrow> rtVal \<Rightarrow> rtVal \<Rightarrow> rtErr + rtVal" where
  "joinSlot fn a b = rbind (fn a b) cloneSlot"

definition clonable :: "rtVal gomap \<Rightarrow> bool" where
  "clonable m \<longleftrightarrow> (\<forall>kv \<in> set m. cloneSlot (snd kv) = Inr (snd kv))"

lemma storable_clonable: "\<forall>kv \<in> set m. storable (snd kv) \<Longrightarrow> clonable m"
  by (simp add: clonable_def clone_storable)

lemma clonable_id: "clonable m \<Longrightarrow> mmapR cloneSlot m = Inr m"
  by (rule mmapR_id) (auto simp: clonable_def)

lemma mergeStep_eq:
  "cloneSlot b = Inr b \<Longrightarrow> mergeStep fn m (k, b) =
     (case map_of m k of
        None \<Rightarrow> Inr (mput k b m)
      | Some a \<Rightarrow> rmap (\<lambda>c. mput k c m) (joinSlot fn a b))"
  by (auto simp: mergeStep_def joinSlot_def rbind_def rmap_def split: option.split sum.split)

definition joined :: "(rtVal \<Rightarrow> rtVal \<Rightarrow> rtErr + rtVal) \<Rightarrow> rtVal gomap \<Rightarrow> rtVal gomap \<Rightarrow> string \<Rightarrow> rtVal option" where
  "joined fn st r k =
     (case map_of r k of
        None \<Rightarrow> map_of st k
      | Some b \<Rightarrow>
          (case map_of st k of
             None \<Rightarrow> Some b
           | Some a \<Rightarrow> (case joinSlot fn a b of Inl e \<Rightarrow> None | Inr c \<Rightarrow> Some c)))"

definition joinable :: "(rtVal \<Rightarrow> rtVal \<Rightarrow> rtErr + rtVal) \<Rightarrow> rtVal gomap \<Rightarrow> rtVal gomap \<Rightarrow> bool" where
  "joinable fn st r \<longleftrightarrow>
     (\<forall>(k, b) \<in> set r. \<forall>a. map_of st k = Some a \<longrightarrow> rok (joinSlot fn a b))"

lemma mergeStep_ok:
  assumes "cloneSlot b = Inr b" and "\<forall>a. map_of m k = Some a \<longrightarrow> rok (joinSlot fn a b)"
  obtains c where "mergeStep fn m (k, b) = Inr (mput k c m)"
    and "joined fn m [(k, b)] k = Some c"
  using assms by (cases "map_of m k") (auto simp: mergeStep_eq joined_def rok_iff)

lemma mergeFold_ok:
  assumes "distinct (map fst es)" and "clonable es"
  shows "rok (foldR (mergeStep fn) m es) \<longleftrightarrow> joinable fn m es"
  using assms
proof (induction es arbitrary: m)
  case (Cons e es)
  obtain k b where e: "e = (k, b)" by (cases e)
  then have b: "cloneSlot b = Inr b" using Cons.prems by (simp add: clonable_def)
  show ?case
  proof (cases "\<forall>a. map_of m k = Some a \<longrightarrow> rok (joinSlot fn a b)")
    case True
    then obtain c where c: "mergeStep fn m (k, b) = Inr (mput k c m)"
      using mergeStep_ok [OF b] by blast
    have "joinable fn (mput k c m) es \<longleftrightarrow> joinable fn m es"
      unfolding joinable_def using Cons.prems e by (intro ball_cong refl) force
    with c True Cons.IH [of "mput k c m"] Cons.prems e show ?thesis
      by (auto simp: joinable_def clonable_def)
  next
    case False
    then obtain a err where "map_of m k = Some a" "joinSlot fn a b = Inl err"
      by (auto simp: not_rok_iff)
    with e b show ?thesis by (auto simp: mergeStep_eq joinable_def)
  qed
qed (simp add: joinable_def)

lemma mergeFold_lookup:
  assumes "distinct (map fst es)" and "clonable es" and "foldR (mergeStep fn) m es = Inr m'"
  shows "map_of m' k = joined fn m es k" and "wfm m \<Longrightarrow> wfm m'"
proof -
  have "map_of m' k = joined fn m es k \<and> (wfm m \<longrightarrow> wfm m')"
    using assms
  proof (induction es arbitrary: m)
    case (Cons e es)
    obtain k0 b where e: "e = (k0, b)" by (cases e)
    then have b: "cloneSlot b = Inr b" using Cons.prems by (simp add: clonable_def)
    from Cons.prems e have "rok (mergeStep fn m (k0, b))" by auto
    with b have "\<forall>a. map_of m k0 = Some a \<longrightarrow> rok (joinSlot fn a b)"
      by (auto simp: mergeStep_eq rok_iff)
    then obtain c where c: "mergeStep fn m (k0, b) = Inr (mput k0 c m)"
      "joined fn m [(k0, b)] k0 = Some c" using mergeStep_ok [OF b] by blast
    have "map_of es k0 = None" using Cons.prems e by (simp add: map_of_eq_None_iff)
    with c Cons.IH [of "mput k0 c m"] Cons.prems e show ?case
      by (cases "k = k0") (auto simp: joined_def clonable_def cong: option.case_cong)
  qed (simp add: joined_def)
  then show "map_of m' k = joined fn m es k" and "wfm m \<Longrightarrow> wfm m'" by auto
qed

lemma order_perm:
  assumes "range_order lord" and "wfm r"
  shows "distinct (map fst (lord r))" and "map_of (lord r) = map_of r"
    and "clonable (lord r) = clonable r" and "joinable fn st (lord r) = joinable fn st r"
proof -
  have m: "mset (lord r) = mset r" using assms(1) by (simp add: range_order_def)
  then have s: "set (lord r) = set r" by (metis set_mset_mset)
  have "mset (map fst (lord r)) = mset (map fst r)" using m by simp
  then show d: "distinct (map fst (lord r))"
    using wfm_distinct [OF assms(2)] by (metis mset_eq_imp_distinct_iff)
  show "map_of (lord r) = map_of r"
    using s d wfm_distinct [OF assms(2)] by (metis map_of_inject_set)
  show "clonable (lord r) = clonable r" "joinable fn st (lord r) = joinable fn st r"
    using s by (simp_all add: clonable_def joinable_def)
qed

lemma mergeSlots_Inr:
  assumes "range_order lord" "wfm r" "clonable r" "wfm st" "clonable st"
  shows "mergeSlots fn lord st r = Inr m \<longleftrightarrow>
    joinable fn st r \<and> wfm m \<and> (\<forall>k. map_of m k = joined fn st r k)"
proof -
  note perm = order_perm [OF assms(1,2)]
  have eq: "mergeSlots fn lord st r = foldR (mergeStep fn) st (lord r)"
    using assms(5) by (simp add: mergeSlots_def clonable_id)
  have j: "joined fn st (lord r) = joined fn st r"
    by (simp add: fun_eq_iff joined_def perm(2))
  have ok: "rok (foldR (mergeStep fn) st (lord r)) \<longleftrightarrow> joinable fn st r"
    using mergeFold_ok [OF perm(1)] perm assms by simp
  show ?thesis
  proof
    assume m: "mergeSlots fn lord st r = Inr m"
    then have "joinable fn st r" using eq ok rok_simps(2) by metis
    with m eq mergeFold_lookup [OF perm(1), of fn st m] perm(3) assms j
    show "joinable fn st r \<and> wfm m \<and> (\<forall>k. map_of m k = joined fn st r k)" by auto
  next
    assume R: "joinable fn st r \<and> wfm m \<and> (\<forall>k. map_of m k = joined fn st r k)"
    with ok obtain m' where m': "foldR (mergeStep fn) st (lord r) = Inr m'" by (auto simp: rok_iff)
    with mergeFold_lookup [OF perm(1) _ m'] perm(3) assms j R have "m' = m"
      by (intro wfm_ext) (auto simp: fun_eq_iff)
    with m' eq show "mergeSlots fn lord st r = Inr m" by simp
  qed
qed

subsection \<open>Properties of the operations\<close>

text \<open>What every replica of the program satisfies: slots under distinct node names, all storable.\<close>

definition wf_vector :: "vectorCRDT \<Rightarrow> bool" where
  "wf_vector v \<longleftrightarrow> wfm (v_state v) \<and> (\<forall>kv \<in> set (v_state v). storable (snd kv))"

definition wf_snapshot :: "rtVal gomap \<Rightarrow> bool" where
  "wf_snapshot r \<longleftrightarrow> wfm r \<and> (\<forall>kv \<in> set r. storable (snd kv))"

text \<open>
  C11: Merging is slot-wise and independent of iteration order. A merge of a remote snapshot
  succeeds exactly when the merge function succeeds on every slot both sides hold; then the new
  state holds exactly the slots of either side, a slot held by one side is kept or adopted as it
  is, and a slot held by both is the merge function's value. The order in which Go's \<open>range\<close>
  visits the remote slots does not appear in the result.
\<close>

theorem mergeRemote_pointwise:
  assumes "range_order lord" and "wf_snapshot r" and "wf_vector v" and "mergeFn ord v = Inr fn"
  shows "mergeRemote ord lord v r = (v', None) \<longleftrightarrow>
    joinable (\<lambda>a b. applyTop (v_funcs v) ord fn [a, b]) (v_state v) r \<and>
    wfm (v_state v') \<and> v' = v\<lparr>v_state := v_state v'\<rparr> \<and>
    (\<forall>k. map_of (v_state v') k =
       joined (\<lambda>a b. applyTop (v_funcs v) ord fn [a, b]) (v_state v) r k)"
    (is "_ \<longleftrightarrow> ?R")
proof -
  let ?f = "\<lambda>a b. applyTop (v_funcs v) ord fn [a, b]"
  have iff: "mergeSlots ?f lord (v_state v) r = Inr m \<longleftrightarrow>
      joinable ?f (v_state v) r \<and> wfm m \<and> (\<forall>k. map_of m k = joined ?f (v_state v) r k)" for m
    using assms by (intro mergeSlots_Inr) (auto simp: wf_snapshot_def wf_vector_def intro: storable_clonable)
  show ?thesis
  proof (cases "mergeSlots ?f lord (v_state v) r")
    case (Inl e)
    with iff [of "v_state v'"] show ?thesis by (auto simp: mergeRemote_def assms(4))
  next
    case (Inr m)
    then have "mergeRemote ord lord v r = (v', None) \<longleftrightarrow> v' = v\<lparr>v_state := m\<rparr>"
      by (auto simp: mergeRemote_def assms(4))
    moreover have "?R \<longleftrightarrow> v' = v\<lparr>v_state := v_state v'\<rparr> \<and> v_state v' = m"
      using iff [of "v_state v'"] Inr by auto
    moreover have "v' = v\<lparr>v_state := m\<rparr> \<longleftrightarrow> v' = v\<lparr>v_state := v_state v'\<rparr> \<and> v_state v' = m"
      by (metis vectorCRDT.select_convs(3) vectorCRDT.surjective vectorCRDT.update_convs(3))
    ultimately show ?thesis by simp
  qed
qed

lemma mergeRemote_pointwise_witness:
  "mergeRemote (\<lambda>m. m) rev
      (NewVector ''b'' TStr (EZip (Some (ERef ''max'' 2 RefPrimitive))) [] [] [])
      [(''a'', VStr ''x'')] =
   (NewVector ''b'' TStr (EZip (Some (ERef ''max'' 2 RefPrimitive))) [] [] []\<lparr>v_state := [(''a'', VStr ''x'')]\<rparr>, None)"
  using mergeRemote_pointwise [OF range_order_id(2), of "[(''a'', VStr ''x'')]"
      "NewVector ''b'' TStr (EZip (Some (ERef ''max'' 2 RefPrimitive))) [] [] []" "\<lambda>m. m"
      "VFunc 2 (CPrim ''max'')"
      "NewVector ''b'' TStr (EZip (Some (ERef ''max'' 2 RefPrimitive))) [] [] []\<lparr>v_state := [(''a'', VStr ''x'')]\<rparr>"]
  by (simp add: NewVector_def wf_snapshot_def wf_vector_def wfm_def mergeFn_def evalFuncVal_def evalTop_def
      at_depth_def refVal_def primOp_def wantFn_def joinable_def joined_def)

lemma mergeRemote_order_irrelevant:
  assumes "range_order l1" "range_order l2" "wf_snapshot r" "wf_vector v"
  shows "mergeRemote ord l1 v r = (v', None) \<longleftrightarrow> mergeRemote ord l2 v r = (v', None)"
proof (cases "mergeFn ord v")
  case (Inl e)
  then show ?thesis by (simp add: mergeRemote_def)
next
  case (Inr fn)
  with assms show ?thesis by (simp add: mergeRemote_pointwise)
qed

text \<open>
  C12: A failing operation changes nothing, and an update writes one slot only. After an update or
  a merge that returns an error the replica is the one before it; after a successful update every
  slot but the calling node's own is unchanged, the own slot holds the new value, and the
  configuration is untouched.
\<close>

theorem update_atomic_and_local:
  "(case Apply ord v a p of
      (v', Some e) \<Rightarrow> v' = v
    | (v', None) \<Rightarrow> \<exists>x. nextSlot ord v a p = Inr x \<and> v' = v\<lparr>v_state := v_state v'\<rparr> \<and>
        map_of (v_state v') = (map_of (v_state v))(v_nodeID v \<mapsto> x)) \<and>
   (case mergeRemote ord lord v r of
      (v', Some e) \<Rightarrow> v' = v
    | (v', None) \<Rightarrow> v' = v\<lparr>v_state := v_state v'\<rparr>) \<and>
   (case MergeWire ord lord v s of
      (v', Some e) \<Rightarrow> v' = v
    | (v', None) \<Rightarrow> v' = v\<lparr>v_state := v_state v'\<rparr>)"
  by (simp add: Apply_def MergeWire_def mergeRemote_def split: sum.split)

lemma rtToAny_err:
  "rtToAny x = Inl e \<Longrightarrow> e = NoValue" "fieldsToAny fs = Inl e \<Longrightarrow> e = NoValue"
  by (induction x and fs rule: rtToAny_fieldsToAny.induct) (auto simp: rbind_eq_Inl)

definition body_err :: "vecErr \<Rightarrow> bool" where
  "body_err e \<longleftrightarrow> (\<exists>r. e = EvalErr r) \<or> e = NotUnary \<or> e = NoValue"

lemma rwrap_EvalErr: "rwrap EvalErr r = Inl e \<Longrightarrow> body_err e"
  by (cases r) (auto simp: body_err_def)

lemma cloneState_err: "cloneState st = Inl e \<Longrightarrow> body_err e"
  by (simp add: cloneState_def rwrap_EvalErr)

lemma Query_body_err:
  assumes "map_of (v_queries v) name = Some m" "bindParams (mt_Params m) ps = Inr env"
    and "Query ord v name ps = Inl e" "ValidateQuery v name ps = None"
  shows "body_err e"
proof (cases "rwrap EvalErr (evalTop (v_funcs v) ord env (mt_Body m))")
  case (Inl e')
  with assms show ?thesis by (auto simp: Query_def dest: rwrap_EvalErr)
next
  case (Inr f)
  have run: "rbind (cloneState (v_state v)) (\<lambda>snap.
      rbind (rwrap EvalErr (applyTop (v_funcs v) ord f [VVec snap])) rtToAny) = Inl e \<Longrightarrow> body_err e"
    by (auto simp: rbind_eq_Inl body_err_def dest: cloneState_err rwrap_EvalErr rtToAny_err)
  show ?thesis
  proof (cases f)
    case (VFunc a c)
    with assms Inr run show ?thesis
      by (cases "a = 1") (simp_all add: Query_def, simp add: body_err_def)
  qed (use assms Inr in \<open>auto simp: Query_def body_err_def\<close>)
qed

text \<open>
  C15: The preflight of a query is exact. \<open>ValidateQuery\<close> fails with an error exactly when \<open>Query\<close>
  stops there with the same error, and once it accepts, \<open>Query\<close> can only fail while evaluating
  the body: it never reports an unknown query or a bad parameter.
\<close>

theorem ValidateQuery_exact:
  "case ValidateQuery v name ps of
     Some e \<Rightarrow> Query ord v name ps = Inl e
   | None \<Rightarrow> (case Query ord v name ps of
       Inl e \<Rightarrow> (\<exists>r. e = EvalErr r) \<or> e = NotUnary \<or> e = NoValue
     | Inr x \<Rightarrow> True)"
proof (cases "ValidateQuery v name ps")
  case None
  then obtain m env where "map_of (v_queries v) name = Some m" "bindParams (mt_Params m) ps = Inr env"
    by (auto simp: ValidateQuery_def split: option.splits if_splits sum.splits)
  with Query_body_err [OF this _ None] None show ?thesis
    by (auto simp: body_err_def split: sum.split)
qed (simp add: Query_def)

subsection \<open>The two transports agree\<close>

definition conforming :: "elemT \<Rightarrow> rtVal gomap \<Rightarrow> bool" where
  "conforming t st \<longleftrightarrow> wfm st \<and> (\<forall>kv \<in> set st. conforms t (snd kv))"

lemma conforming_storable: "conforming t st \<Longrightarrow> wf_snapshot st"
  by (auto simp: conforming_def wf_snapshot_def intro: conforms_storable)

lemma encode_decode:
  "wf_elem t \<Longrightarrow> \<forall>kv \<in> set st. conforms t (snd kv) \<Longrightarrow>
     \<exists>w. mmapR slotToWire st = Inr w \<and> decodeSlots t w = Inr st"
proof (induction st)
  case (Cons kv st)
  obtain k v where kv: "kv = (k, v)" by (cases kv)
  with Cons obtain w where w: "mmapR slotToWire st = Inr w" "decodeSlots t w = Inr st" by auto
  from kv Cons.prems obtain s where "slotToWire v = Inr s" "wireToSlot s t = Inr v"
    using slotToWire_storable(1) conforms_storable wire_roundtrip by (metis list.set_intros(1) snd_conv)
  with kv w show ?case by simp
qed simp

text \<open>
  C13: Sync merges what gossip merges. For a replica whose slots are members of the element type,
  encoding it with \<open>SnapshotWire\<close> never fails, and merging the encoded snapshot into another
  replica of the same type does exactly what merging the plain snapshot does, errors included.
\<close>

theorem wire_merge_agrees:
  assumes "wf_elem (v_elem v)" and "conforming (v_elem v) (v_state v)" and "v_elem u = v_elem v"
  shows "\<exists>w. SnapshotWire v = Inr w \<and> Snapshot v = Inr (v_state v) \<and>
    MergeWire ord lord u w = mergeRemote ord lord u (v_state v)"
proof -
  obtain w where w: "mmapR slotToWire (v_state v) = Inr w" "decodeSlots (v_elem v) w = Inr (v_state v)"
    using encode_decode [OF assms(1)] assms(2) by (auto simp: conforming_def)
  moreover have "Snapshot v = Inr (v_state v)"
    unfolding Snapshot_def using conforming_storable [OF assms(2)]
    by (intro clonable_id storable_clonable) (simp add: wf_snapshot_def)
  ultimately show ?thesis
    using assms(3) by (simp add: SnapshotWire_def MergeWire_def)
qed

lemma wire_merge_agrees_witness:
  "\<exists>w. SnapshotWire (NewVector ''a'' (TNum (NumType DInt SAny)) (EZip None) [] [] []\<lparr>v_state := [(''a'', VNum 2)]\<rparr>) = Inr w \<and>
     Snapshot (NewVector ''a'' (TNum (NumType DInt SAny)) (EZip None) [] [] []\<lparr>v_state := [(''a'', VNum 2)]\<rparr>) = Inr [(''a'', VNum 2)] \<and>
     MergeWire (\<lambda>m. m) rev (NewVector ''b'' (TNum (NumType DInt SAny)) (EZip None) [] [] []) w =
       mergeRemote (\<lambda>m. m) rev (NewVector ''b'' (TNum (NumType DInt SAny)) (EZip None) [] [] []) [(''a'', VNum 2)]"
  using wire_merge_agrees [of "NewVector ''a'' (TNum (NumType DInt SAny)) (EZip None) [] [] []\<lparr>v_state := [(''a'', VNum 2)]\<rparr>"
      "NewVector ''b'' (TNum (NumType DInt SAny)) (EZip None) [] [] []" "\<lambda>m. m" rev]
  by (simp add: NewVector_def conforming_def wfm_def nt_Allows_iff rat_IsInt_def)

text \<open>Every slot a wire snapshot brings in is a member of the element type.\<close>

lemma decodeSlots_conforms:
  "decodeSlots t w = Inr r \<Longrightarrow> wf_elem t \<Longrightarrow> (\<forall>kv \<in> set r. conforms t (snd kv)) \<and> map fst r = map fst w"
proof (induction w arbitrary: r)
  case (Cons kw w)
  obtain k s where "kw = (k, s)" by (cases kw)
  with Cons.prems obtain x xa where x: "wireToSlot s t = Inr x" "decodeSlots t w = Inr xa"
    "r = (k, x) # xa" by auto
  have "conforms t x" using Cons.prems(2) x(1) by (rule wireToSlot_conforms)
  with Cons.IH [OF x(2) Cons.prems(2)] x(3) \<open>kw = (k, s)\<close> show ?case by simp
qed simp

end
