(* ===== verification/Model.thy ===== *)
theory Model
  imports Vector
begin

text \<open>
  builder/builder.go: \<open>Model\<close>, the validated form of one vector type, and \<open>Model.New\<close>, the replica
  a node creates from it.
\<close>

record model =
  mo_Name :: string
  mo_Elem :: elemT
  mo_Merge :: expr
  mo_Queries :: "crdt_method gomap"
  mo_Updates :: "crdt_method gomap"
  mo_Funcs :: "func gomap"

definition New :: "model \<Rightarrow> string \<Rightarrow> vectorCRDT" where
  "New m nodeID = NewVector nodeID (mo_Elem m) (mo_Merge m) (mo_Queries m) (mo_Updates m) (mo_Funcs m)"

end
