(* ===== verification/TypeReg.thy ===== *)
theory TypeReg
  imports Model
begin

text \<open>
  builder/typereg.go: the type registry. \<open>resolveTypes\<close> turns the type definitions of a plan into
  element descriptors for struct types, aliases (\<open>type X = V.Elem\<close>) and vector types, resolving on
  demand with one cycle detection for all three; \<open>resolveToken\<close> is the lookup on the finished
  registry. A vector of an inline struct has \<open>Inner\<close> set, a vector of a named element has not.

  The maps of the registry and the two closures' variables \<open>vectorElem\<close> and \<open>resolving\<close> are the
  record \<open>tyState\<close>, threaded through; an error abandons the build, so no state is returned with
  it. Each nested resolution marks one more declared name as being resolved: fuel \<open>n\<close> counts them,
  and as much as there are declarations is enough (\<open>resolveTypes_total\<close>).
\<close>

datatype tyErr =
    TyTwice string
  | TyReserved string
  | TyMember string string
  | TyNotVector string
  | TyStructNotVector string
  | TyVectorUse string
  | TyUnknown string
  | TyDupField string
  | TyField string tyErr
  | TyRecStruct string
  | TyRecursive string
  | TyStruct string tyErr
  | TyType string tyErr
  | TyFuel

record typeReg =
  tr_models :: "model gomap"
  tr_structs :: "elemT gomap"
  tr_aliases :: "elemT gomap"
  tr_vectorOrder :: "string list"

definition splitDotted :: "string \<Rightarrow> (string \<times> string) option" where
  "splitDotted tok =
     (if CHR ''.'' \<in> set tok
      then Some (takeWhile (\<lambda>c. c \<noteq> CHR ''.'') tok, tl (dropWhile (\<lambda>c. c \<noteq> CHR ''.'') tok))
      else None)"

definition isVector :: "typeReg \<Rightarrow> string \<Rightarrow> bool" where
  "isVector r tok =
     (case splitDotted tok of Some _ \<Rightarrow> False | None \<Rightarrow> map_of (tr_models r) tok \<noteq> None)"

definition resolveToken :: "typeReg \<Rightarrow> string \<Rightarrow> tyErr + elemT" where
  "resolveToken r tok =
     (case splitDotted tok of
        Some (base, member) \<Rightarrow>
          if member \<noteq> ''Elem'' then Inl (TyMember member tok)
          else (case map_of (tr_models r) base of
                  None \<Rightarrow> Inl (TyNotVector base)
                | Some m \<Rightarrow> Inr (mo_Elem m))
      | None \<Rightarrow>
          if tok = ''string'' then Inr TStr
          else case nt_Parse tok of Some nt \<Rightarrow> Inr (TNum nt) | None \<Rightarrow>
               case map_of (tr_structs r) tok of Some s \<Rightarrow> Inr s | None \<Rightarrow>
               case map_of (tr_aliases r) tok of Some a \<Rightarrow> Inr a | None \<Rightarrow>
               case map_of (tr_models r) tok of Some m \<Rightarrow> Inl (TyVectorUse tok)
               | None \<Rightarrow> Inl (TyUnknown tok))"

subsection \<open>Collecting the definitions\<close>

text \<open>\<open>structDefs\<close>, \<open>vectorDefs\<close> and \<open>aliasDefs\<close>; a vector's definition is an inline field list or
  an element token.\<close>

record tyDefs =
  df_structs :: "fieldSpec list gomap"
  df_vectors :: "(fieldSpec list + string) gomap"
  df_aliases :: "string gomap"
  df_order :: "string list"
  df_vectorOrder :: "string list"

definition noDefs :: tyDefs where
  "noDefs = \<lparr> df_structs = [], df_vectors = [], df_aliases = [], df_order = [], df_vectorOrder = [] \<rparr>"

definition reserved :: "string \<Rightarrow> bool" where
  "reserved nm \<longleftrightarrow> nt_Parse nm \<noteq> None \<or> nm = ''vector'' \<or> nm = ''bool'' \<or> nm = ''string''"

definition collect :: "tyDefs \<Rightarrow> typeDef \<Rightarrow> tyErr + tyDefs" where
  "collect D td =
     (let nm = td_Name td; D' = D\<lparr>df_order := df_order D @ [nm]\<rparr> in
      if nm \<in> set (df_order D) then Inl (TyTwice nm)
      else if reserved nm then Inl (TyReserved nm)
      else case td_Elem td of
          KindStruct fs \<Rightarrow> Inr (D'\<lparr>df_structs := mput nm fs (df_structs D)\<rparr>)
        | KindVector e \<Rightarrow>
            Inr (D'\<lparr>df_vectors := mput nm (Inr e) (df_vectors D), df_vectorOrder := df_vectorOrder D @ [nm]\<rparr>)
        | KindVectorInner fs \<Rightarrow>
            Inr (D'\<lparr>df_vectors := mput nm (Inl fs) (df_vectors D), df_vectorOrder := df_vectorOrder D @ [nm]\<rparr>)
        | KindElemRef e \<Rightarrow> Inr (D'\<lparr>df_aliases := mput nm e (df_aliases D)\<rparr>))"

subsection \<open>Resolution\<close>

record tyState =
  ts_structs :: "elemT gomap"
  ts_aliases :: "elemT gomap"
  ts_vectorElem :: "elemT gomap"
  ts_resolving :: "string list"

definition newTyState :: tyState where
  "newTyState = \<lparr> ts_structs = [], ts_aliases = [], ts_vectorElem = [], ts_resolving = [] \<rparr>"

text \<open>\<open>resolving[name] = true\<close> and \<open>resolving[name] = false\<close>.\<close>

definition enter :: "string \<Rightarrow> tyState \<Rightarrow> tyState" where
  "enter nm st = st\<lparr>ts_resolving := nm # ts_resolving st\<rparr>"

definition leave :: "string \<Rightarrow> tyState \<Rightarrow> tyState" where
  "leave nm st = st\<lparr>ts_resolving := removeAll nm (ts_resolving st)\<rparr>"

text \<open>A struct element is renamed to the alias and exposed as a struct type of that name.\<close>

definition renamed :: "string \<Rightarrow> elemT \<Rightarrow> elemT" where
  "renamed nm e = (case e of TStruct _ fs \<Rightarrow> TStruct nm fs | _ \<Rightarrow> e)"

definition isStructT :: "elemT \<Rightarrow> bool" where
  "isStructT e = (case e of TStruct _ _ \<Rightarrow> True | _ \<Rightarrow> False)"

definition putAlias :: "string \<Rightarrow> elemT \<Rightarrow> tyState \<Rightarrow> tyState" where
  "putAlias nm e st =
     (if isStructT e
      then st\<lparr>ts_structs := mput nm (renamed nm e) (ts_structs st), ts_aliases := mput nm (renamed nm e) (ts_aliases st)\<rparr>
      else st\<lparr>ts_aliases := mput nm e (ts_aliases st)\<rparr>)"

function (sequential) tyToken :: "tyDefs \<Rightarrow> nat \<Rightarrow> tyState \<Rightarrow> string \<Rightarrow> tyErr + elemT \<times> tyState"
and tyFields :: "tyDefs \<Rightarrow> nat \<Rightarrow> tyState \<Rightarrow> fieldSpec list \<Rightarrow> string list \<Rightarrow> tyErr + (string \<times> elemT) list \<times> tyState"
and resolveStruct :: "tyDefs \<Rightarrow> nat \<Rightarrow> tyState \<Rightarrow> string \<Rightarrow> tyErr + elemT \<times> tyState"
and resolveVectorElem :: "tyDefs \<Rightarrow> nat \<Rightarrow> tyState \<Rightarrow> string \<Rightarrow> tyErr + elemT \<times> tyState"
and resolveAlias :: "tyDefs \<Rightarrow> nat \<Rightarrow> tyState \<Rightarrow> string \<Rightarrow> tyErr + elemT \<times> tyState"
where
  "tyToken D n st tok =
     (case splitDotted tok of
        Some (base, member) \<Rightarrow>
          if member \<noteq> ''Elem'' then Inl (TyMember member tok)
          else resolveVectorElem D n st base
      | None \<Rightarrow>
          if tok = ''string'' then Inr (TStr, st)
          else case nt_Parse tok of
              Some nt \<Rightarrow> Inr (TNum nt, st)
            | None \<Rightarrow>
                if map_of (df_structs D) tok \<noteq> None then resolveStruct D n st tok
                else if map_of (df_aliases D) tok \<noteq> None then resolveAlias D n st tok
                else if map_of (df_vectors D) tok \<noteq> None then Inl (TyVectorUse tok)
                else Inl (TyUnknown tok))"
| "tyFields D n st [] seen = Inr ([], st)"
| "tyFields D n st (f # fs) seen =
     (if fs_Name f \<in> set seen then Inl (TyDupField (fs_Name f))
      else rbind (rwrap (TyField (fs_Name f)) (tyToken D n st (fs_Type f))) (\<lambda>(t, st1).
           rbind (tyFields D n st1 fs (fs_Name f # seen)) (\<lambda>(ts, st2).
           Inr ((fs_Name f, t) # ts, st2))))"
| "resolveStruct D n st nm =
     (case map_of (ts_structs st) nm of
        Some s \<Rightarrow> Inr (s, st)
      | None \<Rightarrow>
          if nm \<in> set (ts_resolving st) then Inl (TyRecStruct nm)
          else if n = 0 then Inl TyFuel
          else
            rbind (rwrap (TyStruct nm)
              (tyFields D (n - 1) (enter nm st) (case map_of (df_structs D) nm of None \<Rightarrow> [] | Some fs \<Rightarrow> fs) []))
              (\<lambda>(fs, st1).
              let s = TStruct nm fs; st2 = leave nm st1 in
              Inr (s, st2\<lparr>ts_structs := mput nm s (ts_structs st2)\<rparr>)))"
| "resolveVectorElem D n st nm =
     (case map_of (ts_vectorElem st) nm of
        Some e \<Rightarrow> Inr (e, st)
      | None \<Rightarrow>
          (case map_of (df_vectors D) nm of
             None \<Rightarrow>
               if map_of (df_structs D) nm \<noteq> None then Inl (TyStructNotVector nm) else Inl (TyNotVector nm)
           | Some vd \<Rightarrow>
               if nm \<in> set (ts_resolving st) then Inl (TyRecursive nm)
               else if n = 0 then Inl TyFuel
               else
                 rbind (rwrap (TyType nm)
                   (case vd of
                      Inl fs \<Rightarrow> rbind (tyFields D (n - 1) (enter nm st) fs []) (\<lambda>(ts, st1). Inr (TStruct nm ts, st1))
                    | Inr tok \<Rightarrow> tyToken D (n - 1) (enter nm st) tok))
                   (\<lambda>(e, st1).
                   let st2 = leave nm st1 in Inr (e, st2\<lparr>ts_vectorElem := mput nm e (ts_vectorElem st2)\<rparr>))))"
| "resolveAlias D n st nm =
     (case map_of (ts_aliases st) nm of
        Some a \<Rightarrow> Inr (a, st)
      | None \<Rightarrow>
          if nm \<in> set (ts_resolving st) then Inl (TyRecursive nm)
          else if n = 0 then Inl TyFuel
          else
            rbind (rwrap (TyType nm)
              (tyToken D (n - 1) (enter nm st) (case map_of (df_aliases D) nm of None \<Rightarrow> [] | Some tok \<Rightarrow> tok)))
              (\<lambda>(e, st1). Inr (renamed nm e, putAlias nm e (leave nm st1))))"
  by pat_completeness auto

termination
proof (relation "measures
    [case_sum
       (case_sum (\<lambda>(D, n, st, tok). n) (\<lambda>(D, n, st, fs, seen). n))
       (case_sum (\<lambda>(D, n, st, nm). n) (case_sum (\<lambda>(D, n, st, nm). n) (\<lambda>(D, n, st, nm). n))),
     case_sum
       (case_sum (\<lambda>_. 1) (\<lambda>(D, n, st, fs, seen). 2 + length fs))
       (case_sum (\<lambda>_. 0) (case_sum (\<lambda>_. 0) (\<lambda>_. 0)))]", goal_cases)
  case 1
  then show ?case by simp
qed simp_all

declare tyToken.simps [simp del] resolveStruct.simps [simp del] resolveVectorElem.simps [simp del]
  resolveAlias.simps [simp del]

text \<open>The final loop over the declarations; each vector gets its model.\<close>

definition newModel :: "string \<Rightarrow> elemT \<Rightarrow> model" where
  "newModel nm e =
     \<lparr> mo_Name = nm, mo_Elem = e, mo_Merge = ENumLit 0, mo_Queries = [], mo_Updates = [], mo_Funcs = [] \<rparr>"

definition resolveOne :: "tyDefs \<Rightarrow> nat \<Rightarrow> tyState \<times> model gomap \<Rightarrow> string \<Rightarrow> tyErr + tyState \<times> model gomap" where
  "resolveOne D n sm nm =
     (case sm of (st, ms) \<Rightarrow>
        if map_of (df_structs D) nm \<noteq> None then rmap (\<lambda>(e, st'). (st', ms)) (resolveStruct D n st nm)
        else if map_of (df_aliases D) nm \<noteq> None then rmap (\<lambda>(e, st'). (st', ms)) (resolveAlias D n st nm)
        else if map_of (df_vectors D) nm \<noteq> None
        then rmap (\<lambda>(e, st'). (st', mput nm (newModel nm e) ms)) (resolveVectorElem D n st nm)
        else Inr (st, ms))"

definition resolveTypes :: "typeDef list \<Rightarrow> tyErr + typeReg" where
  "resolveTypes tds =
     rbind (foldR collect noDefs tds) (\<lambda>D.
     rbind (foldR (resolveOne D (length tds)) (newTyState, []) (df_order D)) (\<lambda>(st, ms).
     Inr \<lparr> tr_models = ms, tr_structs = ts_structs st, tr_aliases = ts_aliases st,
            tr_vectorOrder = df_vectorOrder D \<rparr>))"

subsection \<open>Termination\<close>

definition names :: "tyDefs \<Rightarrow> string set" where
  "names D = dom (map_of (df_structs D)) \<union> dom (map_of (df_vectors D)) \<union> dom (map_of (df_aliases D))"

definition left :: "tyDefs \<Rightarrow> tyState \<Rightarrow> nat" where
  "left D st = card (names D - set (ts_resolving st))"

text \<open>The fuel error under the contexts the code wraps around an error.\<close>

fun fuel_err :: "tyErr \<Rightarrow> bool" where
  "fuel_err TyFuel = True"
| "fuel_err (TyField f e) = fuel_err e"
| "fuel_err (TyStruct s e) = fuel_err e"
| "fuel_err (TyType s e) = fuel_err e"
| "fuel_err e = False"

lemma finite_names [simp]: "finite (names D)"
  by (simp add: names_def finite_dom_map_of)

lemma left_enter:
  "nm \<in> names D \<Longrightarrow> nm \<notin> set (ts_resolving st) \<Longrightarrow> left D st = Suc (left D (enter nm st))"
proof -
  assume nm: "nm \<in> names D" "nm \<notin> set (ts_resolving st)"
  have "names D - set (ts_resolving st) = insert nm (names D - set (ts_resolving (enter nm st)))"
    using nm by (auto simp: enter_def)
  moreover have "nm \<notin> names D - set (ts_resolving (enter nm st))" by (simp add: enter_def)
  ultimately show ?thesis unfolding left_def by (simp only: card_insert_disjoint finite_Diff finite_names not_False_eq_True)
qed

lemma left_same: "set (ts_resolving st) = set (ts_resolving st') \<Longrightarrow> left D st = left D st'"
  by (simp add: left_def)

lemma resolving_leave:
  "nm \<notin> set (ts_resolving st) \<Longrightarrow> set (ts_resolving st1) = set (ts_resolving (enter nm st)) \<Longrightarrow>
   set (ts_resolving (leave nm st1)) = set (ts_resolving st)"
  by (auto simp: enter_def leave_def)

lemma resolving_putAlias [simp]: "ts_resolving (putAlias nm e st) = ts_resolving st"
  by (simp add: putAlias_def)

subsection \<open>Inversion\<close>

definition structFields :: "tyDefs \<Rightarrow> string \<Rightarrow> fieldSpec list" where
  "structFields D nm = (case map_of (df_structs D) nm of None \<Rightarrow> [] | Some fs \<Rightarrow> fs)"

definition aliasToken :: "tyDefs \<Rightarrow> string \<Rightarrow> string" where
  "aliasToken D nm = (case map_of (df_aliases D) nm of None \<Rightarrow> [] | Some tok \<Rightarrow> tok)"

text \<open>What a token stands for.\<close>

datatype tokKind = KElemOf string | KLeaf elemT | KStruct string | KAlias string | KBad tyErr

definition tokKind :: "tyDefs \<Rightarrow> string \<Rightarrow> tokKind" where
  "tokKind D tok =
     (case splitDotted tok of
        Some (base, member) \<Rightarrow> if member \<noteq> ''Elem'' then KBad (TyMember member tok) else KElemOf base
      | None \<Rightarrow>
          if tok = ''string'' then KLeaf TStr
          else case nt_Parse tok of
              Some nt \<Rightarrow> KLeaf (TNum nt)
            | None \<Rightarrow>
                if map_of (df_structs D) tok \<noteq> None then KStruct tok
                else if map_of (df_aliases D) tok \<noteq> None then KAlias tok
                else if map_of (df_vectors D) tok \<noteq> None then KBad (TyVectorUse tok)
                else KBad (TyUnknown tok))"

lemma tyToken_kind:
  "tyToken D n st tok =
     (case tokKind D tok of
        KElemOf base \<Rightarrow> resolveVectorElem D n st base
      | KLeaf t \<Rightarrow> Inr (t, st)
      | KStruct nm \<Rightarrow> resolveStruct D n st nm
      | KAlias nm \<Rightarrow> resolveAlias D n st nm
      | KBad e \<Rightarrow> Inl e)"
  unfolding tyToken.simps [of D n st tok] tokKind_def
  by (cases "splitDotted tok"; cases "tok = ''string''"; cases "nt_Parse tok"; cases "map_of (df_structs D) tok";
      cases "map_of (df_aliases D) tok"; cases "map_of (df_vectors D) tok") (auto split: prod.split)

lemma tokKind_simps:
  "tokKind D tok = KStruct nm \<Longrightarrow> nm = tok \<and> map_of (df_structs D) nm \<noteq> None"
  "tokKind D tok = KAlias nm \<Longrightarrow> nm = tok \<and> map_of (df_structs D) nm = None \<and> map_of (df_aliases D) nm \<noteq> None"
  "tokKind D tok = KBad e \<Longrightarrow> \<not> fuel_err e"
  by (auto simp: tokKind_def split: option.split_asm prod.split_asm if_split_asm)

lemma resolveStruct_eq:
  "resolveStruct D n st nm =
     (case map_of (ts_structs st) nm of
        Some s \<Rightarrow> Inr (s, st)
      | None \<Rightarrow>
          if nm \<in> set (ts_resolving st) then Inl (TyRecStruct nm)
          else if n = 0 then Inl TyFuel
          else rbind (rwrap (TyStruct nm) (tyFields D (n - 1) (enter nm st) (structFields D nm) [])) (\<lambda>(fs, st1).
            Inr (TStruct nm fs, (leave nm st1)\<lparr>ts_structs := mput nm (TStruct nm fs) (ts_structs (leave nm st1))\<rparr>)))"
  unfolding resolveStruct.simps [of D n st nm] structFields_def Let_def by (rule refl)

text \<open>The body of a vector definition.\<close>

definition vectorBody :: "tyDefs \<Rightarrow> nat \<Rightarrow> tyState \<Rightarrow> string \<Rightarrow> fieldSpec list + string \<Rightarrow> tyErr + elemT \<times> tyState" where
  "vectorBody D n st nm vd =
     (case vd of
        Inl fs \<Rightarrow> rbind (tyFields D n st fs []) (\<lambda>(ts, st1). Inr (TStruct nm ts, st1))
      | Inr tok \<Rightarrow> tyToken D n st tok)"

lemma resolveStruct_Inr:
  assumes "resolveStruct D n st nm = Inr (t, st')"
  obtains (memo) "map_of (ts_structs st) nm = Some t" "st' = st"
  | (new) fs st1 where "map_of (ts_structs st) nm = None" "nm \<notin> set (ts_resolving st)" "n \<noteq> 0"
      "tyFields D (n - 1) (enter nm st) (structFields D nm) [] = Inr (fs, st1)" "t = TStruct nm fs"
      "st' = (leave nm st1)\<lparr>ts_structs := mput nm (TStruct nm fs) (ts_structs (leave nm st1))\<rparr>"
  using assms unfolding resolveStruct_eq by (auto split: option.split_asm if_split_asm)

lemma resolveVectorElem_Inr:
  assumes "resolveVectorElem D n st nm = Inr (t, st')"
  obtains (memo) "map_of (ts_vectorElem st) nm = Some t" "st' = st"
  | (new) vd st1 where "map_of (ts_vectorElem st) nm = None" "map_of (df_vectors D) nm = Some vd"
      "nm \<notin> set (ts_resolving st)" "n \<noteq> 0" "vectorBody D (n - 1) (enter nm st) nm vd = Inr (t, st1)"
      "st' = (leave nm st1)\<lparr>ts_vectorElem := mput nm t (ts_vectorElem (leave nm st1))\<rparr>"
  using assms unfolding resolveVectorElem.simps [of D n st nm] vectorBody_def [symmetric] Let_def
  by (auto split: option.split_asm if_split_asm)

lemma resolveAlias_Inr:
  assumes "resolveAlias D n st nm = Inr (t, st')"
  obtains (memo) "map_of (ts_aliases st) nm = Some t" "st' = st"
  | (new) e st1 where "map_of (ts_aliases st) nm = None" "nm \<notin> set (ts_resolving st)" "n \<noteq> 0"
      "tyToken D (n - 1) (enter nm st) (aliasToken D nm) = Inr (e, st1)" "t = renamed nm e"
      "st' = putAlias nm e (leave nm st1)"
  using assms unfolding resolveAlias.simps [of D n st nm] aliasToken_def [symmetric]
  by (auto split: option.split_asm if_split_asm)

lemma resolve_fuel:
  "resolveStruct D n st nm = Inl e \<Longrightarrow> fuel_err e \<Longrightarrow> nm \<notin> set (ts_resolving st) \<and>
     (n = 0 \<or> map_of (ts_structs st) nm = None \<and> n \<noteq> 0 \<and> (\<exists>e'. tyFields D (n - 1) (enter nm st) (structFields D nm) [] = Inl e' \<and> fuel_err e'))"
  "resolveVectorElem D n st nm = Inl e \<Longrightarrow> fuel_err e \<Longrightarrow> nm \<notin> set (ts_resolving st) \<and>
     (\<exists>vd. map_of (df_vectors D) nm = Some vd \<and>
        (n = 0 \<or> map_of (ts_vectorElem st) nm = None \<and> n \<noteq> 0 \<and> (\<exists>e'. vectorBody D (n - 1) (enter nm st) nm vd = Inl e' \<and> fuel_err e')))"
  "resolveAlias D n st nm = Inl e \<Longrightarrow> fuel_err e \<Longrightarrow> nm \<notin> set (ts_resolving st) \<and>
     (n = 0 \<or> map_of (ts_aliases st) nm = None \<and> n \<noteq> 0 \<and> (\<exists>e'. tyToken D (n - 1) (enter nm st) (aliasToken D nm) = Inl e' \<and> fuel_err e'))"
    subgoal unfolding resolveStruct_eq by (auto simp: rbind_eq_Inl rwrap_eq_Inl split: option.split_asm if_split_asm)
    subgoal unfolding resolveVectorElem.simps [of D n st nm] vectorBody_def [symmetric] Let_def
      by (auto simp: rbind_eq_Inl rwrap_eq_Inl split: option.split_asm if_split_asm)
    subgoal unfolding resolveAlias.simps [of D n st nm] aliasToken_def [symmetric]
      by (auto simp: rbind_eq_Inl rwrap_eq_Inl split: option.split_asm if_split_asm)
  done

subsection \<open>What resolution establishes\<close>

definition den :: "tyDefs \<Rightarrow> tyState \<Rightarrow> string \<Rightarrow> elemT option" where
  "den D st tok =
     (case tokKind D tok of
        KElemOf base \<Rightarrow> map_of (ts_vectorElem st) base
      | KLeaf t \<Rightarrow> Some t
      | KStruct nm \<Rightarrow> map_of (ts_structs st) nm
      | KAlias nm \<Rightarrow> map_of (ts_aliases st) nm
      | KBad e \<Rightarrow> None)"

definition flds :: "tyDefs \<Rightarrow> tyState \<Rightarrow> fieldSpec list \<Rightarrow> (string \<times> elemT) list \<Rightarrow> bool" where
  "flds D st fs ts \<longleftrightarrow> list_all2 (\<lambda>f kt. fst kt = fs_Name f \<and> den D st (fs_Type f) = Some (snd kt)) fs ts"

definition vec_den :: "tyDefs \<Rightarrow> tyState \<Rightarrow> string \<Rightarrow> fieldSpec list + string \<Rightarrow> elemT \<Rightarrow> bool" where
  "vec_den D st nm vd e =
     (case vd of Inl fs \<Rightarrow> \<exists>ts. e = TStruct nm ts \<and> flds D st fs ts | Inr tok \<Rightarrow> den D st tok = Some e)"

definition sub :: "tyState \<Rightarrow> tyState \<Rightarrow> bool" where
  "sub st st' \<longleftrightarrow> map_of (ts_structs st) \<subseteq>\<^sub>m map_of (ts_structs st') \<and>
     map_of (ts_aliases st) \<subseteq>\<^sub>m map_of (ts_aliases st') \<and>
     map_of (ts_vectorElem st) \<subseteq>\<^sub>m map_of (ts_vectorElem st')"

definition ext :: "tyState \<Rightarrow> tyState \<Rightarrow> bool" where
  "ext st st' \<longleftrightarrow> sub st st' \<and> set (ts_resolving st') = set (ts_resolving st) \<and>
     (\<forall>x \<in> set (ts_resolving st). map_of (ts_structs st') x = map_of (ts_structs st) x \<and>
        map_of (ts_aliases st') x = map_of (ts_aliases st) x \<and>
        map_of (ts_vectorElem st') x = map_of (ts_vectorElem st) x)"

text \<open>Every memoized descriptor is the meaning of its declaration in the current state.\<close>

definition entryS :: "tyDefs \<Rightarrow> tyState \<Rightarrow> string \<Rightarrow> elemT \<Rightarrow> bool" where
  "entryS D st nm e \<longleftrightarrow> wf_elem e \<and>
     (case map_of (df_structs D) nm of
        Some fs \<Rightarrow> \<exists>ts. e = TStruct nm ts \<and> flds D st fs ts
      | None \<Rightarrow> map_of (ts_aliases st) nm = Some e)"

definition entryA :: "tyDefs \<Rightarrow> tyState \<Rightarrow> string \<Rightarrow> elemT \<Rightarrow> bool" where
  "entryA D st nm e \<longleftrightarrow> wf_elem e \<and> map_of (df_structs D) nm = None \<and>
     (\<exists>e'. den D st (aliasToken D nm) = Some e' \<and> e = renamed nm e') \<and>
     (isStructT e \<longrightarrow> map_of (ts_structs st) nm = Some e)"

definition entryV :: "tyDefs \<Rightarrow> tyState \<Rightarrow> string \<Rightarrow> elemT \<Rightarrow> bool" where
  "entryV D st nm e \<longleftrightarrow> wf_elem e \<and> (\<exists>vd. map_of (df_vectors D) nm = Some vd \<and> vec_den D st nm vd e)"

definition tinv :: "tyDefs \<Rightarrow> tyState \<Rightarrow> bool" where
  "tinv D st \<longleftrightarrow> (\<forall>nm e. (map_of (ts_structs st) nm = Some e \<longrightarrow> entryS D st nm e) \<and>
     (map_of (ts_aliases st) nm = Some e \<longrightarrow> entryA D st nm e) \<and>
     (map_of (ts_vectorElem st) nm = Some e \<longrightarrow> entryV D st nm e))"

lemma sub_refl [simp]: "sub st st"
  by (simp add: sub_def)

lemma sub_trans: "sub a b \<Longrightarrow> sub b c \<Longrightarrow> sub a c"
  unfolding sub_def by (blast intro: map_le_trans)

lemma ext_refl [simp]: "ext st st"
  by (simp add: ext_def)

lemma ext_trans: "ext a b \<Longrightarrow> ext b c \<Longrightarrow> ext a c"
  unfolding ext_def by (auto intro: sub_trans)

lemma ext_sub: "ext a b \<Longrightarrow> sub a b"
  by (simp add: ext_def)

lemma map_leD: "m \<subseteq>\<^sub>m m' \<Longrightarrow> m x = Some y \<Longrightarrow> m' x = Some y"
  by (metis domI map_le_def)

lemma den_mono: "sub st st' \<Longrightarrow> den D st tok = Some t \<Longrightarrow> den D st' tok = Some t"
  by (auto simp: den_def sub_def split: tokKind.splits intro: map_leD)

lemma flds_mono: "sub st st' \<Longrightarrow> flds D st fs ts \<Longrightarrow> flds D st' fs ts"
  unfolding flds_def by (erule list_all2_mono) (auto intro: den_mono)

lemma vec_den_mono: "sub st st' \<Longrightarrow> vec_den D st nm vd e \<Longrightarrow> vec_den D st' nm vd e"
  by (auto simp: vec_den_def split: sum.splits intro: den_mono flds_mono)

lemma entry_mono:
  assumes "sub st st'"
  shows "entryS D st nm e \<Longrightarrow> entryS D st' nm e" "entryA D st nm e \<Longrightarrow> entryA D st' nm e"
    "entryV D st nm e \<Longrightarrow> entryV D st' nm e"
proof -
  have "map_of (ts_aliases st) \<subseteq>\<^sub>m map_of (ts_aliases st')" "map_of (ts_structs st) \<subseteq>\<^sub>m map_of (ts_structs st')"
    using assms by (simp_all add: sub_def)
  then show "entryS D st nm e \<Longrightarrow> entryS D st' nm e" "entryA D st nm e \<Longrightarrow> entryA D st' nm e"
    "entryV D st nm e \<Longrightarrow> entryV D st' nm e"
    using flds_mono [OF assms] den_mono [OF assms] vec_den_mono [OF assms]
    by (auto simp: entryS_def entryA_def entryV_def split: option.splits intro: map_leD)
qed

lemma tinvD:
  "tinv D st \<Longrightarrow> map_of (ts_structs st) nm = Some e \<Longrightarrow> entryS D st nm e"
  "tinv D st \<Longrightarrow> map_of (ts_aliases st) nm = Some e \<Longrightarrow> entryA D st nm e"
  "tinv D st \<Longrightarrow> map_of (ts_vectorElem st) nm = Some e \<Longrightarrow> entryV D st nm e"
  by (simp_all add: tinv_def)

text \<open>Every entry of a larger state is an entry of the smaller one or new.\<close>

lemma tinv_extend:
  assumes "tinv D st" "sub st st'"
    and "\<And>nm e. map_of (ts_structs st') nm = Some e \<Longrightarrow> map_of (ts_structs st) nm \<noteq> Some e \<Longrightarrow> entryS D st' nm e"
    and "\<And>nm e. map_of (ts_aliases st') nm = Some e \<Longrightarrow> map_of (ts_aliases st) nm \<noteq> Some e \<Longrightarrow> entryA D st' nm e"
    and "\<And>nm e. map_of (ts_vectorElem st') nm = Some e \<Longrightarrow> map_of (ts_vectorElem st) nm \<noteq> Some e \<Longrightarrow> entryV D st' nm e"
  shows "tinv D st'"
  unfolding tinv_def using assms(3-5) tinvD [OF assms(1)] entry_mono [OF assms(2)] by metis

text \<open>One new entry.\<close>

lemma enter_simps [simp]:
  "ts_structs (enter nm st) = ts_structs st" "ts_aliases (enter nm st) = ts_aliases st"
  "ts_vectorElem (enter nm st) = ts_vectorElem st" "ts_resolving (enter nm st) = nm # ts_resolving st"
  "ts_structs (leave nm st) = ts_structs st" "ts_aliases (leave nm st) = ts_aliases st"
  "ts_vectorElem (leave nm st) = ts_vectorElem st" "ts_resolving (leave nm st) = removeAll nm (ts_resolving st)"
  by (simp_all add: enter_def leave_def)

lemma sub_enter [simp]: "sub (enter nm st) st' \<longleftrightarrow> sub st st'" "sub (leave nm st) st' \<longleftrightarrow> sub st st'"
  "sub st (leave nm st') \<longleftrightarrow> sub st st'" "sub st (enter nm st') \<longleftrightarrow> sub st st'"
  by (simp_all add: sub_def)

lemma den_enter [simp]: "den D (enter nm st) = den D st" "den D (leave nm st) = den D st"
  by (auto simp: den_def fun_eq_iff split: tokKind.splits)

lemma flds_enter [simp]: "flds D (enter nm st) = flds D st" "flds D (leave nm st) = flds D st"
  by (auto simp: flds_def fun_eq_iff)

lemma vec_den_enter [simp]: "vec_den D (enter nm st) = vec_den D st" "vec_den D (leave nm st) = vec_den D st"
  by (auto simp: vec_den_def fun_eq_iff split: sum.splits)

lemma entry_enter [simp]:
  "entryS D (enter nm st) x e = entryS D st x e" "entryS D (leave nm st) x e = entryS D st x e"
  "entryA D (enter nm st) x e = entryA D st x e" "entryA D (leave nm st) x e = entryA D st x e"
  "entryV D (enter nm st) x e = entryV D st x e" "entryV D (leave nm st) x e = entryV D st x e"
  by (simp_all add: entryS_def entryA_def entryV_def split: option.split)

lemma tinv_enter [simp]: "tinv D (enter nm st) = tinv D st" "tinv D (leave nm st) = tinv D st"
  by (simp_all add: tinv_def)

lemma ext_put:
  assumes "ext (enter nm st) st1" "nm \<notin> set (ts_resolving st)" "sub st1 st2"
    and "set (ts_resolving st2) = set (ts_resolving st1) - {nm}"
    and "\<And>x. x \<noteq> nm \<Longrightarrow> map_of (ts_structs st2) x = map_of (ts_structs st1) x \<and>
        map_of (ts_aliases st2) x = map_of (ts_aliases st1) x \<and>
        map_of (ts_vectorElem st2) x = map_of (ts_vectorElem st1) x"
  shows "ext st st2"
proof -
  have "sub st st2" using assms(1,3) sub_trans by (auto simp: ext_def)
  moreover have "set (ts_resolving st2) = set (ts_resolving st)"
    using assms(1,2,4) by (auto simp: ext_def)
  moreover have "x \<noteq> nm" if "x \<in> set (ts_resolving st)" for x using that assms(2) by auto
  ultimately show ?thesis using assms(1,5) by (auto simp: ext_def)
qed

lemma ext_frozen:
  assumes "ext (enter nm st) st1"
  shows "map_of (ts_structs st1) nm = map_of (ts_structs st) nm" "map_of (ts_aliases st1) nm = map_of (ts_aliases st) nm"
    "map_of (ts_vectorElem st1) nm = map_of (ts_vectorElem st) nm"
  using assms by (auto simp: ext_def)

lemma sub_putStruct: "map_of (ts_structs st) nm = None \<Longrightarrow> sub st (st\<lparr>ts_structs := mput nm s (ts_structs st)\<rparr>)"
  by (auto simp: sub_def map_le_def)

lemma sub_putVector: "map_of (ts_vectorElem st) nm = None \<Longrightarrow> sub st (st\<lparr>ts_vectorElem := mput nm s (ts_vectorElem st)\<rparr>)"
  by (auto simp: sub_def map_le_def)

lemma sub_putAlias:
  "map_of (ts_aliases st) nm = None \<Longrightarrow> map_of (ts_structs st) nm = None \<Longrightarrow> sub st (putAlias nm e st)"
  by (auto simp: sub_def map_le_def putAlias_def)

lemma tinv_putStruct:
  assumes "tinv D st" "map_of (ts_structs st) nm = None" "map_of (df_structs D) nm = Some fs"
    "flds D st fs ts" "wf_elem (TStruct nm ts)"
  shows "tinv D (st\<lparr>ts_structs := mput nm (TStruct nm ts) (ts_structs st)\<rparr>)" (is "tinv D ?st")
proof (rule tinv_extend [OF assms(1)])
  show s: "sub st ?st" by (rule sub_putStruct) fact
  fix x e
  assume "map_of (ts_structs ?st) x = Some e" "map_of (ts_structs st) x \<noteq> Some e"
  then show "entryS D ?st x e"
    using assms(3,5) flds_mono [OF s assms(4)] by (auto simp: entryS_def split: if_split_asm)
qed simp_all

lemma tinv_putVector:
  assumes "tinv D st" "map_of (ts_vectorElem st) nm = None" "map_of (df_vectors D) nm = Some vd"
    "vec_den D st nm vd e" "wf_elem e"
  shows "tinv D (st\<lparr>ts_vectorElem := mput nm e (ts_vectorElem st)\<rparr>)" (is "tinv D ?st")
proof (rule tinv_extend [OF assms(1)])
  show s: "sub st ?st" by (rule sub_putVector) fact
  fix x e
  assume "map_of (ts_vectorElem ?st) x = Some e" "map_of (ts_vectorElem st) x \<noteq> Some e"
  then show "entryV D ?st x e"
    using assms(3,5) vec_den_mono [OF s assms(4)] by (simp add: entryV_def split: if_split_asm)
qed simp_all

lemma renamed_simps [simp]: "isStructT (renamed nm e) = isStructT e" "wf_elem (renamed nm e) = wf_elem e"
  "\<not> isStructT e \<Longrightarrow> renamed nm e = e"
  by (cases e; simp add: renamed_def isStructT_def)+

lemma putAlias_simps:
  "map_of (ts_aliases (putAlias nm e st)) = (map_of (ts_aliases st))(nm \<mapsto> renamed nm e)"
  "map_of (ts_structs (putAlias nm e st)) =
     (if isStructT e then (map_of (ts_structs st))(nm \<mapsto> renamed nm e) else map_of (ts_structs st))"
  "ts_vectorElem (putAlias nm e st) = ts_vectorElem st"
  by (simp_all add: putAlias_def)

lemma tinv_putAlias:
  assumes "tinv D st" "map_of (ts_aliases st) nm = None" "map_of (ts_structs st) nm = None"
    "map_of (df_structs D) nm = None" "den D st (aliasToken D nm) = Some e" "wf_elem e"
  shows "tinv D (putAlias nm e st)" (is "tinv D ?st")
proof (rule tinv_extend [OF assms(1)])
  show s: "sub st ?st" by (rule sub_putAlias) fact+
  fix x t
  show "entryS D ?st x t" if "map_of (ts_structs ?st) x = Some t" "map_of (ts_structs st) x \<noteq> Some t"
    using that assms(4,6) by (auto simp: entryS_def putAlias_simps split: if_split_asm)
  show "entryA D ?st x t" if "map_of (ts_aliases ?st) x = Some t" "map_of (ts_aliases st) x \<noteq> Some t"
    using that assms(4,6) den_mono [OF s assms(5)] by (auto simp: entryA_def putAlias_simps split: if_split_asm)
qed (simp add: putAlias_simps)


definition separated :: "tyDefs \<Rightarrow> bool" where
  "separated D \<longleftrightarrow> (\<forall>nm. map_of (df_structs D) nm \<noteq> None \<longrightarrow> map_of (df_aliases D) nm = None)"

definition runs :: "tyDefs \<Rightarrow> tyState \<Rightarrow> tyState \<Rightarrow> bool" where
  "runs D st st' \<longleftrightarrow> tinv D st' \<and> ext st st'"

lemma runs_trans: "runs D a b \<Longrightarrow> runs D b c \<Longrightarrow> runs D a c"
  by (auto simp: runs_def intro: ext_trans)

lemma flds_Cons: "flds D st (f # fs) ((k, t) # ts) \<longleftrightarrow> k = fs_Name f \<and> den D st (fs_Type f) = Some t \<and> flds D st fs ts"
  by (simp add: flds_def)

lemma wf_elem_TStruct: "wf_elem (TStruct nm ts) \<longleftrightarrow> distinct (map fst ts) \<and> (\<forall>kt \<in> set ts. wf_elem (snd kt))"
  by (auto simp: wf_fields_iff split: prod.splits)

lemma resolution:
  "tyToken D n st tok = Inr (t, st') \<Longrightarrow> separated D \<Longrightarrow> tinv D st \<Longrightarrow>
     runs D st st' \<and> den D st' tok = Some t \<and> wf_elem t"
  "tyFields D n st fs seen = Inr (ts, st') \<Longrightarrow> separated D \<Longrightarrow> tinv D st \<Longrightarrow>
     runs D st st' \<and> flds D st' fs ts \<and> (\<forall>kt \<in> set ts. wf_elem (snd kt)) \<and> distinct (map fst ts) \<and> set (map fst ts) \<inter> set seen = {}"
  "resolveStruct D n st nm = Inr (t, st') \<Longrightarrow> separated D \<Longrightarrow> tinv D st \<Longrightarrow> map_of (df_structs D) nm \<noteq> None \<Longrightarrow>
     runs D st st' \<and> map_of (ts_structs st') nm = Some t \<and> wf_elem t"
  "resolveVectorElem D n st nm = Inr (t, st') \<Longrightarrow> separated D \<Longrightarrow> tinv D st \<Longrightarrow>
     runs D st st' \<and> map_of (ts_vectorElem st') nm = Some t \<and> wf_elem t"
  "resolveAlias D n st nm = Inr (t, st') \<Longrightarrow> separated D \<Longrightarrow> tinv D st \<Longrightarrow> map_of (df_structs D) nm = None \<Longrightarrow>
     runs D st st' \<and> map_of (ts_aliases st') nm = Some t \<and> wf_elem t"
proof (induction D n st tok and D n st fs seen and D n st nm and D n st nm and D n st nm
    arbitrary: t st' and ts st' and t st' and t st' and t st'
    rule: tyToken_tyFields_resolveStruct_resolveVectorElem_resolveAlias.induct)
  case (1 D n st tok)
  show ?case
  proof (cases "tokKind D tok")
    case (KElemOf base)
    then obtain x where "splitDotted tok = Some x" "x = (base, ''Elem'')"
      by (auto simp: tokKind_def split: option.split_asm prod.split_asm if_split_asm)
    with 1 KElemOf show ?thesis by (simp add: tyToken_kind den_def)
  next
    case (KLeaf s)
    then have "wf_elem s" by (auto simp: tokKind_def dest: nt_Parse_nz split: option.split_asm prod.split_asm if_split_asm)
    with KLeaf "1.prems" show ?thesis by (auto simp: tyToken_kind den_def runs_def)
  next
    case (KStruct nm)
    then have k: "splitDotted tok = None" "tok \<noteq> ''string''" "nt_Parse tok = None" "map_of (df_structs D) tok \<noteq> None" "nm = tok"
      by (auto simp: tokKind_def split: option.split_asm prod.split_asm if_split_asm)
    have "resolveStruct D n st tok = Inr (t, st')" using "1.prems"(1) KStruct k(5) by (simp add: tyToken_kind)
    from "1.IH"(1) [OF k(1-4) this "1.prems"(2,3) k(4)] KStruct k(5) show ?thesis by (simp add: den_def)
  next
    case (KAlias nm)
    then have k: "splitDotted tok = None" "tok \<noteq> ''string''" "nt_Parse tok = None" "\<not> map_of (df_structs D) tok \<noteq> None"
      "map_of (df_aliases D) tok \<noteq> None" "nm = tok"
      by (auto simp: tokKind_def split: option.split_asm prod.split_asm if_split_asm)
    have "resolveAlias D n st tok = Inr (t, st')" using "1.prems"(1) KAlias k(6) by (simp add: tyToken_kind)
    from "1.IH"(2) [OF k(1-5) this "1.prems"(2,3)] k(4) KAlias k(6) show ?thesis by (simp add: den_def)
  qed (use "1.prems" in \<open>simp add: tyToken_kind\<close>)
next
  case (2 D n st seen)
  then show ?case by (simp add: runs_def flds_def)
next
  case (3 D n st f fs seen)
  then obtain t st1 ts' where
    nm: "fs_Name f \<notin> set seen" and t: "tyToken D n st (fs_Type f) = Inr (t, st1)" and
    ts: "tyFields D n st1 fs (fs_Name f # seen) = Inr (ts', st')" "ts = (fs_Name f, t) # ts'"
    by (auto split: if_split_asm)
  from "3.IH"(1) [OF nm t] "3.prems" have t1: "runs D st st1" "den D st1 (fs_Type f) = Some t" "wf_elem t" by simp_all
  then have "tinv D st1" by (simp add: runs_def)
  have w: "rwrap (TyField (fs_Name f)) (tyToken D n st (fs_Type f)) = Inr (t, st1)" using t by simp
  from "3.IH"(2) [OF nm w refl ts(1) "3.prems"(2) \<open>tinv D st1\<close>]
  have t2: "runs D st1 st'" "flds D st' fs ts'" "\<forall>kt \<in> set ts'. wf_elem (snd kt)" "distinct (map fst ts')"
    "set (map fst ts') \<inter> set (fs_Name f # seen) = {}" by simp_all
  moreover have "den D st' (fs_Type f) = Some t" using t1(2) t2(1) den_mono ext_sub unfolding runs_def by blast
  ultimately show ?case using t1 nm ts(2) runs_trans by (auto simp: flds_Cons)
next
  case (4 D n st nm)
  from "4.prems"(1) show ?case
  proof (cases rule: resolveStruct_Inr)
    case memo
    with "4.prems" tinvD(1) show ?thesis by (auto simp: runs_def entryS_def)
  next
    case (new ts st1)
    from "4.prems"(4) obtain fs where fs: "map_of (df_structs D) nm = Some fs" by auto
    have IH: "runs D (enter nm st) st1" "flds D st1 fs ts" "\<forall>kt \<in> set ts. wf_elem (snd kt)" "distinct (map fst ts)"
      using "4.IH" [OF new(1,2,3), of ts st1] new(4) "4.prems" fs by (auto simp: structFields_def)
    then have "map_of (ts_structs (leave nm st1)) nm = None"
      using ext_frozen(1) [of nm st st1] new(1) by (simp add: runs_def)
    then have "tinv D st'" unfolding new(6)
      by (rule tinv_putStruct [rotated]) (use IH fs in \<open>auto simp: runs_def wf_elem_TStruct simp del: wf_elem.simps\<close>)
    moreover have "ext st st'"
      by (rule ext_put [of nm _ st1]) (use IH new \<open>map_of (ts_structs (leave nm st1)) nm = None\<close> sub_putStruct [of "leave nm st1" nm]
          in \<open>auto simp: runs_def sub_def\<close>)
    ultimately show ?thesis using new(5,6) IH by (simp add: runs_def wf_elem_TStruct del: wf_elem.simps)
  qed
next
  case (5 D n st nm)
  from "5.prems"(1) show ?case
  proof (cases rule: resolveVectorElem_Inr)
    case memo
    with "5.prems" tinvD(3) show ?thesis by (auto simp: runs_def entryV_def)
  next
    case (new vd st1)
    have IH: "runs D (enter nm st) st1" "vec_den D st1 nm vd t" "wf_elem t"
    proof -
      have "runs D (enter nm st) st1 \<and> vec_den D st1 nm vd t \<and> wf_elem t"
      proof (cases vd)
        case (Inl fs)
        with new obtain ts where ts: "tyFields D (n - 1) (enter nm st) fs [] = Inr (ts, st1)" "t = TStruct nm ts"
          by (auto simp: vectorBody_def)
        from "5.IH"(1) [OF new(1,2,3,4) Inl ts(1)] "5.prems" show ?thesis
          by (auto simp: Inl ts(2) vec_den_def wf_elem_TStruct simp del: wf_elem.simps)
      next
        case (Inr tok)
        with new have "tyToken D (n - 1) (enter nm st) tok = Inr (t, st1)" by (simp add: vectorBody_def)
        from "5.IH"(2) [OF new(1,2,3,4) Inr this] "5.prems" show ?thesis by (simp add: Inr vec_den_def)
      qed
      then show "runs D (enter nm st) st1" "vec_den D st1 nm vd t" "wf_elem t" by simp_all
    qed
    then have "map_of (ts_vectorElem (leave nm st1)) nm = None"
      using ext_frozen(3) [of nm st st1] new(1) by (simp add: runs_def)
    then have "tinv D st'" unfolding new(6)
      by (rule tinv_putVector [rotated]) (use IH new in \<open>auto simp: runs_def\<close>)
    moreover have "ext st st'"
      by (rule ext_put [of nm _ st1]) (use IH new \<open>map_of (ts_vectorElem (leave nm st1)) nm = None\<close> sub_putVector [of "leave nm st1" nm]
          in \<open>auto simp: runs_def sub_def\<close>)
    ultimately show ?thesis using new(6) IH by (simp add: runs_def)
  qed
next
  case (6 D n st nm)
  from "6.prems"(1) show ?case
  proof (cases rule: resolveAlias_Inr)
    case memo
    with "6.prems" tinvD(2) show ?thesis by (auto simp: runs_def entryA_def)
  next
    case (new e st1)
    have IH: "runs D (enter nm st) st1" "den D st1 (aliasToken D nm) = Some e" "wf_elem e"
      using "6.IH" [OF new(1,2,3), of e st1] new(4) "6.prems" by (auto simp: aliasToken_def)
    have none: "map_of (ts_aliases (leave nm st1)) nm = None"
      using IH ext_frozen(2) [of nm st st1] new(1) by (simp add: runs_def)
    have "map_of (ts_structs st) nm = None"
      using tinvD(1) [OF "6.prems"(3), of nm] new(1) "6.prems"(4) by (cases "map_of (ts_structs st) nm") (auto simp: entryS_def)
    then have snone: "map_of (ts_structs (leave nm st1)) nm = None"
      using IH ext_frozen(1) [of nm st st1] by (simp add: runs_def)
    have "tinv D st'" unfolding new(6)
      by (rule tinv_putAlias) (use IH none snone "6.prems" in \<open>auto simp: runs_def\<close>)
    moreover have "ext st st'"
      by (rule ext_put [of nm _ st1]) (use IH new none snone sub_putAlias [of "leave nm st1" nm]
          in \<open>auto simp: runs_def sub_def putAlias_simps\<close>)
    ultimately show ?thesis using new(5,6) IH by (simp add: runs_def putAlias_simps)
  qed
qed

subsection \<open>Enough fuel\<close>

lemma resolving_same:
  "tyToken D n st tok = Inr (t, st') \<Longrightarrow> set (ts_resolving st') = set (ts_resolving st)"
  "tyFields D n st fs seen = Inr (ts, st') \<Longrightarrow> set (ts_resolving st') = set (ts_resolving st)"
  "resolveStruct D n st nm = Inr (t, st') \<Longrightarrow> set (ts_resolving st') = set (ts_resolving st)"
  "resolveVectorElem D n st nm = Inr (t, st') \<Longrightarrow> set (ts_resolving st') = set (ts_resolving st)"
  "resolveAlias D n st nm = Inr (t, st') \<Longrightarrow> set (ts_resolving st') = set (ts_resolving st)"
proof (induction D n st tok and D n st fs seen and D n st nm and D n st nm and D n st nm
    arbitrary: t st' and ts st' and t st' and t st' and t st'
    rule: tyToken_tyFields_resolveStruct_resolveVectorElem_resolveAlias.induct)
  case (1 D n st tok)
  then show ?case unfolding tyToken.simps [of D n st tok]
    by (simp split: option.split_asm if_split_asm prod.split_asm)
next
  case (3 D n st f fs seen)
  then obtain t st1 ts' where
    nm: "fs_Name f \<notin> set seen" and t: "tyToken D n st (fs_Type f) = Inr (t, st1)" and
    ts: "tyFields D n st1 fs (fs_Name f # seen) = Inr (ts', st')"
    by (auto split: if_split_asm)
  have w: "rwrap (TyField (fs_Name f)) (tyToken D n st (fs_Type f)) = Inr (t, st1)" using t by simp
  from "3.IH"(1) [OF nm t] "3.IH"(2) [OF nm w refl ts] show ?case by simp
next
  case (4 D n st nm)
  from "4.prems" show ?case
  proof (cases rule: resolveStruct_Inr)
    case (new fs st1)
    from "4.IH" [OF new(1-3)] new(4) have "set (ts_resolving st1) = set (ts_resolving (enter nm st))"
      by (simp add: structFields_def)
    with new(2,6) show ?thesis by auto
  qed simp
next
  case (5 D n st nm)
  from "5.prems" show ?case
  proof (cases rule: resolveVectorElem_Inr)
    case (new vd st1)
    have "set (ts_resolving st1) = set (ts_resolving (enter nm st))"
      using new(5) "5.IH"(1) [OF new(1-4)] "5.IH"(2) [OF new(1-4)] by (cases vd) (auto simp: vectorBody_def)
    with new(3,6) show ?thesis by auto
  qed simp
next
  case (6 D n st nm)
  from "6.prems" show ?case
  proof (cases rule: resolveAlias_Inr)
    case (new e st1)
    from "6.IH" [OF new(1-3)] new(4) have "set (ts_resolving st1) = set (ts_resolving (enter nm st))"
      by (simp add: aliasToken_def)
    with new(2,6) show ?thesis by auto
  qed simp
qed simp_all

lemma vectorBody_fuel:
  assumes "vectorBody D n st nm vd = Inl e" "fuel_err e"
    and "\<And>fs e. vd = Inl fs \<Longrightarrow> tyFields D n st fs [] = Inl e \<Longrightarrow> fuel_err e \<Longrightarrow> P"
    and "\<And>tok e. vd = Inr tok \<Longrightarrow> tyToken D n st tok = Inl e \<Longrightarrow> fuel_err e \<Longrightarrow> P"
  shows P
  using assms by (cases vd) (auto simp: vectorBody_def rbind_eq_Inl)

lemma enough_fuel:
  "tyToken D n st tok = Inl e \<Longrightarrow> fuel_err e \<Longrightarrow> n < left D st"
  "tyFields D n st fs seen = Inl e \<Longrightarrow> fuel_err e \<Longrightarrow> n < left D st"
  "resolveStruct D n st nm = Inl e \<Longrightarrow> fuel_err e \<Longrightarrow> map_of (df_structs D) nm \<noteq> None \<Longrightarrow> n < left D st"
  "resolveVectorElem D n st nm = Inl e \<Longrightarrow> fuel_err e \<Longrightarrow> n < left D st"
  "resolveAlias D n st nm = Inl e \<Longrightarrow> fuel_err e \<Longrightarrow> map_of (df_aliases D) nm \<noteq> None \<Longrightarrow> n < left D st"
proof (induction D n st tok and D n st fs seen and D n st nm and D n st nm and D n st nm
    arbitrary: e and e and e and e and e
    rule: tyToken_tyFields_resolveStruct_resolveVectorElem_resolveAlias.induct)
  case (1 D n st tok)
  show ?case
  proof (cases "tokKind D tok")
    case (KElemOf base)
    then obtain x where "splitDotted tok = Some x" "x = (base, ''Elem'')"
      by (auto simp: tokKind_def split: option.split_asm prod.split_asm if_split_asm)
    with 1 KElemOf show ?thesis by (simp add: tyToken_kind)
  next
    case (KStruct nm)
    then have k: "splitDotted tok = None" "tok \<noteq> ''string''" "nt_Parse tok = None" "map_of (df_structs D) tok \<noteq> None" "nm = tok"
      by (auto simp: tokKind_def split: option.split_asm prod.split_asm if_split_asm)
    have "resolveStruct D n st tok = Inl e" using "1.prems"(1) KStruct k(5) by (simp add: tyToken_kind)
    from "1.IH"(1) [OF k(1-4) this "1.prems"(2) k(4)] show ?thesis .
  next
    case (KAlias nm)
    then have k: "splitDotted tok = None" "tok \<noteq> ''string''" "nt_Parse tok = None" "\<not> map_of (df_structs D) tok \<noteq> None"
      "map_of (df_aliases D) tok \<noteq> None" "nm = tok"
      by (auto simp: tokKind_def split: option.split_asm prod.split_asm if_split_asm)
    have "resolveAlias D n st tok = Inl e" using "1.prems"(1) KAlias k(6) by (simp add: tyToken_kind)
    from "1.IH"(2) [OF k(1-5) this "1.prems"(2) k(5)] show ?thesis .
  qed (use "1.prems" tokKind_simps(3) in \<open>auto simp: tyToken_kind\<close>)
next
  case (3 D n st f fs seen)
  show ?case
  proof (cases "tyToken D n st (fs_Type f)")
    case (Inl e')
    with "3.prems" have "fs_Name f \<notin> set seen" "fuel_err e'" by (auto split: if_split_asm)
    with "3.IH"(1) Inl show ?thesis by blast
  next
    case (Inr r)
    then obtain t st1 where t: "tyToken D n st (fs_Type f) = Inr (t, st1)" by (cases r) auto
    with "3.prems" have nm: "fs_Name f \<notin> set seen" and e: "tyFields D n st1 fs (fs_Name f # seen) = Inl e"
      by (auto split: if_split_asm simp: rbind_eq_Inl)
    have w: "rwrap (TyField (fs_Name f)) (tyToken D n st (fs_Type f)) = Inr (t, st1)" using t by simp
    from "3.IH"(2) [OF nm w refl e "3.prems"(2)] left_same [of st1 st D] resolving_same(1) [OF t] show ?thesis by simp
  qed
next
  case (4 D n st nm)
  have nm: "nm \<in> names D" using "4.prems"(3) by (auto simp: names_def)
  from resolve_fuel(1) [OF "4.prems"(1,2)] consider "n = 0" "nm \<notin> set (ts_resolving st)"
    | e' where "nm \<notin> set (ts_resolving st)" "map_of (ts_structs st) nm = None" "n \<noteq> 0"
        "tyFields D (n - 1) (enter nm st) (structFields D nm) [] = Inl e'" "fuel_err e'" by blast
  then show ?case
  proof cases
    case 1
    then show ?thesis using left_enter [OF nm] by simp
  next
    case 2
    from "4.IH" [OF 2(2,1,3)] 2(4,5) have "n - 1 < left D (enter nm st)" by (simp add: structFields_def)
    then show ?thesis using left_enter [OF nm 2(1)] 2(3) by simp
  qed
next
  case (5 D n st nm)
  from resolve_fuel(2) [OF "5.prems"(1,2)] obtain vd where r: "nm \<notin> set (ts_resolving st)"
    and vd: "map_of (df_vectors D) nm = Some vd"
    and c: "n = 0 \<or> map_of (ts_vectorElem st) nm = None \<and> n \<noteq> 0 \<and>
       (\<exists>e'. vectorBody D (n - 1) (enter nm st) nm vd = Inl e' \<and> fuel_err e')" by blast
  have nm: "nm \<in> names D" using vd by (auto simp: names_def)
  from c show ?case
  proof (elim disjE exE conjE)
    fix e' assume a: "map_of (ts_vectorElem st) nm = None" "n \<noteq> 0"
      "vectorBody D (n - 1) (enter nm st) nm vd = Inl e'" "fuel_err e'"
    have "n - 1 < left D (enter nm st)"
      using a(3,4) by (rule vectorBody_fuel) (auto dest: "5.IH"(1) [OF a(1) vd r a(2)] "5.IH"(2) [OF a(1) vd r a(2)])
    then show ?thesis using left_enter [OF nm r] a(2) by simp
  qed (use left_enter [OF nm r] in simp)
next
  case (6 D n st nm)
  have nm: "nm \<in> names D" using "6.prems"(3) by (auto simp: names_def)
  from resolve_fuel(3) [OF "6.prems"(1,2)] consider "n = 0" "nm \<notin> set (ts_resolving st)"
    | e' where "nm \<notin> set (ts_resolving st)" "map_of (ts_aliases st) nm = None" "n \<noteq> 0"
        "tyToken D (n - 1) (enter nm st) (aliasToken D nm) = Inl e'" "fuel_err e'" by blast
  then show ?case
  proof cases
    case 1
    then show ?thesis using left_enter [OF nm] by simp
  next
    case 2
    from "6.IH" [OF 2(2,1,3)] 2(4,5) have "n - 1 < left D (enter nm st)" by (simp add: aliasToken_def)
    then show ?thesis using left_enter [OF nm 2(1)] 2(3) by simp
  qed
qed auto

subsection \<open>The declarations\<close>

definition isVectorDef :: "typeDef \<Rightarrow> bool" where
  "isVectorDef td = (case td_Elem td of KindVector e \<Rightarrow> True | KindVectorInner fs \<Rightarrow> True | _ \<Rightarrow> False)"

definition declared :: "tyDefs \<Rightarrow> typeDef \<Rightarrow> bool" where
  "declared D td =
     (case td_Elem td of
        KindStruct fs \<Rightarrow> map_of (df_structs D) (td_Name td) = Some fs
      | KindVector e \<Rightarrow> map_of (df_vectors D) (td_Name td) = Some (Inr e)
      | KindVectorInner fs \<Rightarrow> map_of (df_vectors D) (td_Name td) = Some (Inl fs)
      | KindElemRef e \<Rightarrow> map_of (df_aliases D) (td_Name td) = Some e)"

lemma foldR_snoc: "foldR f s (xs @ [x]) = rbind (foldR f s xs) (\<lambda>s'. f s' x)"
  by (simp add: foldR_append) (cases "foldR f s xs"; simp add: rbind_def split: sum.split)

lemma collect_step:
  assumes "collect D td = Inr D'"
  shows "td_Name td \<notin> set (df_order D)" "\<not> reserved (td_Name td)" "df_order D' = df_order D @ [td_Name td]"
    "names D' = insert (td_Name td) (names D)"
    "df_vectorOrder D' = df_vectorOrder D @ (if isVectorDef td then [td_Name td] else [])"
    "dom (map_of (df_vectors D')) = dom (map_of (df_vectors D)) \<union> (if isVectorDef td then {td_Name td} else {})"
    "declared D t \<Longrightarrow> td_Name t \<noteq> td_Name td \<Longrightarrow> declared D' t" "declared D' td"
  using assms by (cases "td_Elem td"; cases "td_Elem t";
      force simp: collect_def Let_def names_def isVectorDef_def declared_def split: if_split_asm)+

definition apart :: "tyDefs \<Rightarrow> bool" where
  "apart D \<longleftrightarrow> separated D \<and>
     (\<forall>nm. map_of (df_vectors D) nm \<noteq> None \<longrightarrow> map_of (df_structs D) nm = None \<and> map_of (df_aliases D) nm = None)"

lemma collect_apart:
  assumes "collect D td = Inr D'" "apart D" "td_Name td \<notin> names D"
  shows "apart D'"
proof -
  have n: "map_of (df_structs D) (td_Name td) = None" "map_of (df_vectors D) (td_Name td) = None"
    "map_of (df_aliases D) (td_Name td) = None" using assms(3) by (auto simp: names_def)
  show ?thesis using assms(1,2) n
    by (cases "td_Elem td") (auto simp: collect_def Let_def apart_def separated_def split: if_split_asm)
qed

lemma collect_ok:
  assumes "foldR collect noDefs tds = Inr D"
  shows "df_order D = map td_Name tds \<and> distinct (map td_Name tds) \<and> list_all (\<lambda>td. \<not> reserved (td_Name td)) tds \<and>
     names D = set (map td_Name tds) \<and> apart D \<and> list_all (declared D) tds \<and>
     df_vectorOrder D = map td_Name (filter isVectorDef tds) \<and> dom (map_of (df_vectors D)) = set (df_vectorOrder D)"
  using assms
proof (induction tds arbitrary: D rule: rev_induct)
  case Nil
  then show ?case by (auto simp: noDefs_def names_def apart_def separated_def)
next
  case (snoc td tds)
  from snoc.prems obtain D0 where D0: "foldR collect noDefs tds = Inr D0" "collect D0 td = Inr D"
    by (auto simp: foldR_snoc)
  note S = collect_step [OF D0(2)]
  have I: "df_order D0 = map td_Name tds" "distinct (map td_Name tds)" "list_all (\<lambda>td. \<not> reserved (td_Name td)) tds"
    "names D0 = set (map td_Name tds)" "apart D0" "list_all (declared D0) tds"
    "df_vectorOrder D0 = map td_Name (filter isVectorDef tds)" "dom (map_of (df_vectors D0)) = set (df_vectorOrder D0)"
    using snoc.IH [OF D0(1)] by blast+
  have fresh: "td_Name td \<notin> names D0" using S(1) I(1,4) by simp
  have "list_all (declared D) tds"
    unfolding list_all_iff
  proof
    fix t assume t: "t \<in> set tds"
    have "td_Name t \<noteq> td_Name td" using t S(1) I(1) by (metis imageI list.set_map)
    moreover have "declared D0 t" using t I(6) by (simp add: list_all_iff)
    ultimately show "declared D t" by (rule S(7) [rotated])
  qed
  moreover have "apart D" using collect_apart [OF D0(2)] I(5) fresh by simp
  moreover have "df_order D = map td_Name (tds @ [td])" using I(1) S(3) by simp
  moreover have "distinct (map td_Name (tds @ [td]))" using I(1,2) S(1) by simp
  moreover have "names D = set (map td_Name (tds @ [td]))" using I(4) S(4) by simp
  moreover have "list_all (\<lambda>td. \<not> reserved (td_Name td)) (tds @ [td])" using I(3) S(2) by simp
  moreover have "df_vectorOrder D = map td_Name (filter isVectorDef (tds @ [td]))" using I(7) S(5) by simp
  moreover have "dom (map_of (df_vectors D)) = set (df_vectorOrder D)" unfolding S(6) I(8) S(5) by simp
  ultimately show ?case using S(8) by simp
qed

subsection \<open>The finished registry\<close>

text \<open>The part of the loop's invariant about the models built so far.\<close>

definition settled :: "tyDefs \<Rightarrow> tyState \<Rightarrow> model gomap \<Rightarrow> string \<Rightarrow> bool" where
  "settled D st ms nm \<longleftrightarrow>
     (map_of (df_structs D) nm \<noteq> None \<longrightarrow> map_of (ts_structs st) nm \<noteq> None) \<and>
     (map_of (df_aliases D) nm \<noteq> None \<longrightarrow> map_of (ts_aliases st) nm \<noteq> None) \<and>
     (map_of (df_vectors D) nm \<noteq> None \<longrightarrow>
        (\<exists>e. map_of (ts_vectorElem st) nm = Some e \<and> map_of ms nm = Some (newModel nm e)))"

definition models_of :: "tyDefs \<Rightarrow> tyState \<Rightarrow> model gomap \<Rightarrow> bool" where
  "models_of D st ms \<longleftrightarrow>
     (\<forall>nm m. map_of ms nm = Some m \<longrightarrow> map_of (df_vectors D) nm \<noteq> None \<and>
        (\<exists>e. map_of (ts_vectorElem st) nm = Some e \<and> m = newModel nm e))"

lemma sub_lookup:
  assumes "sub st st'"
  shows "map_of (ts_structs st) nm = Some e \<Longrightarrow> map_of (ts_structs st') nm = Some e"
    "map_of (ts_aliases st) nm = Some e \<Longrightarrow> map_of (ts_aliases st') nm = Some e"
    "map_of (ts_vectorElem st) nm = Some e \<Longrightarrow> map_of (ts_vectorElem st') nm = Some e"
  using assms unfolding sub_def by (blast intro: map_leD)+

lemma models_of_sub: "models_of D st ms \<Longrightarrow> sub st st' \<Longrightarrow> models_of D st' ms"
  unfolding models_of_def by (blast dest: sub_lookup)

lemma settled_sub: "settled D st ms nm \<Longrightarrow> sub st st' \<Longrightarrow> settled D st' ms nm"
  unfolding settled_def by (blast dest: sub_lookup)

lemma settled_mput:
  assumes "settled D st ms nm" "map_of (ts_vectorElem st) x = Some e"
  shows "settled D st (mput x (newModel x e) ms) nm"
  using assms by (auto simp: settled_def)

lemma resolveOne_ok:
  assumes "resolveOne D n (st, ms) nm = Inr (st', ms')" "apart D" "tinv D st" "models_of D st ms"
  shows "runs D st st' \<and> models_of D st' ms' \<and> settled D st' ms' nm \<and> (\<forall>x. settled D st ms x \<longrightarrow> settled D st' ms' x)"
proof -
  have sep: "separated D" using assms(2) by (simp add: apart_def)
  show ?thesis
  proof (cases "map_of (df_structs D) nm")
    case (Some fs)
    with assms(1) obtain e where e: "resolveStruct D n st nm = Inr (e, st')" "ms' = ms" by (auto simp: resolveOne_def)
    from resolution(3) [OF e(1) sep assms(3)] Some have r: "runs D st st'" "map_of (ts_structs st') nm = Some e" by simp_all
    have "map_of (df_aliases D) nm = None" "map_of (df_vectors D) nm = None"
      using assms(2) Some by (auto simp: apart_def separated_def)
    then have "settled D st' ms' nm" using r(2) by (simp add: settled_def)
    moreover have "sub st st'" using r(1) by (simp add: runs_def ext_sub)
    ultimately show ?thesis using r(1) models_of_sub [OF assms(4)] settled_sub by (auto simp: e(2))
  next
    case ns: None
    show ?thesis
    proof (cases "map_of (df_aliases D) nm")
      case (Some tok)
      with ns assms(1) obtain e where e: "resolveAlias D n st nm = Inr (e, st')" "ms' = ms" by (auto simp: resolveOne_def)
      from resolution(5) [OF e(1) sep assms(3) ns] have r: "runs D st st'" "map_of (ts_aliases st') nm = Some e" by simp_all
      have "map_of (df_vectors D) nm = None" using assms(2) Some by (auto simp: apart_def)
      then have "settled D st' ms' nm" using r(2) ns by (simp add: settled_def)
      moreover have "sub st st'" using r(1) by (simp add: runs_def ext_sub)
      ultimately show ?thesis using r(1) models_of_sub [OF assms(4)] settled_sub by (auto simp: e(2))
    next
      case na: None
      show ?thesis
      proof (cases "map_of (df_vectors D) nm")
        case (Some vd)
        with ns na assms(1) obtain e where e: "resolveVectorElem D n st nm = Inr (e, st')" "ms' = mput nm (newModel nm e) ms"
          by (auto simp: resolveOne_def)
        from resolution(4) [OF e(1) sep assms(3)] have r: "runs D st st'" "map_of (ts_vectorElem st') nm = Some e" by simp_all
        then have s: "sub st st'" by (simp add: runs_def ext_sub)
        from models_of_sub [OF assms(4) s] r(2) Some have "models_of D st' ms'"
          by (auto simp: e(2) models_of_def)
        moreover have "settled D st' ms' nm" using ns na r(2) by (auto simp: settled_def e(2))
        moreover have "settled D st' ms' x" if "settled D st ms x" for x
          unfolding e(2) by (rule settled_mput [OF settled_sub [OF that s] r(2)])
        ultimately show ?thesis using r(1) by blast
      next
        case None
        with ns na assms show ?thesis by (auto simp: resolveOne_def runs_def settled_def)
      qed
    qed
  qed
qed

lemma resolve_loop:
  assumes "foldR (resolveOne D n) (st, ms) xs = Inr (st', ms')" "apart D" "tinv D st" "models_of D st ms"
  shows "runs D st st' \<and> models_of D st' ms' \<and> (\<forall>x. settled D st ms x \<or> x \<in> set xs \<longrightarrow> settled D st' ms' x)"
  using assms
proof (induction xs arbitrary: st ms)
  case Nil
  then show ?case by (simp add: runs_def)
next
  case (Cons x xs)
  from Cons.prems(1) obtain st1 ms1 where s: "resolveOne D n (st, ms) x = Inr (st1, ms1)"
    "foldR (resolveOne D n) (st1, ms1) xs = Inr (st', ms')" by auto
  from resolveOne_ok [OF s(1) Cons.prems(2-4)] have o: "runs D st st1" "models_of D st1 ms1" "settled D st1 ms1 x"
    "\<And>y. settled D st ms y \<Longrightarrow> settled D st1 ms1 y" by simp_all
  from Cons.IH [OF s(2) Cons.prems(2)] o have "runs D st1 st' \<and> models_of D st' ms' \<and>
      (\<forall>x. settled D st1 ms1 x \<or> x \<in> set xs \<longrightarrow> settled D st' ms' x)" by (simp add: runs_def)
  with o runs_trans show ?case by auto
qed

lemma loop_fuel:
  assumes "foldR (resolveOne D n) (st, ms) xs = Inl e" "fuel_err e"
    and "card (names D) \<le> n"
  shows False
  using assms(1)
proof (induction xs arbitrary: st ms)
  case (Cons x xs)
  show ?case
  proof (cases "resolveOne D n (st, ms) x")
    case (Inl e')
    with Cons.prems have "resolveOne D n (st, ms) x = Inl e" by simp
    then have "n < left D st"
      using assms(2) enough_fuel(3,4,5) [of D n st x e]
      by (auto simp: resolveOne_def rmap_def split: if_split_asm sum.split_asm)
    also have "left D st \<le> card (names D)" unfolding left_def by (rule card_mono) auto
    finally show ?thesis using assms(3) by simp
  next
    case (Inr sm)
    with Cons.prems Cons.IH show ?thesis by (cases sm) auto
  qed
qed simp

text \<open>A registry as a solution of the declarations' equations.\<close>

definition fieldsOf :: "typeReg \<Rightarrow> fieldSpec list \<Rightarrow> tyErr + (string \<times> elemT) list" where
  "fieldsOf r fs = mapR (\<lambda>f. rmap (Pair (fs_Name f)) (resolveToken r (fs_Type f))) fs"

definition type_ok :: "typeReg \<Rightarrow> typeDef \<Rightarrow> bool" where
  "type_ok r td =
     (let nm = td_Name td in
      case td_Elem td of
        KindStruct fs \<Rightarrow>
          (case fieldsOf r fs of Inl e \<Rightarrow> False | Inr ts \<Rightarrow> map_of (tr_structs r) nm = Some (TStruct nm ts))
      | KindVector tok \<Rightarrow>
          (case resolveToken r tok of Inl e \<Rightarrow> False | Inr e \<Rightarrow> map_of (tr_models r) nm = Some (newModel nm e))
      | KindVectorInner fs \<Rightarrow>
          (case fieldsOf r fs of Inl e \<Rightarrow> False | Inr ts \<Rightarrow> map_of (tr_models r) nm = Some (newModel nm (TStruct nm ts)))
      | KindElemRef tok \<Rightarrow>
          (case resolveToken r tok of Inl e \<Rightarrow> False | Inr e \<Rightarrow> map_of (tr_aliases r) nm = Some (renamed nm e)))"

definition wf_reg :: "typeReg \<Rightarrow> bool" where
  "wf_reg r \<longleftrightarrow> (\<forall>nm e. (map_of (tr_structs r) nm = Some e \<longrightarrow> wf_elem e) \<and>
     (map_of (tr_aliases r) nm = Some e \<longrightarrow> wf_elem e)) \<and>
     (\<forall>nm m. map_of (tr_models r) nm = Some m \<longrightarrow> wf_elem (mo_Elem m) \<and> m = newModel nm (mo_Elem m))"

lemma resolveToken_den:
  assumes "tinv D st" "models_of D st ms" "\<And>x. map_of (df_vectors D) x \<noteq> None \<Longrightarrow> settled D st ms x"
    and r: "tr_models r = ms" "tr_structs r = ts_structs st" "tr_aliases r = ts_aliases st"
    and "den D st tok = Some t"
  shows "resolveToken r tok = Inr t"
proof (cases "tokKind D tok")
  case (KElemOf base)
  then have s: "splitDotted tok = Some (base, ''Elem'')"
    by (auto simp: tokKind_def split: option.split_asm prod.split_asm if_split_asm)
  from KElemOf assms(7) have t: "map_of (ts_vectorElem st) base = Some t" by (simp add: den_def)
  from tinvD(3) [OF assms(1) t] have "map_of (df_vectors D) base \<noteq> None" by (auto simp: entryV_def)
  from assms(3) [OF this] this t have "map_of ms base = Some (newModel base t)" by (simp add: settled_def)
  with s show ?thesis by (simp add: resolveToken_def r newModel_def)
next
  case (KStruct nm)
  then have "splitDotted tok = None" "tok \<noteq> ''string''" "nt_Parse tok = None" "nm = tok"
    by (auto simp: tokKind_def split: option.split_asm prod.split_asm if_split_asm)
  with KStruct assms(7) show ?thesis by (simp add: resolveToken_def r den_def)
next
  case (KAlias nm)
  then have k: "splitDotted tok = None" "tok \<noteq> ''string''" "nt_Parse tok = None" "nm = tok" "map_of (df_structs D) tok = None"
    by (auto simp: tokKind_def split: option.split_asm prod.split_asm if_split_asm)
  from KAlias k assms(7) have a: "map_of (ts_aliases st) tok = Some t" by (simp add: den_def)
  have "map_of (ts_structs st) tok = Some s \<Longrightarrow> s = t" for s
    using tinvD(1) [OF assms(1), of tok s] k(5) a by (simp add: entryS_def)
  with k a show ?thesis by (auto simp: resolveToken_def r split: option.split)
next
  case (KLeaf s)
  with assms(7) show ?thesis
    by (auto simp: den_def resolveToken_def tokKind_def split: option.split_asm prod.split_asm if_split_asm)
qed (use assms(7) in \<open>simp add: den_def\<close>)

lemma fieldsOf_flds:
  assumes "\<And>tok t. den D st tok = Some t \<Longrightarrow> resolveToken r tok = Inr t" "flds D st fs ts"
  shows "fieldsOf r fs = Inr ts"
  using assms(2)
proof (induction fs arbitrary: ts)
  case Nil
  then show ?case by (simp add: fieldsOf_def flds_def)
next
  case (Cons f fs)
  from Cons.prems obtain kt ts' where kt: "ts = kt # ts'" "fst kt = fs_Name f" "den D st (fs_Type f) = Some (snd kt)"
    and "flds D st fs ts'"
    by (auto simp: flds_def list_all2_Cons1)
  moreover define t where "t = snd kt"
  ultimately have ts: "ts = (fs_Name f, t) # ts'" "den D st (fs_Type f) = Some t" "flds D st fs ts'"
    by (auto intro: prod_eqI)
  with Cons.IH [OF ts(3)] assms(1) show ?case by (simp add: fieldsOf_def)
qed

lemma resolved_registry:
  assumes "resolveTypes tds = Inr r"
  shows "distinct (map td_Name tds) \<and> list_all (\<lambda>td. \<not> reserved (td_Name td)) tds \<and>
    list_all (type_ok r) tds \<and> tr_vectorOrder r = map td_Name (filter isVectorDef tds) \<and>
    set (mkeys (tr_models r)) = set (tr_vectorOrder r) \<and> wf_reg r"
proof -
  from assms obtain D st ms where D: "foldR collect noDefs tds = Inr D"
    and L: "foldR (resolveOne D (length tds)) (newTyState, []) (df_order D) = Inr (st, ms)"
    and r: "r = \<lparr> tr_models = ms, tr_structs = ts_structs st, tr_aliases = ts_aliases st, tr_vectorOrder = df_vectorOrder D \<rparr>"
    by (auto simp: resolveTypes_def)
  have C: "df_order D = map td_Name tds" "distinct (map td_Name tds)" "list_all (\<lambda>td. \<not> reserved (td_Name td)) tds"
    "apart D" "list_all (declared D) tds" "df_vectorOrder D = map td_Name (filter isVectorDef tds)"
    "dom (map_of (df_vectors D)) = set (df_vectorOrder D)"
    using collect_ok [OF D] by blast+
  have "tinv D newTyState" "models_of D newTyState []" by (simp_all add: tinv_def newTyState_def models_of_def)
  from resolve_loop [OF L C(4) this] have I: "tinv D st" "models_of D st ms"
    and settled: "\<And>x. x \<in> set (map td_Name tds) \<Longrightarrow> settled D st ms x" by (simp_all add: runs_def C(1))
  have vdone: "settled D st ms x" if "map_of (df_vectors D) x \<noteq> None" for x
  proof (rule settled)
    have "x \<in> set (df_vectorOrder D)" using that C(7) by auto
    then show "x \<in> set (map td_Name tds)" by (auto simp: C(6))
  qed
  have tok: "resolveToken r tok = Inr t" if "den D st tok = Some t" for tok t
    by (rule resolveToken_den [OF I vdone _ _ _ that]) (simp_all add: r)
  have "type_ok r td" if td: "td \<in> set tds" for td
  proof -
    have d: "settled D st ms (td_Name td)" and dc: "declared D td" using td settled C(5) by (auto simp: list_all_iff)
    show ?thesis
    proof (cases "td_Elem td")
      case (KindStruct fs)
      with d dc obtain e where e: "map_of (ts_structs st) (td_Name td) = Some e" "map_of (df_structs D) (td_Name td) = Some fs"
        by (auto simp: settled_def declared_def)
      with tinvD(1) [OF I(1) e(1)] obtain ts where "e = TStruct (td_Name td) ts" "flds D st fs ts" by (auto simp: entryS_def)
      with e fieldsOf_flds [OF tok] KindStruct show ?thesis by (simp add: type_ok_def r)
    next
      case (KindVector tk)
      with d dc obtain e where e: "map_of (ts_vectorElem st) (td_Name td) = Some e" "map_of (df_vectors D) (td_Name td) = Some (Inr tk)"
          "map_of ms (td_Name td) = Some (newModel (td_Name td) e)" by (auto simp: settled_def declared_def)
      with tinvD(3) [OF I(1) e(1)] tok KindVector show ?thesis by (simp add: type_ok_def r entryV_def vec_den_def)
    next
      case (KindVectorInner fs)
      with d dc obtain e where e: "map_of (ts_vectorElem st) (td_Name td) = Some e" "map_of (df_vectors D) (td_Name td) = Some (Inl fs)"
          "map_of ms (td_Name td) = Some (newModel (td_Name td) e)" by (auto simp: settled_def declared_def)
      with tinvD(3) [OF I(1) e(1)] obtain ts where "e = TStruct (td_Name td) ts" "flds D st fs ts"
        by (auto simp: entryV_def vec_den_def)
      with e fieldsOf_flds [OF tok] KindVectorInner show ?thesis by (simp add: type_ok_def r)
    next
      case (KindElemRef tk)
      with d dc obtain e where e: "map_of (ts_aliases st) (td_Name td) = Some e" "map_of (df_aliases D) (td_Name td) = Some tk"
        by (auto simp: settled_def declared_def)
      with tinvD(2) [OF I(1) e(1)] tok KindElemRef show ?thesis by (auto simp: type_ok_def r entryA_def aliasToken_def)
    qed
  qed
  moreover have "set (mkeys ms) = set (df_vectorOrder D)"
    using I(2) vdone C(7) unfolding set_mkeys by (fastforce simp: models_of_def settled_def)
  moreover have "wf_reg r"
    using tinvD [OF I(1)] I(2) unfolding wf_reg_def
    by (fastforce simp: r models_of_def entryS_def entryA_def entryV_def newModel_def)
  ultimately show ?thesis using C(2,3,6) by (simp add: r list_all_iff)
qed

text \<open>
  C22: Type resolution. A type universe the builder accepts has distinct, unreserved names and the
  registry solves the equations of its declarations: every struct, alias and vector is registered
  under its name with exactly the descriptor that the finished registry gives to its declared field
  and element types (so declarations may refer to each other in any order), vectors are listed in
  source order, and every descriptor has distinct field names at all levels.
\<close>

theorem resolveTypes_sound:
  assumes "resolveTypes tds = Inr r"
  shows "distinct (map td_Name tds) \<and> list_all (\<lambda>td. \<not> reserved (td_Name td)) tds \<and>
    list_all (type_ok r) tds \<and> tr_vectorOrder r = map td_Name (filter isVectorDef tds) \<and>
    set (mkeys (tr_models r)) = set (tr_vectorOrder r) \<and> wf_reg r"
  by (rule resolved_registry) fact

text \<open>
  C23: Type resolution ends for every list of declarations, cyclic ones included: no outcome is a
  run out of fuel, whatever contexts the error is wrapped in.
\<close>

theorem resolveTypes_total:
  "case resolveTypes tds of Inl e \<Rightarrow> \<not> fuel_err e | Inr r \<Rightarrow> True"
proof (cases "resolveTypes tds")
  case (Inl e)
  then consider "foldR collect noDefs tds = Inl e"
    | D where "foldR collect noDefs tds = Inr D" "foldR (resolveOne D (length tds)) (newTyState, []) (df_order D) = Inl e"
    by (auto simp: resolveTypes_def rbind_eq_Inl)
  then have "\<not> fuel_err e"
  proof cases
    case 1
    have "foldR collect D tds = Inl e \<Longrightarrow> \<not> fuel_err e" for D
      by (induction tds arbitrary: D)
        (auto simp: rbind_eq_Inl collect_def Let_def split: if_split_asm elemType.split_asm)
    with 1 show ?thesis by blast
  next
    case 2
    have "card (names D) \<le> length tds"
      using collect_ok [OF 2(1)] by (metis card_length length_map)
    with loop_fuel [OF 2(2)] show ?thesis by blast
  qed
  with Inl show ?thesis by simp
qed simp

definition exampleTypes :: "typeDef list" where
  "exampleTypes =
     [\<lparr> td_Name = ''Twin'', td_Elem = KindStruct [\<lparr> fs_Name = ''left'', fs_Type = ''Cell'' \<rparr>] \<rparr>,
      \<lparr> td_Name = ''Counters'', td_Elem = KindVectorInner [\<lparr> fs_Name = ''n'', fs_Type = ''int'' \<rparr>] \<rparr>,
      \<lparr> td_Name = ''Cell'', td_Elem = KindElemRef ''Counters.Elem'' \<rparr>]"

definition exampleReg :: typeReg where
  "exampleReg =
     (let c = TStruct ''Cell'' [(''n'', TNum (NumType DInt SAny))] in
      \<lparr> tr_models = [(''Counters'', newModel ''Counters'' (TStruct ''Counters'' [(''n'', TNum (NumType DInt SAny))]))],
        tr_structs = [(''Cell'', c), (''Twin'', TStruct ''Twin'' [(''left'', c)])],
        tr_aliases = [(''Cell'', c)], tr_vectorOrder = [''Counters''] \<rparr>)"

lemma example_resolves: "resolveTypes exampleTypes = Inr exampleReg"
  by code_simp

lemma resolveTypes_sound_witness:
  "distinct (map td_Name exampleTypes) \<and> list_all (type_ok exampleReg) exampleTypes \<and> wf_reg exampleReg"
  using resolveTypes_sound [OF example_resolves] by blast

end
