(* ===== verification/Resolve.thy ===== *)
theory Resolve
  imports Syntax
begin

text \<open>
  builder/resolve.go: name resolution. \<open>resolve\<close> turns the parser's \<open>EName\<close> leaves into bound
  variables and references and checks arities; \<open>validateResolvedExpr\<close> is the builder's check of its
  own output. \<open>fa\<close> is the environment's \<open>fnArity\<close>; a scope is the list of the names of
  \<open>map[string]bool\<close> that are true. Error messages are constructors; \<open>MissingChild\<close> is every
  "internal: resolved ... is missing".
\<close>

datatype resErr =
    UnknownIdent string
  | ResNoHead
  | ResTooManyArgs string int nat
  | ResFuncAsArg
  | ResNoCases
  | ResNoResult
  | ResFieldNoValue string
  | ResFieldNotValue string
  | ResNoTarget
  | ResFieldOfFunc
  | ResBadFn resErr
  | ResNoInit
  | ResInitFunc
  | ResNoVec
  | ResVecFunc
  | ResUnexpected
  | ResMissingFn
  | ResWantArity nat int
  | ResNotCombinator
  | MissingChild string
  | UnresolvedName string

text \<open>The table of built-in operators (builder/checker.go).\<close>

definition primitiveArity :: "(string \<times> nat) list" where
  "primitiveArity =
     [(''+'', 2), (''*'', 2), (''-'', 2), (''max'', 2), (''min'', 2),
      (''>'', 2), (''<'', 2), (''>='', 2), (''<='', 2), (''=='', 2), (''/='', 2)]"

fun arityOf :: "expr \<Rightarrow> int" where
  "arityOf (ERef nm a rk) = int a"
| "arityOf (EApp None as) = 0"
| "arityOf (EApp (Some h) as) = arityOf h - int (length as)"
| "arityOf (ENumLit q) = 0"
| "arityOf (EStrLit s) = 0"
| "arityOf (EName x) = 0"
| "arityOf (EVar x) = 0"
| "arityOf (EGuards cs) = 0"
| "arityOf (EStructLit fs) = 0"
| "arityOf (EField t f) = 0"
| "arityOf (EReduce f i v) = 0"
| "arityOf (EZip f) = 0"
| "arityOf (ELocal f) = 0"
| "arityOf (EWrite f) = 0"

definition describe :: "expr \<Rightarrow> string" where
  "describe e = (case e of ERef nm a rk \<Rightarrow> nm | _ \<Rightarrow> ''expression'')"

text \<open>The leaf case: parameters shadow primitives, which shadow functions.\<close>

definition resolveName :: "nat gomap \<Rightarrow> string list \<Rightarrow> string \<Rightarrow> resErr + expr" where
  "resolveName fa scope nm =
     (if nm \<in> set scope then Inr (EVar nm)
      else case map_of primitiveArity nm of
          Some a \<Rightarrow> Inr (ERef nm a RefPrimitive)
        | None \<Rightarrow>
            (case map_of fa nm of
               Some a \<Rightarrow> Inr (ERef nm a RefFunction)
             | None \<Rightarrow> Inl (UnknownIdent nm)))"

definition wantArity :: "nat \<Rightarrow> expr \<Rightarrow> resErr + expr" where
  "wantArity want e = (if arityOf e \<noteq> int want then Inl (ResWantArity want (arityOf e)) else Inr e)"

fun resolve :: "nat gomap \<Rightarrow> string list \<Rightarrow> expr \<Rightarrow> resErr + expr" where
  "resolve fa scope (ENumLit q) = Inr (ENumLit q)"
| "resolve fa scope (EStrLit s) = Inr (EStrLit s)"
| "resolve fa scope (EName nm) = resolveName fa scope nm"
| "resolve fa scope (EApp h as) =
     (case h of
        None \<Rightarrow> Inl ResNoHead
      | Some h' \<Rightarrow>
          rbind (resolve fa scope h') (\<lambda>hd.
          if arityOf hd < int (length as)
          then Inl (ResTooManyArgs (describe hd) (arityOf hd) (length as))
          else
            rbind (mapR (\<lambda>a. rbind (resolve fa scope a) (\<lambda>ra.
              if arityOf ra \<noteq> 0 then Inl ResFuncAsArg else Inr ra)) as) (\<lambda>args.
            Inr (EApp (Some hd) args))))"
| "resolve fa scope (EGuards cs) =
     (if cs = [] then Inl ResNoCases
      else rbind (mapR (\<lambda>c. case c of GuardCase cond res ow \<Rightarrow>
          rbind (case cond of None \<Rightarrow> Inr None
                 | Some e \<Rightarrow> rmap Some (resolve fa scope e)) (\<lambda>rc.
          case res of
            None \<Rightarrow> Inl ResNoResult
          | Some r \<Rightarrow> rbind (resolve fa scope r) (\<lambda>rr. Inr (GuardCase rc (Some rr) ow)))) cs)
        (\<lambda>cs'. Inr (EGuards cs')))"
| "resolve fa scope (EStructLit sfs) =
     rbind (mapR (\<lambda>sf. case sf of StructField nm val \<Rightarrow>
       (case val of
          None \<Rightarrow> Inl (ResFieldNoValue nm)
        | Some e \<Rightarrow>
            rbind (resolve fa scope e) (\<lambda>rv.
            if arityOf rv \<noteq> 0 then Inl (ResFieldNotValue nm)
            else Inr (StructField nm (Some rv))))) sfs)
     (\<lambda>sfs'. Inr (EStructLit sfs'))"
| "resolve fa scope (EField t fld) =
     (case t of
        None \<Rightarrow> Inl ResNoTarget
      | Some t' \<Rightarrow>
          rbind (resolve fa scope t') (\<lambda>rt.
          if arityOf rt \<noteq> 0 then Inl ResFieldOfFunc else Inr (EField (Some rt) fld)))"
| "resolve fa scope (EReduce fn init vec) =
     rbind (rwrap ResBadFn
       (case fn of None \<Rightarrow> Inl ResMissingFn
        | Some f \<Rightarrow> rbind (resolve fa scope f) (wantArity 2))) (\<lambda>rf.
     case init of
       None \<Rightarrow> Inl ResNoInit
     | Some i \<Rightarrow>
         rbind (resolve fa scope i) (\<lambda>ri.
         if arityOf ri \<noteq> 0 then Inl ResInitFunc
         else case vec of
             None \<Rightarrow> Inl ResNoVec
           | Some v \<Rightarrow>
               rbind (resolve fa scope v) (\<lambda>rv.
               if arityOf rv \<noteq> 0 then Inl ResVecFunc
               else Inr (EReduce (Some rf) (Some ri) (Some rv)))))"
| "resolve fa scope (EVar x) = Inl ResUnexpected"
| "resolve fa scope (ERef nm a rk) = Inl ResUnexpected"
| "resolve fa scope (EZip f) = Inl ResUnexpected"
| "resolve fa scope (ELocal f) = Inl ResUnexpected"
| "resolve fa scope (EWrite f) = Inl ResUnexpected"

definition resolveFn :: "nat gomap \<Rightarrow> string list \<Rightarrow> expr option \<Rightarrow> nat \<Rightarrow> resErr + expr" where
  "resolveFn fa scope fn want =
     (case fn of None \<Rightarrow> Inl ResMissingFn | Some f \<Rightarrow> rbind (resolve fa scope f) (wantArity want))"

definition resolveCombinator :: "nat gomap \<Rightarrow> string list \<Rightarrow> expr \<Rightarrow> resErr + expr" where
  "resolveCombinator fa scope e =
     (case e of
        EZip fn \<Rightarrow> rbind (rwrap ResBadFn (resolveFn fa scope fn 2)) (\<lambda>f. Inr (EZip (Some f)))
      | ELocal fn \<Rightarrow> rbind (rwrap ResBadFn (resolveFn fa scope fn 1)) (\<lambda>f. Inr (ELocal (Some f)))
      | EWrite fn \<Rightarrow> rbind (rwrap ResBadFn (resolveFn fa scope fn 1)) (\<lambda>f. Inr (EWrite (Some f)))
      | _ \<Rightarrow> Inl ResNotCombinator)"

fun validateResolvedExpr :: "expr \<Rightarrow> resErr + unit" where
  "validateResolvedExpr (ENumLit q) = Inr ()"
| "validateResolvedExpr (EStrLit s) = Inr ()"
| "validateResolvedExpr (EVar x) = Inr ()"
| "validateResolvedExpr (ERef nm a rk) = Inr ()"
| "validateResolvedExpr (EName x) = Inl (UnresolvedName x)"
| "validateResolvedExpr (EApp h as) =
     rbind (case h of None \<Rightarrow> Inl (MissingChild ''application head'')
            | Some h' \<Rightarrow> validateResolvedExpr h') (\<lambda>_. allR validateResolvedExpr as)"
| "validateResolvedExpr (EGuards cs) =
     allR (\<lambda>c. case c of GuardCase cond res ow \<Rightarrow>
       rbind (case cond of
                None \<Rightarrow> if ow then Inr () else Inl (MissingChild ''guard condition'')
              | Some e \<Rightarrow> validateResolvedExpr e) (\<lambda>_.
       case res of None \<Rightarrow> Inl (MissingChild ''guard result'') | Some r \<Rightarrow> validateResolvedExpr r)) cs"
| "validateResolvedExpr (EStructLit sfs) =
     allR (\<lambda>sf. case sf of StructField nm val \<Rightarrow>
       (case val of None \<Rightarrow> Inl (MissingChild ''struct field'') | Some e \<Rightarrow> validateResolvedExpr e)) sfs"
| "validateResolvedExpr (EField t fld) =
     (case t of None \<Rightarrow> Inl (MissingChild ''field target'') | Some t' \<Rightarrow> validateResolvedExpr t')"
| "validateResolvedExpr (EReduce fn init vec) =
     rbind (case fn of None \<Rightarrow> Inl (MissingChild ''reduce function'') | Some e \<Rightarrow> validateResolvedExpr e) (\<lambda>_.
     rbind (case init of None \<Rightarrow> Inl (MissingChild ''reduce init'') | Some e \<Rightarrow> validateResolvedExpr e) (\<lambda>_.
     case vec of None \<Rightarrow> Inl (MissingChild ''reduce vector'') | Some e \<Rightarrow> validateResolvedExpr e))"
| "validateResolvedExpr (EZip f) =
     (case f of None \<Rightarrow> Inl (MissingChild ''combinator function'') | Some e \<Rightarrow> validateResolvedExpr e)"
| "validateResolvedExpr (ELocal f) =
     (case f of None \<Rightarrow> Inl (MissingChild ''combinator function'') | Some e \<Rightarrow> validateResolvedExpr e)"
| "validateResolvedExpr (EWrite f) =
     (case f of None \<Rightarrow> Inl (MissingChild ''combinator function'') | Some e \<Rightarrow> validateResolvedExpr e)"

subsection \<open>What resolution guarantees\<close>

text \<open>The parser's guards: only \<open>otherwise\<close> has no condition.\<close>

fun guarded :: "expr \<Rightarrow> bool" where
  "guarded (EApp h as) = ((case h of None \<Rightarrow> True | Some e \<Rightarrow> guarded e) \<and> list_all guarded as)"
| "guarded (EGuards cs) = list_all (\<lambda>c. case c of GuardCase cd r ow \<Rightarrow>
     (case cd of None \<Rightarrow> ow | Some e \<Rightarrow> guarded e) \<and> (case r of None \<Rightarrow> True | Some e \<Rightarrow> guarded e)) cs"
| "guarded (EStructLit sfs) = list_all (\<lambda>sf. case sf of StructField nm v \<Rightarrow>
     (case v of None \<Rightarrow> True | Some e \<Rightarrow> guarded e)) sfs"
| "guarded (EField t f) = (case t of None \<Rightarrow> True | Some e \<Rightarrow> guarded e)"
| "guarded (EReduce f i v) = ((case f of None \<Rightarrow> True | Some e \<Rightarrow> guarded e) \<and>
     (case i of None \<Rightarrow> True | Some e \<Rightarrow> guarded e) \<and> (case v of None \<Rightarrow> True | Some e \<Rightarrow> guarded e))"
| "guarded (EZip f) = (case f of None \<Rightarrow> True | Some e \<Rightarrow> guarded e)"
| "guarded (ELocal f) = (case f of None \<Rightarrow> True | Some e \<Rightarrow> guarded e)"
| "guarded (EWrite f) = (case f of None \<Rightarrow> True | Some e \<Rightarrow> guarded e)"
| "guarded e = True"

text \<open>
  \<open>closed_in fa scope e\<close>: every variable of the term is in scope, and every reference names a
  primitive or a function of the table and carries its arity.
\<close>

definition ref_ok :: "nat gomap \<Rightarrow> string \<Rightarrow> nat \<Rightarrow> refKind \<Rightarrow> bool" where
  "ref_ok fa nm a rk =
     (case rk of RefPrimitive \<Rightarrow> map_of primitiveArity nm = Some a
      | RefFunction \<Rightarrow> map_of fa nm = Some a \<and> map_of primitiveArity nm = None)"

fun closed_in :: "nat gomap \<Rightarrow> string list \<Rightarrow> expr \<Rightarrow> bool" where
  "closed_in fa sc (ENumLit q) = True"
| "closed_in fa sc (EStrLit s) = True"
| "closed_in fa sc (EName x) = False"
| "closed_in fa sc (EVar x) = (x \<in> set sc)"
| "closed_in fa sc (ERef nm a rk) = ref_ok fa nm a rk"
| "closed_in fa sc (EApp h as) =
     ((case h of None \<Rightarrow> False | Some e \<Rightarrow> closed_in fa sc e) \<and> list_all (closed_in fa sc) as)"
| "closed_in fa sc (EGuards cs) = list_all (\<lambda>c. case c of GuardCase cd r ow \<Rightarrow>
     (case cd of None \<Rightarrow> True | Some e \<Rightarrow> closed_in fa sc e) \<and>
     (case r of None \<Rightarrow> False | Some e \<Rightarrow> closed_in fa sc e)) cs"
| "closed_in fa sc (EStructLit sfs) = list_all (\<lambda>sf. case sf of StructField nm v \<Rightarrow>
     (case v of None \<Rightarrow> False | Some e \<Rightarrow> closed_in fa sc e)) sfs"
| "closed_in fa sc (EField t f) = (case t of None \<Rightarrow> False | Some e \<Rightarrow> closed_in fa sc e)"
| "closed_in fa sc (EReduce f i v) = ((case f of None \<Rightarrow> False | Some e \<Rightarrow> closed_in fa sc e) \<and>
     (case i of None \<Rightarrow> False | Some e \<Rightarrow> closed_in fa sc e) \<and>
     (case v of None \<Rightarrow> False | Some e \<Rightarrow> closed_in fa sc e))"
| "closed_in fa sc (EZip f) = (case f of None \<Rightarrow> False | Some e \<Rightarrow> closed_in fa sc e)"
| "closed_in fa sc (ELocal f) = (case f of None \<Rightarrow> False | Some e \<Rightarrow> closed_in fa sc e)"
| "closed_in fa sc (EWrite f) = (case f of None \<Rightarrow> False | Some e \<Rightarrow> closed_in fa sc e)"

definition resolved_ok :: "nat gomap \<Rightarrow> string list \<Rightarrow> expr \<Rightarrow> bool" where
  "resolved_ok fa sc e \<longleftrightarrow> validateResolvedExpr e = Inr () \<and> closed_in fa sc e"

lemma wantArity_Inr [simp]: "wantArity n e = Inr e' \<longleftrightarrow> e' = e \<and> arityOf e = int n"
  by (auto simp: wantArity_def)

lemma resolveName_ok: "resolveName fa sc nm = Inr e \<Longrightarrow> resolved_ok fa sc e"
  by (auto simp: resolveName_def resolved_ok_def ref_ok_def split: if_splits option.splits)

lemma resolve_ok: "resolve fa sc e = Inr e' \<Longrightarrow> guarded e \<Longrightarrow> resolved_ok fa sc e'"
proof (induction fa sc e arbitrary: e' rule: resolve.induct)
  case (3 fa sc nm)
  then show ?case by (simp add: resolveName_ok)
next
  case (4 fa sc h as)
  then obtain h' hd args where h: "h = Some h'" "resolve fa sc h' = Inr hd"
    and args: "mapR (\<lambda>a. rbind (resolve fa sc a) (\<lambda>ra.
      if arityOf ra \<noteq> 0 then Inl ResFuncAsArg else Inr ra)) as = Inr args"
    and len: "\<not> arityOf hd < int (length as)" and e': "e' = EApp (Some hd) args"
    by (auto split: option.splits if_splits)
  have hd: "resolved_ok fa sc hd" using "4.IH"(1) [OF h] "4.prems"(2) h(1) by simp
  have "resolved_ok fa sc y" if "y \<in> set args" for y
  proof -
    from mapR_Inr_set [OF args that] obtain x where "x \<in> set as" "resolve fa sc x = Inr y"
      by (auto split: if_splits)
    with "4.IH"(2) [OF h len] "4.prems"(2) show ?thesis by (simp add: list_all_iff)
  qed
  with hd e' show ?case by (auto simp: resolved_ok_def list_all_iff allR_iff)
next
  case (5 fa sc cs)
  let ?f = "\<lambda>c. case c of GuardCase cond res ow \<Rightarrow>
    rbind (case cond of None \<Rightarrow> Inr None | Some e \<Rightarrow> rmap Some (resolve fa sc e)) (\<lambda>rc.
    case res of None \<Rightarrow> Inl ResNoResult
    | Some r \<Rightarrow> rbind (resolve fa sc r) (\<lambda>rr. Inr (GuardCase rc (Some rr) ow)))"
  from "5.prems" obtain cs' where ne: "cs \<noteq> []" and cs': "mapR ?f cs = Inr cs'" "e' = EGuards cs'"
    by (auto split: if_splits)
  have "\<exists>rc rr ow. y = GuardCase rc (Some rr) ow \<and> resolved_ok fa sc rr \<and>
      (case rc of None \<Rightarrow> ow | Some e \<Rightarrow> resolved_ok fa sc e)" if "y \<in> set cs'" for y
  proof -
    from mapR_Inr_set [OF cs'(1) that] obtain x where x: "x \<in> set cs" "?f x = Inr y" by blast
    obtain cond res ow where c: "x = GuardCase cond res ow" by (cases x)
    from x c obtain rc r rr where r: "res = Some r" "resolve fa sc r = Inr rr"
      and rc: "(case cond of None \<Rightarrow> Inr None | Some e \<Rightarrow> rmap Some (resolve fa sc e)) = Inr rc"
      and y: "y = GuardCase rc (Some rr) ow"
      by (auto split: option.splits)
    have g: "(case cond of None \<Rightarrow> ow | Some e \<Rightarrow> guarded e)" "guarded r"
      using "5.prems"(2) x(1) c r by (auto simp: list_all_iff)
    have "resolved_ok fa sc rr" using "5.IH"(2) [OF ne x(1) c rc r] g by simp
    moreover have "case rc of None \<Rightarrow> ow | Some e \<Rightarrow> resolved_ok fa sc e"
    proof (cases cond)
      case None
      with rc g show ?thesis by simp
    next
      case (Some e)
      with rc obtain e'' where "rc = Some e''" "resolve fa sc e = Inr e''" by auto
      with "5.IH"(1) [OF ne x(1) c Some] g Some show ?thesis by simp
    qed
    ultimately show ?thesis using y by blast
  qed
  note shape = this
  show ?case
    unfolding resolved_ok_def cs'(2) validateResolvedExpr.simps closed_in.simps allR_iff list_all_iff
  proof (intro conjI ballI)
    fix y assume "y \<in> set cs'"
    from shape [OF this] obtain rc rr ow where y: "y = GuardCase rc (Some rr) ow" "resolved_ok fa sc rr"
      and rc: "case rc of None \<Rightarrow> ow | Some e \<Rightarrow> resolved_ok fa sc e" by blast
    then show "(case y of GuardCase cond res ow \<Rightarrow>
       rbind (case cond of
                None \<Rightarrow> if ow then Inr () else Inl (MissingChild ''guard condition'')
              | Some e \<Rightarrow> validateResolvedExpr e) (\<lambda>_.
       case res of None \<Rightarrow> Inl (MissingChild ''guard result'') | Some r \<Rightarrow> validateResolvedExpr r)) = Inr ()"
      by (cases rc) (simp_all add: resolved_ok_def)
    from y rc show "case y of GuardCase cd r ow \<Rightarrow>
       (case cd of None \<Rightarrow> True | Some e \<Rightarrow> closed_in fa sc e) \<and>
       (case r of None \<Rightarrow> False | Some e \<Rightarrow> closed_in fa sc e)"
      by (cases rc) (simp_all add: resolved_ok_def)
  qed
next
  case (6 fa sc sfs)
  let ?f = "\<lambda>sf. case sf of StructField nm val \<Rightarrow>
    (case val of None \<Rightarrow> Inl (ResFieldNoValue nm)
     | Some e \<Rightarrow> rbind (resolve fa sc e) (\<lambda>rv.
         if arityOf rv \<noteq> 0 then Inl (ResFieldNotValue nm) else Inr (StructField nm (Some rv))))"
  from "6.prems" obtain sfs' where sfs': "mapR ?f sfs = Inr sfs'" "e' = EStructLit sfs'" by auto
  have "\<exists>nm rv. y = StructField nm (Some rv) \<and> resolved_ok fa sc rv" if "y \<in> set sfs'" for y
  proof -
    from mapR_Inr_set [OF sfs'(1) that] obtain x where x: "x \<in> set sfs" "?f x = Inr y" by blast
    obtain nm val where c: "x = StructField nm val" by (cases x)
    from x c obtain e rv where e: "val = Some e" "resolve fa sc e = Inr rv" "y = StructField nm (Some rv)"
      by (auto split: option.splits if_splits)
    with "6.IH" [OF x(1) c e(1,2)] "6.prems"(2) x(1) c show ?thesis by (auto simp: list_all_iff)
  qed
  then show ?case using sfs'(2) by (force simp: resolved_ok_def list_all_iff allR_iff)
next
  case (7 fa sc t fld)
  then show ?case by (auto simp: resolved_ok_def split: option.splits if_splits)
next
  case (8 fa sc fn init vec)
  then show ?case by (fastforce simp: resolved_ok_def split: option.splits if_splits)
qed (auto simp: resolved_ok_def)

lemma resolveFn_ok:
  "resolveFn fa sc fn n = Inr e' \<Longrightarrow> (case fn of None \<Rightarrow> True | Some e \<Rightarrow> guarded e) \<Longrightarrow>
   resolved_ok fa sc e' \<and> arityOf e' = int n"
  by (cases fn) (auto simp: resolveFn_def resolve_ok)

text \<open>
  C19: The builder's check of its own output never fires. Whatever term of the parser's shape
  \<open>resolve\<close> or \<open>resolveCombinator\<close> accepts, the result passes \<open>validateResolvedExpr\<close>, has no
  unresolved name, only variables that are in scope, and only references to primitives and
  declared functions, each with its arity.
\<close>

theorem resolve_validates:
  assumes "resolve fa sc e = Inr e' \<or> resolveCombinator fa sc e = Inr e'" and "guarded e"
  shows "validateResolvedExpr e' = Inr () \<and> closed_in fa sc e'"
  using assms(1)
proof
  assume "resolve fa sc e = Inr e'"
  from resolve_ok [OF this assms(2)] show ?thesis by (simp add: resolved_ok_def)
next
  assume "resolveCombinator fa sc e = Inr e'"
  with assms(2) show ?thesis
    by (cases e) (auto simp: resolveCombinator_def resolved_ok_def dest!: resolveFn_ok)
qed

lemma resolve_validates_witness:
  "validateResolvedExpr (ELocal (Some (EApp (Some (ERef ''+'' 2 RefPrimitive)) [EVar ''k'']))) = Inr () \<and>
   closed_in [] [''k''] (ELocal (Some (EApp (Some (ERef ''+'' 2 RefPrimitive)) [EVar ''k''])))"
  by (rule resolve_validates [of "[]" "[''k'']" "ELocal (Some (EApp (Some (EName ''+'')) [EName ''k'']))"])
    (simp_all add: resolveCombinator_def resolveFn_def resolveName_def primitiveArity_def)

end
