(* ===== verification/VTypes.thy ===== *)
theory VTypes
  imports Syntax Resolve
begin

text \<open>
  builder/checker.go, the checker's types and the rules that work on types alone: \<open>vtype\<close> (values
  and function signatures), lifting and lowering of element descriptors, subtyping, equality,
  unification, the per-operator result rules and the application of arguments to a signature.
  A nil \<open>fn\<close> or \<open>elem\<close> pointer never occurs in a type the checker builds (\<open>mkFunc\<close> and \<open>vVector\<close>
  set them), so the constructors carry the signature and the element themselves.
\<close>

datatype vtype =
    VtUnknown
  | VtNum numType
  | VtBool
  | VtString
  | VtStruct string "(string \<times> vtype) list"
  | VtFunc fnType
  | VtVector vtype
and fnType =
  FnType (ft_params: "vtype list") (ft_result: vtype) (ft_op: string) (ft_bound: "vtype list")

datatype chkErr =
    ChkUnbound string
  | ChkUnknownPrim string
  | ChkUnknownFn string
  | ChkNoHead
  | ChkNotFunc
  | ChkFuncArg
  | ChkTooManyArgs nat nat
  | ChkArg nat
  | ChkCmpOperand nat
  | ChkCmpMixed
  | ChkDupField string
  | ChkFieldNotValue string
  | ChkFieldOfFunc
  | ChkFieldOfNonStruct string
  | ChkNoField string
  | ChkReduceMalformed
  | ChkReduceFn
  | ChkReduceInit
  | ChkReduceVec
  | ChkReduceResult chkErr
  | ChkNoCases
  | ChkOtherwiseLast
  | ChkNoOtherwise
  | ChkNoCond
  | ChkCondFunc
  | ChkCondNotBool
  | ChkNoResult
  | ChkResultFunc
  | ChkGuardTypes chkErr
  | ChkMismatch
  | ChkKind
  | ChkBodyFunc nat
  | ChkUnanchored
  | ChkDeclared
  | ChkQueryNotFunc
  | ChkQueryArity nat
  | ChkQueryVec
  | ChkQueryResult
  | ChkCombNoFn
  | ChkCombNotFunc
  | ChkCombResult
  | ChkLower
  | ChkPanic
  | ChkFuel

definition isFunc :: "vtype \<Rightarrow> bool" where
  "isFunc t = (case t of VtFunc f \<Rightarrow> True | _ \<Rightarrow> False)"

definition numTop :: vtype where
  "numTop = VtNum (NumType DRat SAny)"

text \<open>The \<open>num\<close> field of a type; in Go it is the zero value on other kinds.\<close>

definition vt_num :: "vtype \<Rightarrow> numType" where
  "vt_num t = (case t of VtNum nt \<Rightarrow> nt | _ \<Rightarrow> NumType DRat SAny)"

subsection \<open>Element descriptors\<close>

fun vElem :: "elemT \<Rightarrow> vtype"
and vElemFields :: "(string \<times> elemT) list \<Rightarrow> (string \<times> vtype) list" where
  "vElem (TStruct nm fs) = VtStruct nm (vElemFields fs)"
| "vElem TStr = VtString"
| "vElem (TNum nt) = VtNum nt"
| "vElemFields [] = []"
| "vElemFields ((k, t) # fs) = (k, vElem t) # vElemFields fs"

fun elemTOf :: "vtype \<Rightarrow> chkErr + elemT"
and elemTOfFields :: "(string \<times> vtype) list \<Rightarrow> chkErr + (string \<times> elemT) list" where
  "elemTOf (VtStruct nm fs) = rbind (elemTOfFields fs) (\<lambda>fs'. Inr (TStruct nm fs'))"
| "elemTOf VtString = Inr TStr"
| "elemTOf (VtNum nt) = Inr (TNum nt)"
| "elemTOf VtUnknown = Inl ChkLower"
| "elemTOf VtBool = Inl ChkLower"
| "elemTOf (VtFunc f) = Inl ChkLower"
| "elemTOf (VtVector t) = Inl ChkLower"
| "elemTOfFields [] = Inr []"
| "elemTOfFields ((k, t) # fs) =
     rbind (elemTOf t) (\<lambda>ft. rbind (elemTOfFields fs) (\<lambda>fs'. Inr ((k, ft) # fs')))"

definition findField :: "(string \<times> vtype) list \<Rightarrow> string \<Rightarrow> vtype option" where
  "findField fs nm = map_of fs nm"

subsection \<open>Predicates and relations on types\<close>

fun containsUnknown :: "vtype \<Rightarrow> bool" where
  "containsUnknown VtUnknown = True"
| "containsUnknown (VtStruct nm fs) = list_ex (\<lambda>kt. containsUnknown (snd kt)) fs"
| "containsUnknown (VtFunc f) =
     (case f of FnType ps r op b \<Rightarrow> list_ex containsUnknown ps \<or> containsUnknown r)"
| "containsUnknown (VtVector t) = containsUnknown t"
| "containsUnknown (VtNum nt) = False"
| "containsUnknown VtBool = False"
| "containsUnknown VtString = False"

fun containsVector :: "vtype \<Rightarrow> bool" where
  "containsVector (VtVector t) = True"
| "containsVector (VtStruct nm fs) = list_ex (\<lambda>kt. containsVector (snd kt)) fs"
| "containsVector (VtFunc f) = False"
| "containsVector VtUnknown = False"
| "containsVector (VtNum nt) = False"
| "containsVector VtBool = False"
| "containsVector VtString = False"

function (sequential) subVtype :: "vtype \<Rightarrow> vtype \<Rightarrow> bool"
and subFields :: "(string \<times> vtype) list \<Rightarrow> (string \<times> vtype) list \<Rightarrow> bool"
and subAll :: "vtype list \<Rightarrow> vtype list \<Rightarrow> bool" where
  "subVtype VtUnknown b = True"
| "subVtype a VtUnknown = True"
| "subVtype (VtNum a) (VtNum b) = nt_Sub a b"
| "subVtype (VtStruct n fs) (VtStruct m gs) = (length fs = length gs \<and> subFields fs gs)"
| "subVtype (VtFunc (FnType ps r op bd)) (VtFunc (FnType qs r' op' bd')) =
     (length ps = length qs \<and> subAll ps qs \<and> subVtype r r')"
| "subVtype (VtVector a) (VtVector b) = subVtype a b"
| "subVtype VtBool VtBool = True"
| "subVtype VtString VtString = True"
| "subVtype a b = False"
| "subFields fs [] = True"
| "subFields fs ((k, bt) # gs) =
     ((case findField fs k of None \<Rightarrow> False | Some af \<Rightarrow> subVtype af bt) \<and> subFields fs gs)"
| "subAll (a # as) (b # bs) = (subVtype a b \<and> subAll as bs)"
| "subAll as bs = True"
  by pat_completeness auto
termination
  by (relation "measure (case_sum (\<lambda>(a, b). size b)
      (case_sum (\<lambda>(fs, gs). size_list (size_prod (\<lambda>_. 0) size) gs) (\<lambda>(as, bs). size_list size bs)))")
    auto

function (sequential) vtypeEqual :: "vtype \<Rightarrow> vtype \<Rightarrow> bool"
and equalFields :: "(string \<times> vtype) list \<Rightarrow> (string \<times> vtype) list \<Rightarrow> bool"
and equalAll :: "vtype list \<Rightarrow> vtype list \<Rightarrow> bool" where
  "vtypeEqual VtUnknown VtUnknown = True"
| "vtypeEqual (VtNum a) (VtNum b) = (a = b)"
| "vtypeEqual (VtStruct n fs) (VtStruct m gs) = (length fs = length gs \<and> equalFields fs gs)"
| "vtypeEqual (VtFunc (FnType ps r op bd)) (VtFunc (FnType qs r' op' bd')) =
     (length ps = length qs \<and> equalAll ps qs \<and> vtypeEqual r r')"
| "vtypeEqual (VtVector a) (VtVector b) = vtypeEqual a b"
| "vtypeEqual VtBool VtBool = True"
| "vtypeEqual VtString VtString = True"
| "vtypeEqual a b = False"
| "equalFields [] gs = True"
| "equalFields ((k, ta) # fs) gs =
     ((case findField gs k of None \<Rightarrow> False | Some bf \<Rightarrow> vtypeEqual ta bf) \<and> equalFields fs gs)"
| "equalAll (a # as) (b # bs) = (vtypeEqual a b \<and> equalAll as bs)"
| "equalAll as bs = True"
  by pat_completeness auto
termination
  by (relation "measure (case_sum (\<lambda>(a, b). size a)
      (case_sum (\<lambda>(fs, gs). size_list (size_prod (\<lambda>_. 0) size) fs) (\<lambda>(as, bs). size_list size as)))")
    auto

function (sequential) unify :: "vtype \<Rightarrow> vtype \<Rightarrow> chkErr + vtype"
and unifyFields :: "(string \<times> vtype) list \<Rightarrow> (string \<times> vtype) list \<Rightarrow> chkErr + (string \<times> vtype) list" where
  "unify VtUnknown b = Inr b"
| "unify a VtUnknown = Inr a"
| "unify (VtNum a) (VtNum b) = Inr (VtNum (nt_Join a b))"
| "unify (VtStruct n fs) (VtStruct m gs) =
     (if length fs \<noteq> length gs then Inl ChkMismatch
      else rbind (unifyFields fs gs) (\<lambda>hs. Inr (VtStruct n hs)))"
| "unify (VtFunc f) (VtFunc g) =
     (if vtypeEqual (VtFunc f) (VtFunc g) then Inr (VtFunc f) else Inl ChkMismatch)"
| "unify VtBool VtBool = Inr VtBool"
| "unify VtString VtString = Inr VtString"
| "unify (VtVector a) (VtVector b) = Inr (VtVector a)"
| "unify a b = Inl ChkMismatch"
| "unifyFields [] gs = Inr []"
| "unifyFields ((k, ta) # fs) gs =
     (case findField gs k of
        None \<Rightarrow> Inl ChkMismatch
      | Some bf \<Rightarrow>
          rbind (unify ta bf) (\<lambda>u. rbind (unifyFields fs gs) (\<lambda>hs. Inr ((k, u) # hs))))"
  by pat_completeness auto
termination
  by (relation "measure (case_sum (\<lambda>(a, b). size a)
      (\<lambda>(fs, gs). size_list (size_prod (\<lambda>_. 0) size) fs))") auto

subsection \<open>Result rules of the operators\<close>

definition negateSign :: "sign \<Rightarrow> sign" where
  "negateSign s = (case s of SNonNeg \<Rightarrow> SNonPos | SNonPos \<Rightarrow> SNonNeg | _ \<Rightarrow> s)"

definition addSign :: "sign \<Rightarrow> sign \<Rightarrow> sign" where
  "addSign a b =
     (if a = SZero then b else if b = SZero then a
      else if a = SNonNeg \<and> b = SNonNeg then SNonNeg
      else if a = SNonPos \<and> b = SNonPos then SNonPos
      else SAny)"

definition mulSign :: "sign \<Rightarrow> sign \<Rightarrow> sign" where
  "mulSign a b =
     (if a = SZero \<or> b = SZero then SZero
      else if a = b then SNonNeg
      else if a = SAny \<or> b = SAny then SAny
      else SNonPos)"

definition maxSign :: "sign \<Rightarrow> sign \<Rightarrow> sign" where
  "maxSign a b =
     (if a = SZero \<and> b = SZero then SZero
      else if a = SNonNeg \<or> b = SNonNeg \<or> a = SZero \<or> b = SZero then SNonNeg
      else if a = SNonPos \<and> b = SNonPos then SNonPos
      else SAny)"

definition minSign :: "sign \<Rightarrow> sign \<Rightarrow> sign" where
  "minSign a b =
     (if a = SZero \<and> b = SZero then SZero
      else if a = SNonPos \<or> b = SNonPos \<or> a = SZero \<or> b = SZero then SNonPos
      else if a = SNonNeg \<and> b = SNonNeg then SNonNeg
      else SAny)"

definition numBin :: "string \<Rightarrow> numType \<Rightarrow> numType \<Rightarrow> numType" where
  "numBin op a b =
     NumType
       (if nt_domain a = DRat \<or> nt_domain b = DRat then DRat else DInt)
       (if op = ''+'' then addSign (nt_sign a) (nt_sign b)
        else if op = ''-'' then addSign (nt_sign a) (negateSign (nt_sign b))
        else if op = ''*'' then mulSign (nt_sign a) (nt_sign b)
        else if op = ''max'' then maxSign (nt_sign a) (nt_sign b)
        else if op = ''min'' then minSign (nt_sign a) (nt_sign b)
        else SAny)"

definition cmpOps :: "string list" where
  "cmpOps = [''>'', ''<'', ''>='', ''<='', ''=='', ''/='']"

definition resultOf :: "string \<Rightarrow> vtype \<Rightarrow> vtype list \<Rightarrow> chkErr + vtype" where
  "resultOf op fallback operands =
     (if op = [] then Inr fallback
      else if VtUnknown \<in> set operands then Inr VtUnknown
      else if op \<in> set cmpOps then Inr VtBool
      else case operands of
          a # b # _ \<Rightarrow> Inr (VtNum (numBin op (vt_num a) (vt_num b)))
        | _ \<Rightarrow> Inl ChkPanic)"

fun vt_kind :: "vtype \<Rightarrow> nat" where
  "vt_kind VtUnknown = 0"
| "vt_kind (VtNum nt) = 1"
| "vt_kind VtBool = 2"
| "vt_kind VtString = 3"
| "vt_kind (VtStruct n fs) = 4"
| "vt_kind (VtFunc f) = 5"
| "vt_kind (VtVector t) = 6"

definition checkCmpOperands :: "vtype list \<Rightarrow> chkErr + unit" where
  "checkCmpOperands operands =
     (case operands of
        [l, r] \<Rightarrow>
          if l = VtUnknown \<or> r = VtUnknown then Inr ()
          else if vt_kind l \<noteq> vt_kind r then Inl ChkCmpMixed
          else Inr ()
      | _ \<Rightarrow> Inr ())"

text \<open>The check of one argument; a comparison takes numbers and strings.\<close>

definition checkArg :: "string \<Rightarrow> nat \<Rightarrow> vtype \<Rightarrow> vtype \<Rightarrow> chkErr + unit" where
  "checkArg op i a p =
     (if op \<in> set cmpOps then
        (if vt_kind a \<in> {0, 1, 3} then Inr () else Inl (ChkCmpOperand i))
      else if subVtype a p then Inr () else Inl (ChkArg i))"

fun checkArgs :: "string \<Rightarrow> nat \<Rightarrow> vtype list \<Rightarrow> vtype list \<Rightarrow> chkErr + unit" where
  "checkArgs op i (a # as) (p # ps) = rbind (checkArg op i a p) (\<lambda>_. checkArgs op (i + 1) as ps)"
| "checkArgs op i as ps = Inr ()"

definition applyArgs :: "fnType \<Rightarrow> vtype list \<Rightarrow> chkErr + vtype" where
  "applyArgs f args =
     (if length args > length (ft_params f)
      then Inl (ChkTooManyArgs (length (ft_params f)) (length args))
      else
        rbind (checkArgs (ft_op f) 1 args (ft_params f)) (\<lambda>_.
        let bound = ft_bound f @ args; remaining = drop (length args) (ft_params f) in
        if remaining = [] then
          rbind (if ft_op f \<in> set cmpOps then checkCmpOperands bound else Inr ()) (\<lambda>_.
          resultOf (ft_op f) (ft_result f) bound)
        else Inr (VtFunc (FnType remaining (ft_result f) (ft_op f) bound))))"

definition literalType :: "rat \<Rightarrow> vtype" where
  "literalType q =
     (if rat_Sign q = 0 then VtNum (NumType DInt SZero)
      else VtNum (NumType (if rat_IsInt q then DInt else DRat)
                    (if rat_Sign q < 0 then SNonPos else SNonNeg)))"

end
