(* ===== verification/Checker.thy ===== *)
theory Checker
  imports VTypes
begin

text \<open>
  builder/checker.go, the checker: \<open>typeOf\<close> with its cases, \<open>inferReturn\<close> with the memo table,
  \<open>checkQueryFn\<close> and \<open>checkCombinatorFn\<close>. The tables filled by \<open>register\<close> are the record
  \<open>checker\<close>; the maps the inference mutates, \<open>result\<close> and \<open>inProgress\<close>, are the record \<open>memo\<close>,
  threaded through every call (an error abandons the build, so no memo is returned with it).

  Go's recursion through \<open>inferReturn\<close> ends because a function already in \<open>result\<close> or
  \<open>inProgress\<close> is not visited again. The model counts nested visits with fuel \<open>n\<close>; as many as
  there are unvisited functions suffice (\<open>typeOf_fuel\<close> in CheckerProps), so \<open>ChkFuel\<close> is never
  the outcome of a build.
\<close>

record checker =
  ck_fnParams :: "vtype list gomap"
  ck_fnScope :: "vtype gomap gomap"
  ck_fnBody :: "expr gomap"
  ck_annotations :: "vtype gomap"

record memo =
  mm_result :: "vtype gomap"
  mm_inProgress :: "string list"

definition newMemo :: memo where
  "newMemo = \<lparr> mm_result = [], mm_inProgress = [] \<rparr>"

text \<open>The fixpoint iteration of \<open>typeOfReduce\<close>, at most \<open>k\<close> rounds (the code has 16).\<close>

fun reduceLoop :: "nat \<Rightarrow> fnType \<Rightarrow> vtype \<Rightarrow> vtype \<Rightarrow> chkErr + vtype" where
  "reduceLoop 0 f acc elemV = Inr acc"
| "reduceLoop (Suc k) f acc elemV =
     rbind (applyArgs f [acc, elemV]) (\<lambda>sat.
     if sat = VtUnknown then Inr acc
     else
       rbind (rwrap ChkReduceResult (unify acc sat)) (\<lambda>next.
       if vtypeEqual next acc then Inr acc
       else reduceLoop k f next elemV))"

definition reduceRounds :: nat where
  "reduceRounds = 16"

text \<open>The final checks of \<open>inferReturn\<close> on the type of a body.\<close>

definition checkBody :: "vtype option \<Rightarrow> vtype \<Rightarrow> chkErr + vtype" where
  "checkBody ann bodyT =
     (case bodyT of
        VtFunc f \<Rightarrow> Inl (ChkBodyFunc (length (ft_params f)))
      | _ \<Rightarrow>
          if containsUnknown bodyT then Inl ChkUnanchored
          else case ann of
              None \<Rightarrow> Inr bodyT
            | Some a \<Rightarrow> if subVtype bodyT a then Inr a else Inl ChkDeclared)"

function (sequential) typeOf :: "checker \<Rightarrow> nat \<Rightarrow> memo \<Rightarrow> vtype gomap \<Rightarrow> expr \<Rightarrow> chkErr + vtype \<times> memo"
and typeArgs :: "checker \<Rightarrow> nat \<Rightarrow> memo \<Rightarrow> vtype gomap \<Rightarrow> expr list \<Rightarrow> chkErr + vtype list \<times> memo"
and typeFields :: "checker \<Rightarrow> nat \<Rightarrow> memo \<Rightarrow> vtype gomap \<Rightarrow> structField list \<Rightarrow> string list \<Rightarrow> chkErr + (string \<times> vtype) list \<times> memo"
and typeCases :: "checker \<Rightarrow> nat \<Rightarrow> memo \<Rightarrow> vtype gomap \<Rightarrow> guardCase list \<Rightarrow> vtype \<Rightarrow> chkErr + vtype \<times> memo"
and inferReturn :: "checker \<Rightarrow> nat \<Rightarrow> memo \<Rightarrow> string \<Rightarrow> chkErr + vtype \<times> memo"
where
  "typeOf C n st sc (ENumLit q) = Inr (literalType q, st)"
| "typeOf C n st sc (EStrLit s) = Inr (VtString, st)"
| "typeOf C n st sc (EVar x) =
     (case map_of sc x of None \<Rightarrow> Inl (ChkUnbound x) | Some t \<Rightarrow> Inr (t, st))"
| "typeOf C n st sc (ERef nm a RefPrimitive) =
     (case map_of primitiveArity nm of
        None \<Rightarrow> Inl (ChkUnknownPrim nm)
      | Some k \<Rightarrow> Inr (VtFunc (FnType (replicate k numTop) VtUnknown nm []), st))"
| "typeOf C n st sc (ERef nm a RefFunction) =
     (case map_of (ck_fnParams C) nm of
        None \<Rightarrow> Inl (ChkUnknownFn nm)
      | Some ps \<Rightarrow>
          rbind (inferReturn C n st nm) (\<lambda>(res, st').
          Inr (VtFunc (FnType ps res [] []), st')))"
| "typeOf C n st sc (EApp h as) =
     (case h of
        None \<Rightarrow> Inl ChkNoHead
      | Some h' \<Rightarrow>
          rbind (typeOf C n st sc h') (\<lambda>(hs, st1).
          case hs of
            VtFunc f \<Rightarrow>
              rbind (typeArgs C n st1 sc as) (\<lambda>(ts, st2).
              rbind (applyArgs f ts) (\<lambda>t. Inr (t, st2)))
          | _ \<Rightarrow> Inl ChkNotFunc))"
| "typeOf C n st sc (EGuards cs) =
     (if cs = [] then Inl ChkNoCases else typeCases C n st sc cs VtUnknown)"
| "typeOf C n st sc (EStructLit sfs) =
     rbind (typeFields C n st sc sfs []) (\<lambda>(fs, st'). Inr (VtStruct [] fs, st'))"
| "typeOf C n st sc (EField t fld) =
     (case t of
        None \<Rightarrow> Inl ChkPanic
      | Some t' \<Rightarrow>
          rbind (typeOf C n st sc t') (\<lambda>(ts, st').
          case ts of
            VtFunc f \<Rightarrow> Inl ChkFieldOfFunc
          | VtStruct nm fs \<Rightarrow>
              (case findField fs fld of None \<Rightarrow> Inl (ChkNoField fld) | Some ft \<Rightarrow> Inr (ft, st'))
          | _ \<Rightarrow> Inl (ChkFieldOfNonStruct fld)))"
| "typeOf C n st sc (EReduce fn init vec) =
     (case fn of None \<Rightarrow> Inl ChkReduceMalformed | Some f' \<Rightarrow>
      case init of None \<Rightarrow> Inl ChkReduceMalformed | Some i' \<Rightarrow>
      case vec of None \<Rightarrow> Inl ChkReduceMalformed | Some v' \<Rightarrow>
        rbind (typeOf C n st sc f') (\<lambda>(fs, st1).
        case fs of
          VtFunc f \<Rightarrow>
            if length (ft_params f) \<noteq> 2 then Inl ChkReduceFn
            else
              rbind (typeOf C n st1 sc i') (\<lambda>(initT, st2).
              if isFunc initT then Inl ChkReduceInit
              else
                rbind (typeOf C n st2 sc v') (\<lambda>(vt, st3).
                case vt of
                  VtVector elemV \<Rightarrow>
                    rbind (reduceLoop reduceRounds f initT elemV) (\<lambda>t. Inr (t, st3))
                | _ \<Rightarrow> Inl ChkReduceVec))
        | _ \<Rightarrow> Inl ChkReduceFn))"
| "typeOf C n st sc (EName x) = Inl ChkKind"
| "typeOf C n st sc (EZip f) = Inl ChkKind"
| "typeOf C n st sc (ELocal f) = Inl ChkKind"
| "typeOf C n st sc (EWrite f) = Inl ChkKind"
| "typeArgs C n st sc [] = Inr ([], st)"
| "typeArgs C n st sc (e # es) =
     rbind (typeOf C n st sc e) (\<lambda>(t, st1).
     if isFunc t then Inl ChkFuncArg
     else rbind (typeArgs C n st1 sc es) (\<lambda>(ts, st2). Inr (t # ts, st2)))"
| "typeFields C n st sc [] seen = Inr ([], st)"
| "typeFields C n st sc (StructField nm val # sfs) seen =
     (if nm \<in> set seen then Inl (ChkDupField nm)
      else case val of
          None \<Rightarrow> Inl ChkPanic
        | Some e \<Rightarrow>
            rbind (typeOf C n st sc e) (\<lambda>(t, st1).
            if isFunc t then Inl (ChkFieldNotValue nm)
            else rbind (typeFields C n st1 sc sfs (nm # seen)) (\<lambda>(fs, st2).
              Inr ((nm, t) # fs, st2))))"
| "typeCases C n st sc [] acc = Inr (acc, st)"
| "typeCases C n st sc (GuardCase cond res ow # cs) acc =
     (if ow \<and> cs \<noteq> [] then Inl ChkOtherwiseLast
      else if \<not> ow \<and> cs = [] then Inl ChkNoOtherwise
      else
        rbind (if ow then Inr st
               else case cond of
                   None \<Rightarrow> Inl ChkNoCond
                 | Some c' \<Rightarrow>
                     rbind (typeOf C n st sc c') (\<lambda>(ct, st').
                     if isFunc ct then Inl ChkCondFunc
                     else if ct \<noteq> VtBool \<and> ct \<noteq> VtUnknown then Inl ChkCondNotBool
                     else Inr st')) (\<lambda>st1.
        case res of
          None \<Rightarrow> Inl ChkNoResult
        | Some r' \<Rightarrow>
            rbind (typeOf C n st1 sc r') (\<lambda>(rt, st2).
            if isFunc rt then Inl ChkResultFunc
            else
              rbind (rwrap ChkGuardTypes (unify acc rt)) (\<lambda>u.
              typeCases C n st2 sc cs u))))"
| "inferReturn C n st nm =
     (case map_of (mm_result st) nm of
        Some r \<Rightarrow> Inr (r, st)
      | None \<Rightarrow>
          (case map_of (ck_annotations C) nm of
             Some ann \<Rightarrow>
               if n = 0 then Inl ChkFuel
               else case (map_of (ck_fnBody C) nm, map_of (ck_fnScope C) nm) of
                   (Some body, Some sc) \<Rightarrow>
                     rbind (typeOf C (n - 1) (st\<lparr>mm_result := mput nm ann (mm_result st)\<rparr>) sc body) (\<lambda>(bt, st1).
                     rbind (checkBody (Some ann) bt) (\<lambda>t. Inr (t, st1)))
                 | _ \<Rightarrow> Inl ChkPanic
           | None \<Rightarrow>
               if nm \<in> set (mm_inProgress st) then Inr (VtUnknown, st)
               else if n = 0 then Inl ChkFuel
               else case (map_of (ck_fnBody C) nm, map_of (ck_fnScope C) nm) of
                   (Some body, Some sc) \<Rightarrow>
                     rbind (typeOf C (n - 1) (st\<lparr>mm_inProgress := nm # mm_inProgress st\<rparr>) sc body) (\<lambda>(bt, st1).
                     rbind (checkBody None bt) (\<lambda>t.
                     Inr (t, st1\<lparr>mm_inProgress := removeAll nm (mm_inProgress st1),
                                 mm_result := mput nm t (mm_result st1)\<rparr>)))
                 | _ \<Rightarrow> Inl ChkPanic))"
  by pat_completeness auto

termination
proof (relation "measures
    [case_sum
       (case_sum (\<lambda>(C, n, st, sc, e). n) (\<lambda>(C, n, st, sc, es). n))
       (case_sum (\<lambda>(C, n, st, sc, sfs, seen). n)
         (case_sum (\<lambda>(C, n, st, sc, cs, acc). n) (\<lambda>(C, n, st, nm). n))),
     case_sum (case_sum (\<lambda>_. 1) (\<lambda>_. 1)) (case_sum (\<lambda>_. 1) (case_sum (\<lambda>_. 1) (\<lambda>_. 0))),
     case_sum
       (case_sum (\<lambda>(C, n, st, sc, e). size e) (\<lambda>(C, n, st, sc, es). size_list size es))
       (case_sum (\<lambda>(C, n, st, sc, sfs, seen). size_list size sfs)
         (case_sum (\<lambda>(C, n, st, sc, cs, acc). size_list size cs) (\<lambda>(C, n, st, nm). 0)))]", goal_cases)
  case 1
  then show ?case by simp
qed simp_all

declare inferReturn.simps [simp del]

text \<open>A function is checked with as much fuel as there are functions.\<close>

definition chkFuel :: "checker \<Rightarrow> nat" where
  "chkFuel C = length (ck_fnParams C)"

text \<open>
  \<open>checkQueryFn\<close>: the body still expects one argument, the vector, and its result is a value that
  can be serialised.
\<close>

definition checkQueryFn :: "checker \<Rightarrow> memo \<Rightarrow> expr \<Rightarrow> vtype gomap \<Rightarrow> elemT \<Rightarrow> chkErr + vtype \<times> memo" where
  "checkQueryFn C st e sc elem =
     rbind (typeOf C (chkFuel C) st sc e) (\<lambda>(t, st').
     case t of
       VtFunc f \<Rightarrow>
         if length (ft_params f) \<noteq> 1 then Inl (ChkQueryArity (length (ft_params f)))
         else
           (let vecArg = VtVector (vElem elem) in
            case hd (ft_params f) of
              VtVector w \<Rightarrow>
                if \<not> subVtype vecArg (VtVector w) then Inl ChkQueryVec
                else
                  rbind (applyArgs f [vecArg]) (\<lambda>res.
                  if isFunc res then Inl ChkQueryResult
                  else if vt_kind res = 6 then Inl ChkQueryResult
                  else if containsVector res then Inl ChkQueryResult
                  else if containsUnknown res then Inl ChkQueryResult
                  else Inr (res, st'))
            | _ \<Rightarrow> Inl ChkQueryVec)
     | _ \<Rightarrow> Inl ChkQueryNotFunc)"

text \<open>\<open>checkCombinatorFn\<close>: applied to slots (or, for \<open>write\<close>, the vector) the function yields an
  element.\<close>

definition combFn :: "expr \<Rightarrow> (bool \<times> expr) option" where
  "combFn comb =
     (case comb of
        EZip f \<Rightarrow> map_option (\<lambda>e. (False, e)) f
      | ELocal f \<Rightarrow> map_option (\<lambda>e. (False, e)) f
      | EWrite f \<Rightarrow> map_option (\<lambda>e. (True, e)) f
      | _ \<Rightarrow> None)"

definition checkCombinatorFn :: "checker \<Rightarrow> memo \<Rightarrow> expr \<Rightarrow> vtype gomap \<Rightarrow> elemT \<Rightarrow> chkErr + memo" where
  "checkCombinatorFn C st comb sc elem =
     (case combFn comb of
        None \<Rightarrow> Inl ChkCombNoFn
      | Some (write, fn) \<Rightarrow>
          rbind (typeOf C (chkFuel C) st sc fn) (\<lambda>(t, st').
          case t of
            VtFunc f \<Rightarrow>
              rbind (applyArgs f (map (\<lambda>_. if write then VtVector (vElem elem) else vElem elem) (ft_params f)))
                (\<lambda>sat.
                if containsUnknown sat then Inr st'
                else if subVtype sat (vElem elem) then Inr st'
                else Inl ChkCombResult)
          | _ \<Rightarrow> Inl ChkCombNotFunc))"

end
