(* ===== verification/CheckerRuns.thy ===== *)
theory CheckerRuns
  imports Checker
begin

text \<open>
  Runs of the checker: inversion lemmas of its operations, the successful runs as an inductive
  relation (\<open>ty\<close> and its companions, with \<open>typeOf_derivation\<close>), and what every run does to the
  memo tables.
\<close>

subsection \<open>Inversion\<close>

lemma case_func_eq:
  "(case t of VtFunc f \<Rightarrow> g f | _ \<Rightarrow> Inl e) = Inr y \<longleftrightarrow> (\<exists>f. t = VtFunc f \<and> g f = Inr y)"
  "(case t of VtFunc f \<Rightarrow> g f | _ \<Rightarrow> Inl e) = Inl x \<longleftrightarrow>
     (\<exists>f. t = VtFunc f \<and> g f = Inl x) \<or> (\<not> isFunc t \<and> e = x)"
  by (cases t; auto simp: isFunc_def)+

lemma case_vector_eq:
  "(case t of VtVector f \<Rightarrow> g f | _ \<Rightarrow> Inl e) = Inr y \<longleftrightarrow> (\<exists>f. t = VtVector f \<and> g f = Inr y)"
  "(case t of VtVector f \<Rightarrow> g f | _ \<Rightarrow> Inl e) = Inl x \<longleftrightarrow>
     (\<exists>f. t = VtVector f \<and> g f = Inl x) \<or> ((\<forall>f. t \<noteq> VtVector f) \<and> e = x)"
  by (cases t; auto)+

lemma case_struct_eq:
  "(case t of VtFunc f \<Rightarrow> Inl e1 | VtStruct nm fs \<Rightarrow> g nm fs | _ \<Rightarrow> Inl e) = Inr y \<longleftrightarrow>
     (\<exists>nm fs. t = VtStruct nm fs \<and> g nm fs = Inr y)"
  "(case t of VtFunc f \<Rightarrow> Inl e1 | VtStruct nm fs \<Rightarrow> g nm fs | _ \<Rightarrow> Inl e) = Inl x \<Longrightarrow>
     e1 = x \<or> e = x \<or> (\<exists>nm fs. t = VtStruct nm fs \<and> g nm fs = Inl x)"
  by (cases t; auto)+

lemma checkBody_Inr:
  "checkBody (Some a) bt = Inr t \<longleftrightarrow> \<not> isFunc bt \<and> \<not> containsUnknown bt \<and> subVtype bt a \<and> t = a"
  "checkBody None bt = Inr t \<longleftrightarrow> \<not> isFunc bt \<and> \<not> containsUnknown bt \<and> t = bt"
  by (cases bt; auto simp: checkBody_def isFunc_def)+

lemma typeOf_EApp:
  "typeOf C n st sc (EApp h as) = Inr (t, st') \<Longrightarrow>
   \<exists>h' f st1 ts. h = Some h' \<and> typeOf C n st sc h' = Inr (VtFunc f, st1) \<and>
     typeArgs C n st1 sc as = Inr (ts, st') \<and> applyArgs f ts = Inr t"
  by (cases h) (auto simp: case_func_eq)

lemma typeOf_EApp_fuel:
  "typeOf C n st sc (EApp h as) = Inl ChkFuel \<Longrightarrow>
   \<exists>h'. h = Some h' \<and> (typeOf C n st sc h' = Inl ChkFuel \<or>
     (\<exists>f st1. typeOf C n st sc h' = Inr (VtFunc f, st1) \<and>
        (typeArgs C n st1 sc as = Inl ChkFuel \<or> (\<exists>ts. applyArgs f ts = Inl ChkFuel))))"
  by (cases h) (auto simp: rbind_eq_Inl case_func_eq)

lemma typeOf_ERef:
  "typeOf C n st sc (ERef nm a RefFunction) = Inr (t, st') \<Longrightarrow>
   \<exists>ps res. map_of (ck_fnParams C) nm = Some ps \<and> inferReturn C n st nm = Inr (res, st') \<and>
     t = VtFunc (FnType ps res [] [])"
  by (auto split: option.split_asm)

lemma typeOf_EField:
  "typeOf C n st sc (EField u fld) = Inr (t, st') \<Longrightarrow>
   \<exists>u' nm fs. u = Some u' \<and> typeOf C n st sc u' = Inr (VtStruct nm fs, st') \<and> findField fs fld = Some t"
  by (cases u) (auto simp: case_struct_eq split: option.split_asm dest!: case_struct_eq(2))

lemma typeOf_EField_fuel:
  "typeOf C n st sc (EField u fld) = Inl ChkFuel \<Longrightarrow> \<exists>u'. u = Some u' \<and> typeOf C n st sc u' = Inl ChkFuel"
  by (cases u) (auto simp: rbind_eq_Inl case_struct_eq split: option.split_asm dest!: case_struct_eq(2))

lemma typeOf_EReduce:
  "typeOf C n st sc (EReduce fn i v) = Inr (t, st') \<Longrightarrow>
   \<exists>f' i' v' f st1 initT st2 elemV. fn = Some f' \<and> i = Some i' \<and> v = Some v' \<and>
     typeOf C n st sc f' = Inr (VtFunc f, st1) \<and> length (ft_params f) = 2 \<and>
     typeOf C n st1 sc i' = Inr (initT, st2) \<and> \<not> isFunc initT \<and>
     typeOf C n st2 sc v' = Inr (VtVector elemV, st') \<and> reduceLoop reduceRounds f initT elemV = Inr t"
  by (cases fn; cases i; cases v) (auto simp: case_func_eq case_vector_eq split: if_split_asm)

lemma typeCases_Cons:
  "typeCases C n st sc (GuardCase cond res ow # cs) acc = Inr (t, st') \<Longrightarrow>
   \<exists>st1 r' rt st2 u. (if ow then st1 = st else \<exists>c' ct. cond = Some c' \<and> typeOf C n st sc c' = Inr (ct, st1) \<and>
        (ct = VtBool \<or> ct = VtUnknown)) \<and>
     res = Some r' \<and> typeOf C n st1 sc r' = Inr (rt, st2) \<and> \<not> isFunc rt \<and> unify acc rt = Inr u \<and>
     typeCases C n st2 sc cs u = Inr (t, st')"
  by (cases ow; cases cond; cases res) (auto split: if_split_asm)

lemma typeFields_Cons:
  "typeFields C n st sc (StructField nm val # sfs) seen = Inr (fs, st') \<Longrightarrow>
   \<exists>e t st1 fs'. val = Some e \<and> nm \<notin> set seen \<and> typeOf C n st sc e = Inr (t, st1) \<and> \<not> isFunc t \<and>
     typeFields C n st1 sc sfs (nm # seen) = Inr (fs', st') \<and> fs = (nm, t) # fs'"
  by (cases val) (auto split: if_split_asm)

lemma typeArgs_Cons:
  "typeArgs C n st sc (e # es) = Inr (ts, st') \<Longrightarrow>
   \<exists>t st1 ts'. typeOf C n st sc e = Inr (t, st1) \<and> \<not> isFunc t \<and>
     typeArgs C n st1 sc es = Inr (ts', st') \<and> ts = t # ts'"
  by (auto split: if_split_asm)

lemma inferReturn_cases:
  assumes "inferReturn C n st nm = Inr (t, st')"
  obtains (memo) "map_of (mm_result st) nm = Some t" "st' = st"
  | (ann) body sc bt where "map_of (mm_result st) nm = None" "map_of (ck_annotations C) nm = Some t" "n \<noteq> 0"
      "map_of (ck_fnBody C) nm = Some body" "map_of (ck_fnScope C) nm = Some sc"
      "typeOf C (n - 1) (st\<lparr>mm_result := mput nm t (mm_result st)\<rparr>) sc body = Inr (bt, st')"
      "checkBody (Some t) bt = Inr t"
  | (progress) "map_of (mm_result st) nm = None" "t = VtUnknown" "st' = st" "nm \<in> set (mm_inProgress st)"
  | (body) body sc st1 where "map_of (mm_result st) nm = None" "map_of (ck_annotations C) nm = None" "n \<noteq> 0"
      "nm \<notin> set (mm_inProgress st)" "map_of (ck_fnBody C) nm = Some body" "map_of (ck_fnScope C) nm = Some sc"
      "typeOf C (n - 1) (st\<lparr>mm_inProgress := nm # mm_inProgress st\<rparr>) sc body = Inr (t, st1)"
      "checkBody None t = Inr t"
      "st' = st1\<lparr>mm_inProgress := removeAll nm (mm_inProgress st1), mm_result := mput nm t (mm_result st1)\<rparr>"
proof -
  note a = assms [unfolded inferReturn.simps]
  show thesis
  proof (cases "map_of (mm_result st) nm")
    case (Some r)
    with a have "t = r" "st' = st" by simp_all
    with Some show ?thesis by (intro memo) simp_all
  next
    case None
    show ?thesis
    proof (cases "map_of (ck_annotations C) nm")
      case (Some ann')
      show ?thesis
      proof (cases "n = 0 \<or> map_of (ck_fnBody C) nm = None \<or> map_of (ck_fnScope C) nm = None")
        case True
        with a None Some show ?thesis by (auto split: option.splits if_split_asm)
      next
        case False
        then obtain body sc where b: "n \<noteq> 0" "map_of (ck_fnBody C) nm = Some body"
          "map_of (ck_fnScope C) nm = Some sc" by auto
        from a None Some b have "rbind (typeOf C (n - 1) (st\<lparr>mm_result := mput nm ann' (mm_result st)\<rparr>) sc body)
          (\<lambda>(bt, st1). rbind (checkBody (Some ann') bt) (\<lambda>t. Inr (t, st1))) = Inr (t, st')" by simp
        then obtain bt where bt: "typeOf C (n - 1) (st\<lparr>mm_result := mput nm ann' (mm_result st)\<rparr>) sc body = Inr (bt, st')"
          "checkBody (Some ann') bt = Inr t" by auto
        then have "t = ann'" by (simp add: checkBody_Inr)
        with b bt None Some show ?thesis by (intro ann) simp_all
      qed
    next
      case n2: None
      show ?thesis
      proof (cases "nm \<in> set (mm_inProgress st)")
        case True
        with None n2 a have "t = VtUnknown" "st' = st" by simp_all
        with None True show ?thesis by (intro progress)
      next
        case nin: False
        show ?thesis
        proof (cases "n = 0 \<or> map_of (ck_fnBody C) nm = None \<or> map_of (ck_fnScope C) nm = None")
          case True
          with a None n2 nin show ?thesis by (auto split: option.splits if_split_asm)
        next
          case False
          then obtain bdy sc where b: "n \<noteq> 0" "map_of (ck_fnBody C) nm = Some bdy"
            "map_of (ck_fnScope C) nm = Some sc" by auto
          from a None n2 nin b have "rbind (typeOf C (n - 1) (st\<lparr>mm_inProgress := nm # mm_inProgress st\<rparr>) sc bdy)
            (\<lambda>(bt, st1). rbind (checkBody None bt) (\<lambda>t.
              Inr (t, st1\<lparr>mm_inProgress := removeAll nm (mm_inProgress st1),
                 mm_result := mput nm t (mm_result st1)\<rparr>))) = Inr (t, st')" by simp
          then obtain bt st1 where bt: "typeOf C (n - 1) (st\<lparr>mm_inProgress := nm # mm_inProgress st\<rparr>) sc bdy = Inr (bt, st1)"
            "checkBody None bt = Inr t"
            "st' = st1\<lparr>mm_inProgress := removeAll nm (mm_inProgress st1), mm_result := mput nm t (mm_result st1)\<rparr>"
            by auto
          then have "t = bt" by (simp add: checkBody_Inr)
          with b bt None n2 nin show ?thesis by (intro body) simp_all
        qed
      qed
    qed
  qed
qed


subsection \<open>Successful runs as a derivation\<close>

text \<open>The successful runs of the checker, as an inductive relation: the induction principle of the
  proofs about accepted programs.\<close>

inductive ty :: "checker \<Rightarrow> nat \<Rightarrow> memo \<Rightarrow> vtype gomap \<Rightarrow> expr \<Rightarrow> vtype \<Rightarrow> memo \<Rightarrow> bool"
and tys :: "checker \<Rightarrow> nat \<Rightarrow> memo \<Rightarrow> vtype gomap \<Rightarrow> expr list \<Rightarrow> vtype list \<Rightarrow> memo \<Rightarrow> bool"
and tyf :: "checker \<Rightarrow> nat \<Rightarrow> memo \<Rightarrow> vtype gomap \<Rightarrow> structField list \<Rightarrow> string list \<Rightarrow> (string \<times> vtype) list \<Rightarrow> memo \<Rightarrow> bool"
and tyc :: "checker \<Rightarrow> nat \<Rightarrow> memo \<Rightarrow> vtype gomap \<Rightarrow> guardCase list \<Rightarrow> vtype \<Rightarrow> vtype \<Rightarrow> memo \<Rightarrow> bool"
and infr :: "checker \<Rightarrow> nat \<Rightarrow> memo \<Rightarrow> string \<Rightarrow> vtype \<Rightarrow> memo \<Rightarrow> bool"
for C where
  ty_num: "ty C n st sc (ENumLit q) (literalType q) st"
| ty_str: "ty C n st sc (EStrLit s) VtString st"
| ty_var: "map_of sc x = Some t \<Longrightarrow> ty C n st sc (EVar x) t st"
| ty_prim: "map_of primitiveArity nm = Some k \<Longrightarrow>
    ty C n st sc (ERef nm a RefPrimitive) (VtFunc (FnType (replicate k numTop) VtUnknown nm [])) st"
| ty_fun: "map_of (ck_fnParams C) nm = Some ps \<Longrightarrow> infr C n st nm res st' \<Longrightarrow>
    ty C n st sc (ERef nm a RefFunction) (VtFunc (FnType ps res [] [])) st'"
| ty_app: "ty C n st sc h (VtFunc f) st1 \<Longrightarrow> tys C n st1 sc as ts st' \<Longrightarrow> applyArgs f ts = Inr t \<Longrightarrow>
    ty C n st sc (EApp (Some h) as) t st'"
| ty_guards: "cs \<noteq> [] \<Longrightarrow> tyc C n st sc cs VtUnknown t st' \<Longrightarrow> ty C n st sc (EGuards cs) t st'"
| ty_struct: "tyf C n st sc sfs [] fs st' \<Longrightarrow> ty C n st sc (EStructLit sfs) (VtStruct [] fs) st'"
| ty_field: "ty C n st sc u (VtStruct nm fs) st' \<Longrightarrow> findField fs fld = Some t \<Longrightarrow>
    ty C n st sc (EField (Some u) fld) t st'"
| ty_reduce: "ty C n st sc g (VtFunc f) st1 \<Longrightarrow> length (ft_params f) = 2 \<Longrightarrow>
    ty C n st1 sc i initT st2 \<Longrightarrow> \<not> isFunc initT \<Longrightarrow> ty C n st2 sc v (VtVector elemV) st' \<Longrightarrow>
    reduceLoop reduceRounds f initT elemV = Inr t \<Longrightarrow>
    ty C n st sc (EReduce (Some g) (Some i) (Some v)) t st'"
| tys_nil: "tys C n st sc [] [] st"
| tys_cons: "ty C n st sc e t st1 \<Longrightarrow> \<not> isFunc t \<Longrightarrow> tys C n st1 sc es ts st' \<Longrightarrow>
    tys C n st sc (e # es) (t # ts) st'"
| tyf_nil: "tyf C n st sc [] seen [] st"
| tyf_cons: "nm \<notin> set seen \<Longrightarrow> ty C n st sc e t st1 \<Longrightarrow> \<not> isFunc t \<Longrightarrow>
    tyf C n st1 sc sfs (nm # seen) fs st' \<Longrightarrow> tyf C n st sc (StructField nm (Some e) # sfs) seen ((nm, t) # fs) st'"
| tyc_cond: "ty C n st sc c ct st1 \<Longrightarrow> ct = VtBool \<or> ct = VtUnknown \<Longrightarrow> ty C n st1 sc r rt st2 \<Longrightarrow>
    \<not> isFunc rt \<Longrightarrow> unify acc rt = Inr u \<Longrightarrow> cs \<noteq> [] \<Longrightarrow> tyc C n st2 sc cs u t st' \<Longrightarrow>
    tyc C n st sc (GuardCase (Some c) (Some r) False # cs) acc t st'"
| tyc_otherwise: "ty C n st sc r rt st' \<Longrightarrow> \<not> isFunc rt \<Longrightarrow> unify acc rt = Inr u \<Longrightarrow>
    tyc C n st sc [GuardCase cond (Some r) True] acc u st'"
| inf_memo: "map_of (mm_result st) nm = Some t \<Longrightarrow> infr C n st nm t st"
| inf_ann: "map_of (mm_result st) nm = None \<Longrightarrow> map_of (ck_annotations C) nm = Some t \<Longrightarrow> n \<noteq> 0 \<Longrightarrow>
    map_of (ck_fnBody C) nm = Some body \<Longrightarrow> map_of (ck_fnScope C) nm = Some sc \<Longrightarrow>
    ty C (n - 1) (st\<lparr>mm_result := mput nm t (mm_result st)\<rparr>) sc body bt st' \<Longrightarrow>
    checkBody (Some t) bt = Inr t \<Longrightarrow> infr C n st nm t st'"
| inf_progress: "map_of (mm_result st) nm = None \<Longrightarrow> nm \<in> set (mm_inProgress st) \<Longrightarrow> infr C n st nm VtUnknown st"
| inf_body: "map_of (mm_result st) nm = None \<Longrightarrow> map_of (ck_annotations C) nm = None \<Longrightarrow> n \<noteq> 0 \<Longrightarrow>
    nm \<notin> set (mm_inProgress st) \<Longrightarrow> map_of (ck_fnBody C) nm = Some body \<Longrightarrow> map_of (ck_fnScope C) nm = Some sc \<Longrightarrow>
    ty C (n - 1) (st\<lparr>mm_inProgress := nm # mm_inProgress st\<rparr>) sc body t st1 \<Longrightarrow> checkBody None t = Inr t \<Longrightarrow>
    infr C n st nm t (st1\<lparr>mm_inProgress := removeAll nm (mm_inProgress st1), mm_result := mput nm t (mm_result st1)\<rparr>)"

lemma typeOf_derivation:
  "\<And>t st'. typeOf C n st sc e = Inr (t, st') \<Longrightarrow> ty C n st sc e t st'"
  "\<And>ts st'. typeArgs C n st sc es = Inr (ts, st') \<Longrightarrow> tys C n st sc es ts st'"
  "\<And>fs st'. typeFields C n st sc sfs seen = Inr (fs, st') \<Longrightarrow> tyf C n st sc sfs seen fs st'"
  "\<And>t st'. typeCases C n st sc cs acc = Inr (t, st') \<Longrightarrow>
     if cs = [] then t = acc \<and> st' = st else tyc C n st sc cs acc t st'"
  "\<And>t st'. inferReturn C n st nm = Inr (t, st') \<Longrightarrow> infr C n st nm t st'"
proof (induction C n st sc e and C n st sc es and C n st sc sfs seen and C n st sc cs acc and C n st nm
    rule: typeOf_typeArgs_typeFields_typeCases_inferReturn.induct)
  case (5 C n st sc nm a)
  from typeOf_ERef [OF "5.prems"] "5.IH" show ?case by (blast intro: ty_fun)
next
  case (6 C n st sc h as)
  from typeOf_EApp [OF "6.prems"] obtain h' f st1 ts where
    h: "h = Some h'" "typeOf C n st sc h' = Inr (VtFunc f, st1)" "typeArgs C n st1 sc as = Inr (ts, st')"
    and t: "applyArgs f ts = Inr t" by blast
  from "6.IH"(1) [OF h(1,2)] "6.IH"(2) [OF h(1,2) refl refl h(3)] h(1) t show ?case by (blast intro: ty_app)
next
  case (7 C n st sc cs)
  then show ?case by (auto split: if_split_asm intro: ty_guards)
next
  case (8 C n st sc sfs)
  then show ?case by (auto intro: ty_struct)
next
  case (9 C n st sc u fld)
  from typeOf_EField [OF "9.prems"] "9.IH" show ?case by (blast intro: ty_field)
next
  case (10 C n st sc fn i v)
  from typeOf_EReduce [OF "10.prems"] obtain f' i' v' f st1 initT st2 elemV where
    r: "fn = Some f'" "i = Some i'" "v = Some v'" "typeOf C n st sc f' = Inr (VtFunc f, st1)"
    and len: "length (ft_params f) = 2" and i: "typeOf C n st1 sc i' = Inr (initT, st2)" "\<not> isFunc initT"
    and v: "typeOf C n st2 sc v' = Inr (VtVector elemV, st')" and t: "reduceLoop reduceRounds f initT elemV = Inr t"
    by blast
  have nl: "\<not> length (ft_params f) \<noteq> 2" using len by simp
  from "10.IH"(1) [OF r] "10.IH"(2) [OF r refl refl nl i(1)] "10.IH"(3) [OF r refl refl nl i(1) refl i(2) v] r len i t
  show ?case by (blast intro: ty_reduce)
next
  case (16 C n st sc e es)
  from typeArgs_Cons [OF "16.prems"] obtain t st1 ts' where
    a: "typeOf C n st sc e = Inr (t, st1)" "\<not> isFunc t" "typeArgs C n st1 sc es = Inr (ts', st')" "ts = t # ts'"
    by blast
  from "16.IH"(1) [OF a(1)] "16.IH"(2) [OF a(1) refl a(2,3)] a show ?case by (blast intro: tys_cons)
next
  case (18 C n st sc nm val sfs seen)
  from typeFields_Cons [OF "18.prems"] obtain e t st1 fs' where
    a: "val = Some e" "typeOf C n st sc e = Inr (t, st1)" "\<not> isFunc t"
    "typeFields C n st1 sc sfs (nm # seen) = Inr (fs', st')" and nm: "nm \<notin> set seen" "fs = (nm, t) # fs'" by blast
  from "18.IH"(1) [OF nm(1) a(1,2)] "18.IH"(2) [OF nm(1) a(1,2) refl a(3,4)] a(1,3) nm show ?case
    by (blast intro: tyf_cons)
next
  case (20 C n st sc cond res ow cs acc)
  let ?c = "if ow then Inr st else case cond of None \<Rightarrow> Inl ChkNoCond
    | Some c' \<Rightarrow> rbind (typeOf C n st sc c') (\<lambda>(ct, st').
        if isFunc ct then Inl ChkCondFunc
        else if ct \<noteq> VtBool \<and> ct \<noteq> VtUnknown then Inl ChkCondNotBool else Inr st')"
  have g: "\<not> (ow \<and> cs \<noteq> [])" "\<not> (\<not> ow \<and> cs = [])" using "20.prems" by (auto split: if_split_asm)
  from typeCases_Cons [OF "20.prems"] obtain st1 r' rt st2 u where
    c: "if ow then st1 = st else \<exists>c' ct. cond = Some c' \<and> typeOf C n st sc c' = Inr (ct, st1) \<and> (ct = VtBool \<or> ct = VtUnknown)"
    and r: "res = Some r'" "typeOf C n st1 sc r' = Inr (rt, st2)" "\<not> isFunc rt"
    and u: "unify acc rt = Inr u" and rest: "typeCases C n st2 sc cs u = Inr (t, st')" by blast
  have c1: "?c = Inr st1" using c by (auto simp: isFunc_def split: if_split_asm)
  have w: "rwrap ChkGuardTypes (unify acc rt) = Inr u" using u by simp
  note R = "20.IH"(2) [OF g c1 r(1,2)] and T = "20.IH"(3) [OF g c1 r(1,2) refl r(3) w rest]
  show ?case
  proof (cases ow)
    case True
    with g T R c r u show ?thesis by (auto intro: tyc_otherwise)
  next
    case False
    with c obtain c' ct where c': "cond = Some c'" "typeOf C n st sc c' = Inr (ct, st1)" "ct = VtBool \<or> ct = VtUnknown"
      by auto
    from "20.IH"(1) [OF g False c'(1,2)] c' R r u T g False show ?thesis by (auto intro!: tyc_cond)
  qed
next
  case (21 C n st nm)
  from "21.prems" show ?case
  proof (cases rule: inferReturn_cases)
    case memo
    then show ?thesis by (simp add: inf_memo)
  next
    case (ann body sc bt)
    from "21.IH"(2) [OF ann(1,2,3) _ refl refl] ann show ?thesis by (auto intro!: inf_ann)
  next
    case progress
    then show ?thesis by (simp add: inf_progress)
  next
    case (body body sc st1)
    from "21.IH"(1) [OF body(1,2,4,3) _ refl refl] body have "ty C (n - 1) (st\<lparr>mm_inProgress := nm # mm_inProgress st\<rparr>) sc body t st1"
      by simp
    then show ?thesis unfolding body(9) by (rule inf_body [OF body(1,2,3,4,5,6) _ body(8)])
  qed
qed (auto intro: ty_num ty_str ty_var ty_prim tys_nil tyf_nil split: option.split_asm)


subsection \<open>The memo tables only grow\<close>

definition visited :: "checker \<Rightarrow> memo \<Rightarrow> string set" where
  "visited C st = dom (map_of (mm_result st)) \<union> (set (mm_inProgress st) - dom (map_of (ck_annotations C)))"

definition memo_le :: "memo \<Rightarrow> memo \<Rightarrow> bool" where
  "memo_le st st' \<longleftrightarrow> set (mm_inProgress st') = set (mm_inProgress st) \<and>
     dom (map_of (mm_result st)) \<subseteq> dom (map_of (mm_result st'))"

lemma memo_le_refl [simp]: "memo_le st st"
  by (simp add: memo_le_def)

lemma memo_le_trans [trans]: "memo_le a b \<Longrightarrow> memo_le b c \<Longrightarrow> memo_le a c"
  by (simp add: memo_le_def) (blast intro: subset_trans)

lemma memo_le_result: "memo_le (st\<lparr>mm_result := mput nm t (mm_result st)\<rparr>) st' \<Longrightarrow> memo_le st st'"
  by (simp add: memo_le_def)

lemma memo_le_progress:
  "nm \<notin> set (mm_inProgress st) \<Longrightarrow> memo_le (st\<lparr>mm_inProgress := nm # mm_inProgress st\<rparr>) st1 \<Longrightarrow>
   memo_le st (st1\<lparr>mm_inProgress := removeAll nm (mm_inProgress st1), mm_result := mput nm t (mm_result st1)\<rparr>)"
  by (auto simp: memo_le_def)

lemma run_memo_le:
  "ty C n st sc e t st' \<Longrightarrow> memo_le st st'"
  "tys C n st sc es ts st' \<Longrightarrow> memo_le st st'"
  "tyf C n st sc sfs seen fs st' \<Longrightarrow> memo_le st st'"
  "tyc C n st sc cs acc t st' \<Longrightarrow> memo_le st st'"
  "infr C n st nm t st' \<Longrightarrow> memo_le st st'"
  by (induction rule: ty_tys_tyf_tyc_infr.inducts)
    (auto intro: memo_le_trans memo_le_result memo_le_progress)

lemma memo_le_visited: "memo_le st st' \<Longrightarrow> visited C st \<subseteq> visited C st'"
  by (auto simp: memo_le_def visited_def)

lemma typeOf_visited:
  "typeOf C n st sc e = Inr (t, st') \<Longrightarrow> visited C st \<subseteq> visited C st'"
  "typeArgs C n st sc es = Inr (ts, st') \<Longrightarrow> visited C st \<subseteq> visited C st'"
  by (blast dest: typeOf_derivation(1,2) run_memo_le(1,2) memo_le_visited)+

subsection \<open>Fuel\<close>

text \<open>Enough fuel: at least one unit per function not visited yet.\<close>

definition todo :: "checker \<Rightarrow> memo \<Rightarrow> nat" where
  "todo C st = card (dom (map_of (ck_fnParams C)) - visited C st)"

lemma todo_mono: "visited C st \<subseteq> visited C st' \<Longrightarrow> todo C st' \<le> todo C st"
  unfolding todo_def by (rule card_mono) (auto simp: finite_dom_map_of)

lemma todo_visit:
  assumes "map_of (ck_fnParams C) nm \<noteq> None" "nm \<notin> visited C st" "visited C st' = insert nm (visited C st)"
  shows "todo C st = Suc (todo C st')"
proof -
  have "dom (map_of (ck_fnParams C)) - visited C st = insert nm (dom (map_of (ck_fnParams C)) - visited C st')"
    using assms by auto
  moreover have "nm \<notin> dom (map_of (ck_fnParams C)) - visited C st'" using assms by simp
  ultimately show ?thesis unfolding todo_def by (simp only: card_insert_disjoint finite_Diff finite_dom_map_of not_False_eq_True)
qed

lemma checkArgs_not_fuel: "checkArgs op i as ps \<noteq> Inl ChkFuel"
  by (induction op i as ps rule: checkArgs.induct) (simp_all add: checkArg_def rbind_eq_Inl)

lemma checkCmpOperands_not_fuel: "checkCmpOperands ts \<noteq> Inl ChkFuel"
  by (simp add: checkCmpOperands_def split: list.split)

lemma resultOf_not_fuel: "resultOf op fb ts \<noteq> Inl ChkFuel"
  unfolding resultOf_def by (simp split: list.split)

lemma applyArgs_not_fuel: "applyArgs f ts \<noteq> Inl ChkFuel"
  by (auto simp: applyArgs_def Let_def rbind_eq_Inl checkArgs_not_fuel
      checkCmpOperands_not_fuel resultOf_not_fuel split: if_split_asm)

lemma unify_not_fuel: "unify a b \<noteq> Inl ChkFuel" "unifyFields fs gs \<noteq> Inl ChkFuel"
  by (induction a b and fs gs rule: unify_unifyFields.induct)
    (auto simp: rbind_eq_Inl split: if_splits option.splits)

lemma reduceLoop_not_fuel: "reduceLoop k f a v \<noteq> Inl ChkFuel"
  by (induction k arbitrary: a) (auto simp: rbind_eq_Inl applyArgs_not_fuel rwrap_def split: if_splits sum.splits)

lemma checkBody_not_fuel: "checkBody ann t \<noteq> Inl ChkFuel"
  by (auto simp: checkBody_def split: vtype.splits option.splits if_splits)

lemma typeOf_EReduce_fuel:
  "typeOf C n st sc (EReduce fn i v) = Inl ChkFuel \<Longrightarrow>
   \<exists>f' i' v'. fn = Some f' \<and> i = Some i' \<and> v = Some v' \<and>
     (typeOf C n st sc f' = Inl ChkFuel \<or>
      (\<exists>f st1. typeOf C n st sc f' = Inr (VtFunc f, st1) \<and> length (ft_params f) = 2 \<and>
        (typeOf C n st1 sc i' = Inl ChkFuel \<or>
         (\<exists>initT st2. typeOf C n st1 sc i' = Inr (initT, st2) \<and> \<not> isFunc initT \<and>
            typeOf C n st2 sc v' = Inl ChkFuel))))"
  by (cases fn; cases i; cases v)
    (auto simp: rbind_eq_Inl case_func_eq case_vector_eq reduceLoop_not_fuel split: if_split_asm)

lemma typeCases_Cons_fuel:
  "typeCases C n st sc (GuardCase cond res ow # cs) acc = Inl ChkFuel \<Longrightarrow>
   (\<exists>c'. \<not> ow \<and> cond = Some c' \<and> typeOf C n st sc c' = Inl ChkFuel) \<or>
   (\<exists>st1. (if ow then Inr st else case cond of None \<Rightarrow> Inl ChkNoCond
       | Some c' \<Rightarrow> rbind (typeOf C n st sc c') (\<lambda>(ct, st').
           if isFunc ct then Inl ChkCondFunc
           else if ct \<noteq> VtBool \<and> ct \<noteq> VtUnknown then Inl ChkCondNotBool else Inr st')) = Inr st1 \<and>
     (\<exists>r'. res = Some r' \<and> (typeOf C n st1 sc r' = Inl ChkFuel \<or>
        (\<exists>rt st2 u. typeOf C n st1 sc r' = Inr (rt, st2) \<and> \<not> isFunc rt \<and> rwrap ChkGuardTypes (unify acc rt) = Inr u \<and>
           typeCases C n st2 sc cs u = Inl ChkFuel))))"
proof -
  let ?c = "if ow then Inr st else case cond of None \<Rightarrow> Inl ChkNoCond
       | Some c' \<Rightarrow> rbind (typeOf C n st sc c') (\<lambda>(ct, st').
           if isFunc ct then Inl ChkCondFunc
           else if ct \<noteq> VtBool \<and> ct \<noteq> VtUnknown then Inl ChkCondNotBool else Inr st')"
  let ?k = "\<lambda>st1. case res of None \<Rightarrow> Inl ChkNoResult
    | Some r' \<Rightarrow> rbind (typeOf C n st1 sc r') (\<lambda>(rt, st2).
        if isFunc rt then Inl ChkResultFunc
        else rbind (rwrap ChkGuardTypes (unify acc rt)) (\<lambda>u. typeCases C n st2 sc cs u))"
  assume "typeCases C n st sc (GuardCase cond res ow # cs) acc = Inl ChkFuel"
  then have "rbind ?c ?k = Inl ChkFuel" by (simp split: if_split_asm)
  then consider "?c = Inl ChkFuel" | st1 where "?c = Inr st1" "?k st1 = Inl ChkFuel"
    unfolding rbind_eq_Inl by blast
  then show ?thesis
  proof cases
    case 1
    then show ?thesis by (auto simp: rbind_eq_Inl split: if_split_asm option.split_asm)
  next
    case 2
    have "\<exists>r'. res = Some r' \<and> (typeOf C n st1 sc r' = Inl ChkFuel \<or>
        (\<exists>rt st2 u. typeOf C n st1 sc r' = Inr (rt, st2) \<and> \<not> isFunc rt \<and> rwrap ChkGuardTypes (unify acc rt) = Inr u \<and>
           typeCases C n st2 sc cs u = Inl ChkFuel))"
      using 2(2) by (cases res) (auto simp: rbind_eq_Inl rwrap_eq_Inl split: if_split_asm)
    with 2(1) show ?thesis by blast
  qed
qed

lemma guard_visited:
  assumes "(if ow then Inr st else case cond of None \<Rightarrow> Inl ChkNoCond
       | Some c' \<Rightarrow> rbind (typeOf C n st sc c') (\<lambda>(ct, st').
           if isFunc ct then Inl ChkCondFunc
           else if ct \<noteq> VtBool \<and> ct \<noteq> VtUnknown then Inl ChkCondNotBool else Inr st')) = Inr st1"
  shows "visited C st \<subseteq> visited C st1"
  using assms by (auto split: if_split_asm option.split_asm dest: typeOf_visited)

lemma inferReturn_fuel:
  assumes "inferReturn C n st nm = Inl ChkFuel"
  obtains (out) "n = 0" "nm \<notin> visited C st"
  | (ann) t body sc where "nm \<notin> visited C st" "map_of (mm_result st) nm = None"
      "map_of (ck_annotations C) nm = Some t" "n \<noteq> 0"
      "map_of (ck_fnBody C) nm = Some body" "map_of (ck_fnScope C) nm = Some sc"
      "typeOf C (n - 1) (st\<lparr>mm_result := mput nm t (mm_result st)\<rparr>) sc body = Inl ChkFuel"
  | (body) body sc where "nm \<notin> visited C st" "map_of (mm_result st) nm = None"
      "map_of (ck_annotations C) nm = None" "n \<noteq> 0" "nm \<notin> set (mm_inProgress st)"
      "map_of (ck_fnBody C) nm = Some body" "map_of (ck_fnScope C) nm = Some sc"
      "typeOf C (n - 1) (st\<lparr>mm_inProgress := nm # mm_inProgress st\<rparr>) sc body = Inl ChkFuel"
proof -
  let ?st = "\<lambda>t. st\<lparr>mm_result := mput nm t (mm_result st)\<rparr>"
  let ?sp = "st\<lparr>mm_inProgress := nm # mm_inProgress st\<rparr>"
  note a = assms [unfolded inferReturn.simps]
  show thesis
  proof (cases "n = 0")
    case True
    with a show ?thesis by (intro out) (auto simp: visited_def split: option.split_asm if_split_asm)
  next
    case n: False
    with a obtain bdy sc where b: "map_of (ck_fnBody C) nm = Some bdy" "map_of (ck_fnScope C) nm = Some sc"
      and res: "map_of (mm_result st) nm = None"
      by (auto split: option.split_asm if_split_asm)
    show ?thesis
    proof (cases "map_of (ck_annotations C) nm")
      case (Some t)
      with a n b res have "typeOf C (n - 1) (?st t) sc bdy = Inl ChkFuel"
        by (auto simp: rbind_eq_Inl checkBody_not_fuel)
      then show ?thesis using n b res Some assms by (intro ann) (auto simp: visited_def)
    next
      case None
      with a n b res have "nm \<notin> set (mm_inProgress st)" "typeOf C (n - 1) ?sp sc bdy = Inl ChkFuel"
        by (auto simp: rbind_eq_Inl checkBody_not_fuel split: if_split_asm)
      then show ?thesis using n b res None by (intro body) (auto simp: visited_def)
    qed
  qed
qed

lemma not_fuel:
  "typeOf C n st sc e = Inl ChkFuel \<Longrightarrow> n < todo C st"
  "typeArgs C n st sc es = Inl ChkFuel \<Longrightarrow> n < todo C st"
  "typeFields C n st sc sfs seen = Inl ChkFuel \<Longrightarrow> n < todo C st"
  "typeCases C n st sc cs acc = Inl ChkFuel \<Longrightarrow> n < todo C st"
  "inferReturn C n st nm = Inl ChkFuel \<Longrightarrow> map_of (ck_fnParams C) nm \<noteq> None \<Longrightarrow> n < todo C st"
proof (induction C n st sc e and C n st sc es and C n st sc sfs seen and C n st sc cs acc and C n st nm
    rule: typeOf_typeArgs_typeFields_typeCases_inferReturn.induct)
  case (5 C n st sc nm a)
  then show ?case by (auto simp: rbind_eq_Inl split: option.split_asm)
next
  case (6 C n st sc h as)
  from typeOf_EApp_fuel [OF "6.prems"] obtain h' where h: "h = Some h'"
    and "typeOf C n st sc h' = Inl ChkFuel \<or>
      (\<exists>f st1. typeOf C n st sc h' = Inr (VtFunc f, st1) \<and> typeArgs C n st1 sc as = Inl ChkFuel)"
    by (auto simp: applyArgs_not_fuel)
  then show ?case
  proof (elim disjE exE conjE)
    assume "typeOf C n st sc h' = Inl ChkFuel"
    then show ?thesis using "6.IH"(1) [OF h] by simp
  next
    fix f st1 assume a: "typeOf C n st sc h' = Inr (VtFunc f, st1)" "typeArgs C n st1 sc as = Inl ChkFuel"
    from "6.IH"(2) [OF h a(1) refl refl a(2)] todo_mono [OF typeOf_visited(1) [OF a(1)]] show ?thesis by simp
  qed
next
  case (7 C n st sc cs)
  then show ?case by (auto split: if_split_asm)
next
  case (8 C n st sc sfs)
  then show ?case by (auto simp: rbind_eq_Inl)
next
  case (9 C n st sc u fld)
  from typeOf_EField_fuel [OF "9.prems"] "9.IH" show ?case by blast
next
  case (10 C n st sc fn i v)
  from typeOf_EReduce_fuel [OF "10.prems"] obtain f' i' v' where fiv: "fn = Some f'" "i = Some i'" "v = Some v'"
    and "typeOf C n st sc f' = Inl ChkFuel \<or>
      (\<exists>f st1. typeOf C n st sc f' = Inr (VtFunc f, st1) \<and> length (ft_params f) = 2 \<and>
        (typeOf C n st1 sc i' = Inl ChkFuel \<or>
         (\<exists>initT st2. typeOf C n st1 sc i' = Inr (initT, st2) \<and> \<not> isFunc initT \<and>
            typeOf C n st2 sc v' = Inl ChkFuel)))" by blast
  then consider (f) "typeOf C n st sc f' = Inl ChkFuel"
    | (i) f st1 where "typeOf C n st sc f' = Inr (VtFunc f, st1)" "\<not> length (ft_params f) \<noteq> 2"
        "typeOf C n st1 sc i' = Inl ChkFuel"
    | (v) f st1 initT st2 where "typeOf C n st sc f' = Inr (VtFunc f, st1)" "\<not> length (ft_params f) \<noteq> 2"
        "typeOf C n st1 sc i' = Inr (initT, st2)" "\<not> isFunc initT" "typeOf C n st2 sc v' = Inl ChkFuel"
    by blast
  then show ?case
  proof cases
    case f
    then show ?thesis by (rule "10.IH"(1) [OF fiv])
  next
    case i
    from "10.IH"(2) [OF fiv i(1) refl refl i(2,3)] todo_mono [OF typeOf_visited(1) [OF i(1)]] show ?thesis by simp
  next
    case v
    from "10.IH"(3) [OF fiv v(1) refl refl v(2,3) refl v(4,5)] todo_mono [OF typeOf_visited(1) [OF v(1)]]
      todo_mono [OF typeOf_visited(1) [OF v(3)]] show ?thesis by simp
  qed
next
  case (16 C n st sc e es)
  then consider "typeOf C n st sc e = Inl ChkFuel"
    | t st1 where "typeOf C n st sc e = Inr (t, st1)" "\<not> isFunc t" "typeArgs C n st1 sc es = Inl ChkFuel"
    by (auto simp: rbind_eq_Inl split: if_split_asm)
  then show ?case
  proof cases
    case 1
    then show ?thesis by (rule "16.IH"(1))
  next
    case 2
    from "16.IH"(2) [OF 2(1) refl 2(2,3)] todo_mono [OF typeOf_visited(1) [OF 2(1)]] show ?thesis by simp
  qed
next
  case (18 C n st sc nm val sfs seen)
  then consider e where "nm \<notin> set seen" "val = Some e" "typeOf C n st sc e = Inl ChkFuel"
    | e t st1 where "nm \<notin> set seen" "val = Some e" "typeOf C n st sc e = Inr (t, st1)" "\<not> isFunc t"
        "typeFields C n st1 sc sfs (nm # seen) = Inl ChkFuel"
    by (auto simp: rbind_eq_Inl split: if_split_asm option.split_asm)
  then show ?case
  proof cases
    case 1
    then show ?thesis by (rule "18.IH"(1))
  next
    case 2
    from "18.IH"(2) [OF 2(1,2,3) refl 2(4,5)] todo_mono [OF typeOf_visited(1) [OF 2(3)]] show ?thesis by simp
  qed
next
  case (20 C n st sc cond res ow cs acc)
  have g: "\<not> (ow \<and> cs \<noteq> [])" "\<not> (\<not> ow \<and> cs = [])" using "20.prems" by (auto split: if_split_asm)
  from typeCases_Cons_fuel [OF "20.prems"] show ?case
  proof (elim disjE exE conjE)
    fix c' assume c: "\<not> ow" "cond = Some c'" "typeOf C n st sc c' = Inl ChkFuel"
    show ?thesis by (rule "20.IH"(1) [OF g c])
  next
    fix st1 r'
    assume c: "(if ow then Inr st else case cond of None \<Rightarrow> Inl ChkNoCond
       | Some c' \<Rightarrow> rbind (typeOf C n st sc c') (\<lambda>(ct, st').
           if isFunc ct then Inl ChkCondFunc
           else if ct \<noteq> VtBool \<and> ct \<noteq> VtUnknown then Inl ChkCondNotBool else Inr st')) = Inr st1"
      and r: "res = Some r'" "typeOf C n st1 sc r' = Inl ChkFuel"
    from "20.IH"(2) [OF g c r] todo_mono [OF guard_visited [OF c]] show ?thesis by simp
  next
    fix st1 r' rt st2 u
    assume c: "(if ow then Inr st else case cond of None \<Rightarrow> Inl ChkNoCond
       | Some c' \<Rightarrow> rbind (typeOf C n st sc c') (\<lambda>(ct, st').
           if isFunc ct then Inl ChkCondFunc
           else if ct \<noteq> VtBool \<and> ct \<noteq> VtUnknown then Inl ChkCondNotBool else Inr st')) = Inr st1"
      and r: "res = Some r'" "typeOf C n st1 sc r' = Inr (rt, st2)" "\<not> isFunc rt"
        "rwrap ChkGuardTypes (unify acc rt) = Inr u" "typeCases C n st2 sc cs u = Inl ChkFuel"
    from "20.IH"(3) [OF g c r(1,2) refl r(3,4,5)] todo_mono [OF guard_visited [OF c]]
      todo_mono [OF typeOf_visited(1) [OF r(2)]] show ?thesis by simp
  qed
next
  case (21 C n st nm)
  from "21.prems"(1) show ?case
  proof (cases rule: inferReturn_fuel)
    case out
    then show ?thesis using todo_visit [OF "21.prems"(2) out(2), of "st\<lparr>mm_result := mput nm VtUnknown (mm_result st)\<rparr>"]
      by (auto simp: visited_def)
  next
    case (ann t body sc)
    have "n - 1 < todo C (st\<lparr>mm_result := mput nm t (mm_result st)\<rparr>)"
      by (rule "21.IH"(2) [OF ann(2,3,4) _ refl refl]) (use ann in simp_all)
    then show ?thesis using ann(4) todo_visit [OF "21.prems"(2) ann(1), of "st\<lparr>mm_result := mput nm t (mm_result st)\<rparr>"]
      by (auto simp: visited_def)
  next
    case (body body sc)
    have "n - 1 < todo C (st\<lparr>mm_inProgress := nm # mm_inProgress st\<rparr>)"
      by (rule "21.IH"(1) [OF body(2,3,5,4) _ refl refl]) (use body in simp_all)
    moreover have "visited C (st\<lparr>mm_inProgress := nm # mm_inProgress st\<rparr>) = insert nm (visited C st)"
      using body(3) by (auto simp: visited_def)
    ultimately show ?thesis using body(4) todo_visit [OF "21.prems"(2) body(1)] by fastforce
  qed
qed (auto split: option.split_asm)

lemma todo_le_chkFuel: "todo C st \<le> chkFuel C"
proof -
  have "todo C st \<le> card (dom (map_of (ck_fnParams C)))"
    unfolding todo_def by (rule card_mono) (auto simp: finite_dom_map_of)
  also have "\<dots> \<le> length (ck_fnParams C)"
    unfolding dom_map_of_conv_image_fst by (metis card_image_le card_length le_trans list.set_map length_map)
  finally show ?thesis by (simp add: chkFuel_def)
qed

lemma inferReturn_fuel_ok:
  "map_of (ck_fnParams C) nm \<noteq> None \<Longrightarrow> inferReturn C (chkFuel C) st nm \<noteq> Inl ChkFuel"
  using not_fuel(5) [of C "chkFuel C" st nm] todo_le_chkFuel [of C st] by auto

text \<open>
  C24: The checker's recursion ends: with as much fuel as there are functions, the type of an
  expression never runs out of fuel, in any state of the memo tables and for mutually recursive
  functions too.
\<close>

theorem typeOf_fuel: "typeOf C (chkFuel C) st sc e \<noteq> Inl ChkFuel"
  using not_fuel(1) [of C "chkFuel C" st sc e] todo_le_chkFuel [of C st] by auto

end
