(* ===== verification/CheckerArity.thy ===== *)
theory CheckerArity
  imports CheckerRuns Eval
begin

text \<open>
  The checker establishes what the evaluator needs: a term it accepts has the arity its type says
  (\<open>typed_arity\<close>), so after every function has been inferred the function environment satisfies
  \<open>arity_ok\<close>, the hypothesis of \<open>eval_sorted\<close> (\<open>inferred_arity_ok\<close>).
\<close>

text \<open>Types of first-order values; a function type has parameters left and a first-order result.\<close>

fun fo :: "vtype \<Rightarrow> bool" where
  "fo (VtFunc f) = False"
| "fo (VtStruct nm fs) = (\<forall>kt \<in> set fs. fo (snd kt))"
| "fo (VtVector t) = fo t"
| "fo t = True"

definition ok_ty :: "vtype \<Rightarrow> bool" where
  "ok_ty t = (case t of VtFunc f \<Rightarrow> ft_params f \<noteq> [] \<and> fo (ft_result f) | _ \<Rightarrow> fo t)"

definition vt_ar :: "vtype \<Rightarrow> nat" where
  "vt_ar t = (case t of VtFunc f \<Rightarrow> length (ft_params f) | _ \<Rightarrow> 0)"

definition fo_map :: "vtype gomap \<Rightarrow> bool" where
  "fo_map m \<longleftrightarrow> (\<forall>x t. map_of m x = Some t \<longrightarrow> fo t)"

text \<open>The checker's tables belong to the function environment and hold first-order types.\<close>

definition tables_ok :: "checker \<Rightarrow> func gomap \<Rightarrow> bool" where
  "tables_ok C F \<longleftrightarrow>
     (\<forall>nm ps. map_of (ck_fnParams C) nm = Some ps \<longrightarrow>
        ps \<noteq> [] \<and> (\<exists>def. map_of F nm = Some def \<and> length (f_Params def) = length ps \<and> f_Params def \<noteq> [])) \<and>
     (\<forall>nm body. map_of (ck_fnBody C) nm = Some body \<longrightarrow> (\<exists>def. map_of F nm = Some def \<and> f_Body def = body)) \<and>
     (\<forall>nm sc. map_of (ck_fnScope C) nm = Some sc \<longrightarrow> fo_map sc) \<and>
     fo_map (ck_annotations C)"

text \<open>The functions whose results a run has memoized have value bodies.\<close>

definition newly_ok :: "func gomap \<Rightarrow> memo \<Rightarrow> memo \<Rightarrow> bool" where
  "newly_ok F st st' \<longleftrightarrow>
     (\<forall>nm \<in> dom (map_of (mm_result st')) - dom (map_of (mm_result st)).
        \<exists>def. map_of F nm = Some def \<and> ar F (f_Body def) = Some 0)"

lemma fo_ok_ty: "fo t \<Longrightarrow> ok_ty t" "fo t \<Longrightarrow> vt_ar t = 0" "fo t \<Longrightarrow> \<not> isFunc t"
  by (cases t; simp add: ok_ty_def vt_ar_def isFunc_def)+

lemma ok_ty_fo: "ok_ty t \<Longrightarrow> \<not> isFunc t \<Longrightarrow> fo t"
  by (cases t) (simp_all add: ok_ty_def isFunc_def)

lemma ok_ty_VtFunc [simp]: "ok_ty (VtFunc f) \<longleftrightarrow> ft_params f \<noteq> [] \<and> fo (ft_result f)"
  by (simp add: ok_ty_def)

lemma vt_ar_VtFunc [simp]: "vt_ar (VtFunc f) = length (ft_params f)"
  by (simp add: vt_ar_def)

lemma unify_fo:
  "unify a b = Inr t \<Longrightarrow> fo a \<Longrightarrow> fo b \<Longrightarrow> fo t"
  "unifyFields fs gs = Inr hs \<Longrightarrow> \<forall>kt \<in> set fs. fo (snd kt) \<Longrightarrow> \<forall>kt \<in> set gs. fo (snd kt) \<Longrightarrow> \<forall>kt \<in> set hs. fo (snd kt)"
proof (induction a b and fs gs arbitrary: t and hs rule: unify_unifyFields.induct)
  case (11 k ta fs gs)
  then show ?case
    by (fastforce split: option.split_asm simp: findField_def dest: map_of_SomeD)
qed (auto split: if_split_asm)

lemma resultOf_fo: "resultOf op fb ts = Inr t \<Longrightarrow> fo fb \<Longrightarrow> fo t"
  by (auto simp: resultOf_def split: if_split_asm list.split_asm)

lemma applyArgs_ok:
  assumes "applyArgs f ts = Inr t" "fo (ft_result f)"
  shows "ok_ty t \<and> length ts \<le> length (ft_params f) \<and> vt_ar t = length (ft_params f) - length ts"
  using assms by (auto simp: applyArgs_def Let_def fo_ok_ty dest!: resultOf_fo split: if_split_asm)

lemma applyArgs_full:
  "applyArgs f ts = Inr t \<Longrightarrow> fo (ft_result f) \<Longrightarrow> length ts = length (ft_params f) \<Longrightarrow> fo t"
  by (auto simp: applyArgs_def Let_def dest!: resultOf_fo split: if_split_asm)

lemma reduceLoop_fo:
  "reduceLoop k f acc v = Inr t \<Longrightarrow> fo (ft_result f) \<Longrightarrow> length (ft_params f) = 2 \<Longrightarrow> fo acc \<Longrightarrow> fo t"
proof (induction k arbitrary: acc)
  case (Suc k)
  then show ?case by (auto split: if_split_asm dest: unify_fo(1) dest!: applyArgs_full)
qed simp

lemma fo_map_mput [simp]: "fo_map m \<Longrightarrow> fo t \<Longrightarrow> fo_map (mput k t m)"
  by (simp add: fo_map_def)

lemma fo_mapD: "fo_map m \<Longrightarrow> map_of m x = Some t \<Longrightarrow> fo t"
  by (simp add: fo_map_def)

lemma newly_ok_refl [simp]: "newly_ok F st st"
  by (simp add: newly_ok_def)

lemma newly_ok_trans: "newly_ok F a b \<Longrightarrow> newly_ok F b c \<Longrightarrow> newly_ok F a c"
  unfolding newly_ok_def by blast

lemma newly_ok_ann:
  "newly_ok F (st\<lparr>mm_result := mput nm t (mm_result st)\<rparr>) st' \<Longrightarrow>
   map_of F nm = Some def \<Longrightarrow> ar F (f_Body def) = Some 0 \<Longrightarrow> newly_ok F st st'"
  unfolding newly_ok_def by auto

lemma newly_ok_body:
  "newly_ok F (st\<lparr>mm_inProgress := p\<rparr>) st1 \<Longrightarrow>
   map_of F nm = Some def \<Longrightarrow> ar F (f_Body def) = Some 0 \<Longrightarrow>
   newly_ok F st (st1\<lparr>mm_inProgress := q, mm_result := mput nm t (mm_result st1)\<rparr>)"
  unfolding newly_ok_def by auto

lemma primitives_binary: "map_of primitiveArity nm = Some k \<Longrightarrow> k = 2 \<and> is_prim nm"
  by (auto simp: primitiveArity_def is_prim_def primOp_def split: if_split_asm)

lemma run_arity:
  "ty C n st sc e t st' \<Longrightarrow> tables_ok C F \<Longrightarrow> fo_map sc \<Longrightarrow> fo_map (mm_result st) \<Longrightarrow>
     ok_ty t \<and> ar F e = Some (vt_ar t) \<and> fo_map (mm_result st') \<and> newly_ok F st st'"
  "tys C n st sc es ts st' \<Longrightarrow> tables_ok C F \<Longrightarrow> fo_map sc \<Longrightarrow> fo_map (mm_result st) \<Longrightarrow>
     length ts = length es \<and> list_all (\<lambda>e. ar F e = Some 0) es \<and> fo_map (mm_result st') \<and> newly_ok F st st'"
  "tyf C n st sc sfs seen fs st' \<Longrightarrow> tables_ok C F \<Longrightarrow> fo_map sc \<Longrightarrow> fo_map (mm_result st) \<Longrightarrow>
     (\<forall>kt \<in> set fs. fo (snd kt)) \<and> ar F (EStructLit sfs) = Some 0 \<and> fo_map (mm_result st') \<and> newly_ok F st st'"
  "tyc C n st sc cs acc t st' \<Longrightarrow> tables_ok C F \<Longrightarrow> fo_map sc \<Longrightarrow> fo_map (mm_result st) \<Longrightarrow> fo acc \<Longrightarrow>
     fo t \<and> ar F (EGuards cs) = Some 0 \<and> fo_map (mm_result st') \<and> newly_ok F st st'"
  "infr C n st nm t st' \<Longrightarrow> tables_ok C F \<Longrightarrow> fo_map (mm_result st) \<Longrightarrow>
     fo t \<and> fo_map (mm_result st') \<and> newly_ok F st st'"
proof (induction rule: ty_tys_tyf_tyc_infr.inducts)
  case (ty_num n st sc q)
  then show ?case by (simp add: literalType_def ok_ty_def vt_ar_def)
next
  case (ty_str n st sc s)
  then show ?case by (simp add: ok_ty_def vt_ar_def)
next
  case (ty_var sc x t n st)
  then show ?case by (auto dest: fo_mapD simp: fo_ok_ty)
next
  case (ty_prim nm k n st sc a)
  with primitives_binary [of nm k] show ?case by simp
next
  case (ty_fun nm ps n st res st' sc a)
  then obtain def where "map_of F nm = Some def" "length (f_Params def) = length ps" "f_Params def \<noteq> []" "ps \<noteq> []"
    unfolding tables_ok_def by blast
  with ty_fun show ?case by simp
next
  case (ty_app n st sc h f st1 as ts st' t)
  then have f: "ft_params f \<noteq> []" "fo (ft_result f)" "ar F h = Some (length (ft_params f))" by simp_all
  from ty_app have as: "length ts = length as" "list_all (\<lambda>e. ar F e = Some 0) as" by simp_all
  from applyArgs_ok [OF ty_app.hyps(1) f(2)] f as have "ok_ty t" "ar F (EApp (Some h) as) = Some (vt_ar t)"
    by simp_all
  with ty_app newly_ok_trans show ?case by auto
next
  case (ty_guards cs n st sc t st')
  then show ?case by (auto simp: fo_ok_ty simp del: ar.simps)
next
  case (ty_struct n st sc sfs fs st')
  then show ?case by (auto simp: ok_ty_def vt_ar_def simp del: ar.simps)
next
  case (ty_field n st sc u nm fs st' fld t)
  then have "\<forall>kt \<in> set fs. fo (snd kt)" by (simp add: ok_ty_def)
  with ty_field.hyps(1) have "fo t" by (auto simp: findField_def dest!: map_of_SomeD)
  moreover have "ar F u = Some 0" using ty_field by (simp add: vt_ar_def)
  ultimately show ?case using ty_field by (simp add: fo_ok_ty)
next
  case (ty_reduce n st sc g f st1 i initT st2 v elemV st' t)
  then have "fo initT" "fo (ft_result f)" using ok_ty_fo by auto
  with reduceLoop_fo [OF ty_reduce.hyps(3)] ty_reduce.hyps(1) have t: "fo t" by simp
  have "ar F i = Some 0" using ty_reduce \<open>fo initT\<close> fo_ok_ty(2) by auto
  moreover have "ar F v = Some 0" using ty_reduce by (simp add: vt_ar_def)
  moreover have "newly_ok F st st'" using ty_reduce newly_ok_trans by blast
  ultimately show ?case using ty_reduce t by (simp add: fo_ok_ty)
next
  case (tys_nil n st sc)
  then show ?case by simp
next
  case (tys_cons n st sc e t st1 es ts st')
  then have "ar F e = Some 0" using ok_ty_fo [of t] fo_ok_ty(2) [of t] by auto
  with tys_cons newly_ok_trans show ?case by auto
next
  case (tyf_nil n st sc seen)
  then show ?case by simp
next
  case (tyf_cons nm seen n st sc e t st1 sfs fs st')
  then have "fo t" "ar F e = Some 0" using ok_ty_fo [of t] fo_ok_ty(2) [of t] by auto
  with tyf_cons newly_ok_trans show ?case by (auto split: if_split_asm)
next
  case (tyc_cond n st sc c ct st1 r rt st2 acc u cs t st')
  then have rt: "fo rt" "ar F r = Some 0" using ok_ty_fo [of rt] fo_ok_ty(2) [of rt] by auto
  have "ar F c = Some 0" using tyc_cond by (auto simp: vt_ar_def)
  moreover have "fo u" using unify_fo(1) [OF tyc_cond.hyps(3)] rt tyc_cond.prems by simp
  moreover have "newly_ok F st st'" using tyc_cond \<open>fo u\<close> newly_ok_trans by blast
  ultimately show ?case using tyc_cond rt by (auto split: if_split_asm)
next
  case (tyc_otherwise n st sc r rt st' acc u cond)
  then have rt: "fo rt" "ar F r = Some 0" using ok_ty_fo [of rt] fo_ok_ty(2) [of rt] by auto
  moreover have "fo u" using unify_fo(1) [OF tyc_otherwise.hyps(2)] rt tyc_otherwise.prems by simp
  ultimately show ?case using tyc_otherwise by simp
next
  case (inf_memo st nm t n)
  then show ?case by (auto dest: fo_mapD)
next
  case (inf_ann st nm t n body sc bt st')
  then have t: "fo t" "fo_map sc" by (auto simp: tables_ok_def dest: fo_mapD)
  with inf_ann have IH: "ok_ty bt" "ar F body = Some (vt_ar bt)" "fo_map (mm_result st')"
    "newly_ok F (st\<lparr>mm_result := mput nm t (mm_result st)\<rparr>) st'" by simp_all
  from inf_ann have "\<not> isFunc bt" by (simp add: checkBody_Inr)
  with IH(1,2) ok_ty_fo fo_ok_ty(2) have "ar F body = Some 0" by auto
  moreover from inf_ann obtain def where "map_of F nm = Some def" "f_Body def = body"
    unfolding tables_ok_def by blast
  ultimately show ?case using newly_ok_ann [OF IH(4)] IH(3) t by simp
next
  case (inf_progress st nm n)
  then show ?case by simp
next
  case (inf_body st nm n body sc t st1)
  then have sc: "fo_map sc" by (auto simp: tables_ok_def)
  with inf_body have IH: "ok_ty t" "ar F body = Some (vt_ar t)" "fo_map (mm_result st1)"
    "newly_ok F (st\<lparr>mm_inProgress := nm # mm_inProgress st\<rparr>) st1" by simp_all
  from inf_body have "\<not> isFunc t" by (simp add: checkBody_Inr)
  with IH(1,2) ok_ty_fo fo_ok_ty(2) have t: "fo t" "ar F body = Some 0" by auto
  from inf_body obtain def where "map_of F nm = Some def" "f_Body def = body"
    unfolding tables_ok_def by blast
  with newly_ok_body [OF IH(4)] t IH(3) show ?case by simp
qed

end
