(* ===== verification/Builder.thy ===== *)
theory Builder
  imports TypeReg Resolve Checker CheckerArity
begin

text \<open>
  builder/builder.go: \<open>Build\<close>, from a parsed plan to the validated models; and the parts of
  builder/checker.go and builder/resolve.go that it drives (\<open>register\<close>, \<open>paramScope\<close>,
  \<open>validateResolvedProgram\<close>).

  \<open>Build\<close> takes two arguments: \<open>prove\<close>, which is the prover (Prover.thy), and \<open>fp\<close>, the SHA-256 of
  the plan's JSON encoding. The map of models, which the code mutates through pointers, is threaded
  through the loops together with the checker's memo tables.
\<close>

datatype regErr =
    PType string tyErr
  | PNotNumeric string
  | PDuplicate string
  | PString string

datatype 'p buildErr =
    BTypes tyErr
  | BFnTwice string
  | BFnShadows string
  | BFnNoParams string
  | BParam string regErr
  | BResolve string resErr
  | BBodyArity string int
  | BCheck string chkErr
  | BUnknownType string
  | BMergeTwice string
  | BMethodTwice string string
  | BResult string chkErr
  | BNoMerge string
  | BMissing string
  | BProof string 'p
  | BCollectionTwice string
  | BCollectionType string

record builtCollection =
  bc_Name :: string
  bc_Key :: "paramSpec option"
  bc_Spec :: model

record builtPlan =
  bp_Models :: "model gomap"
  bp_Functions :: "func gomap"
  bp_Collections :: "builtCollection list"
  bp_Fingerprint :: string

subsection \<open>Validators\<close>

fun validateFnParams_from :: "typeReg \<Rightarrow> string list \<Rightarrow> paramSpec list \<Rightarrow> regErr + unit" where
  "validateFnParams_from r seen [] = Inr ()"
| "validateFnParams_from r seen (p # ps) =
     rbind (if isVector r (p_Type p) then Inr ()
            else rwrap (PType (p_Name p)) (rmap (\<lambda>_. ()) (resolveToken r (p_Type p)))) (\<lambda>_.
     if p_Name p \<in> set seen then Inl (PDuplicate (p_Name p))
     else validateFnParams_from r (p_Name p # seen) ps)"

definition validateFnParams :: "typeReg \<Rightarrow> paramSpec list \<Rightarrow> regErr + unit" where
  "validateFnParams r ps = validateFnParams_from r [] ps"

definition scalarParam :: "typeReg \<Rightarrow> bool \<Rightarrow> string list \<Rightarrow> paramSpec \<Rightarrow> regErr + paramSpec" where
  "scalarParam r allowString seen p =
     rbind (rwrap (PType (p_Name p)) (resolveToken r (p_Type p))) (\<lambda>et.
     case et of
       TStruct nm fs \<Rightarrow> Inl (PNotNumeric (p_Name p))
     | TStr \<Rightarrow>
         if p_Name p \<in> set seen then Inl (PDuplicate (p_Name p))
         else if \<not> allowString then Inl (PString (p_Name p))
         else Inr \<lparr> p_Name = p_Name p, p_Type = ''string'' \<rparr>
     | TNum nt \<Rightarrow>
         if p_Name p \<in> set seen then Inl (PDuplicate (p_Name p))
         else Inr \<lparr> p_Name = p_Name p, p_Type = nt_String nt \<rparr>)"

fun resolveScalarParams_from :: "typeReg \<Rightarrow> bool \<Rightarrow> string list \<Rightarrow> paramSpec list \<Rightarrow> regErr + paramSpec list" where
  "resolveScalarParams_from r allowString seen [] = Inr []"
| "resolveScalarParams_from r allowString seen (p # ps) =
     rbind (scalarParam r allowString seen p) (\<lambda>q.
     rbind (resolveScalarParams_from r allowString (p_Name p # seen) ps) (\<lambda>qs. Inr (q # qs)))"

definition resolveScalarParams :: "typeReg \<Rightarrow> bool \<Rightarrow> paramSpec list \<Rightarrow> regErr + paramSpec list" where
  "resolveScalarParams r allowString ps = resolveScalarParams_from r allowString [] ps"

definition paramSet :: "paramSpec list \<Rightarrow> string list" where
  "paramSet ps = map p_Name ps"

subsection \<open>The checker's tables\<close>

definition newChecker :: checker where
  "newChecker = \<lparr> ck_fnParams = [], ck_fnScope = [], ck_fnBody = [], ck_annotations = [] \<rparr>"

definition resolveTokenVtype :: "typeReg \<Rightarrow> string \<Rightarrow> tyErr + vtype" where
  "resolveTokenVtype r tok =
     (if isVector r tok
      then (case map_of (tr_models r) tok of
              None \<Rightarrow> Inl (TyUnknown tok)
            | Some m \<Rightarrow> Inr (VtVector (vElem (mo_Elem m))))
      else rbind (resolveToken r tok) (\<lambda>et. Inr (vElem et)))"

definition paramVtype :: "typeReg \<Rightarrow> paramSpec \<Rightarrow> regErr + string \<times> vtype" where
  "paramVtype r p = rwrap (PType (p_Name p)) (rmap (Pair (p_Name p)) (resolveTokenVtype r (p_Type p)))"

definition resolveResultType :: "typeReg \<Rightarrow> string \<Rightarrow> tyErr + vtype" where
  "resolveResultType r tok =
     (if tok = ''bool'' then Inr VtBool else if tok = ''string'' then Inr VtString
      else resolveTokenVtype r tok)"

definition paramScope :: "typeReg \<Rightarrow> paramSpec list \<Rightarrow> regErr + vtype gomap" where
  "paramScope r ps = rbind (mapR (paramVtype r) ps) (\<lambda>ts. Inr (mfrom ts))"

definition register :: "typeReg \<Rightarrow> fnDef \<Rightarrow> expr \<Rightarrow> checker \<Rightarrow> regErr + checker" where
  "register r fd body C =
     rbind (mapR (paramVtype r) (fd_Params fd)) (\<lambda>ts.
     let nm = fd_Name fd;
         C' = C\<lparr>ck_fnParams := mput nm (map snd ts) (ck_fnParams C),
                ck_fnScope := mput nm (mfrom ts) (ck_fnScope C),
                ck_fnBody := mput nm body (ck_fnBody C)\<rparr> in
     if fd_RetType fd = [] then Inr C'
     else rbind (rwrap (PType ''return type'') (resolveResultType r (fd_RetType fd))) (\<lambda>rt.
       Inr (C'\<lparr>ck_annotations := mput nm rt (ck_annotations C')\<rparr>)))"

subsection \<open>The stages of the build\<close>

text \<open>The arities of all functions, before any body is resolved.\<close>

definition fnArity :: "typeReg \<Rightarrow> nat gomap \<Rightarrow> fnDef \<Rightarrow> 'p buildErr + nat gomap" where
  "fnArity r fa fd =
     (let nm = fd_Name fd in
      if map_of fa nm \<noteq> None then Inl (BFnTwice nm)
      else if map_of primitiveArity nm \<noteq> None then Inl (BFnShadows nm)
      else if fd_Params fd = [] then Inl (BFnNoParams nm)
      else rbind (rwrap (BParam nm) (validateFnParams r (fd_Params fd))) (\<lambda>_.
        Inr (mput nm (length (fd_Params fd)) fa)))"

definition compileFn :: "typeReg \<Rightarrow> nat gomap \<Rightarrow> checker \<times> func gomap \<Rightarrow> fnDef \<Rightarrow> 'p buildErr + checker \<times> func gomap" where
  "compileFn r fa Cf fd =
     (let nm = fd_Name fd in
      rbind (rwrap (BResolve nm) (resolve fa (paramSet (fd_Params fd)) (fd_Body fd))) (\<lambda>body.
      if arityOf body \<noteq> 0 then Inl (BBodyArity nm (arityOf body))
      else rbind (rwrap (BParam nm) (register r fd body (fst Cf))) (\<lambda>C.
        Inr (C, mput nm \<lparr> f_Name = nm, f_Params = fd_Params fd, f_Body = body \<rparr> (snd Cf)))))"

definition inferFn :: "checker \<Rightarrow> memo \<Rightarrow> fnDef \<Rightarrow> 'p buildErr + memo" where
  "inferFn C st fd =
     rbind (rwrap (BCheck (fd_Name fd)) (inferReturn C (chkFuel C) st (fd_Name fd))) (\<lambda>(t, st'). Inr st')"

type_synonym bstate = "model gomap \<times> memo"

definition buildMerge :: "nat gomap \<Rightarrow> checker \<Rightarrow> bstate \<times> string list \<Rightarrow> mergeDef \<Rightarrow> 'p buildErr + bstate \<times> string list" where
  "buildMerge fa C s md =
     (case s of ((ms, st), seen) \<Rightarrow>
      let tn = md_TypeName md in
      case map_of ms tn of
        None \<Rightarrow> Inl (BUnknownType tn)
      | Some m \<Rightarrow>
          if tn \<in> set seen then Inl (BMergeTwice tn)
          else
            rbind (rwrap (BResolve tn) (resolveCombinator fa [] (md_Body md))) (\<lambda>merge.
            rbind (rwrap (BCheck tn) (checkCombinatorFn C st merge [] (mo_Elem m))) (\<lambda>st'.
            Inr ((mput tn (m\<lparr>mo_Merge := merge\<rparr>) ms, st'), tn # seen))))"

text \<open>The recorded result of a query.\<close>

definition queryMethod :: "paramSpec list \<Rightarrow> expr \<Rightarrow> vtype \<Rightarrow> chkErr + crdt_method" where
  "queryMethod ps body result =
     (let m = \<lparr> mt_Params = ps, mt_Body = body, mt_Result = TypeReal,
                mt_ResultNum = NumType DRat SAny, mt_ResultStruct = None \<rparr> in
      case result of
        VtStruct nm fs \<Rightarrow> rbind (elemTOf result) (\<lambda>et. Inr (m\<lparr>mt_ResultStruct := Some et\<rparr>))
      | VtNum nt \<Rightarrow> Inr (m\<lparr>mt_ResultNum := nt\<rparr>)
      | VtBool \<Rightarrow> Inr (m\<lparr>mt_Result := TypeBool\<rparr>)
      | VtString \<Rightarrow> Inr (m\<lparr>mt_Result := TypeString\<rparr>)
      | _ \<Rightarrow> Inl ChkQueryResult)"

definition buildQuery :: "typeReg \<Rightarrow> nat gomap \<Rightarrow> checker \<Rightarrow> bstate \<Rightarrow> queryDef \<Rightarrow> 'p buildErr + bstate" where
  "buildQuery r fa C s qd =
     (case s of (ms, st) \<Rightarrow>
      let tn = qd_TypeName qd; mn = qd_MethodName qd in
      case map_of ms tn of
        None \<Rightarrow> Inl (BUnknownType tn)
      | Some m \<Rightarrow>
          if map_of (mo_Queries m) mn \<noteq> None then Inl (BMethodTwice tn mn)
          else
            rbind (rwrap (BParam mn) (resolveScalarParams r False (qd_Params qd))) (\<lambda>ps.
            rbind (rwrap (BResolve mn) (resolve fa (paramSet ps) (qd_Body qd))) (\<lambda>body.
            rbind (rwrap (BParam mn) (paramScope r ps)) (\<lambda>sc.
            rbind (rwrap (BCheck mn) (checkQueryFn C st body sc (mo_Elem m))) (\<lambda>(res, st').
            rbind (rwrap (BResult mn) (queryMethod ps body res)) (\<lambda>q.
            Inr (mput tn (m\<lparr>mo_Queries := mput mn q (mo_Queries m)\<rparr>) ms, st')))))))"

definition buildUpdate :: "typeReg \<Rightarrow> nat gomap \<Rightarrow> checker \<Rightarrow> bstate \<Rightarrow> updateDef \<Rightarrow> 'p buildErr + bstate" where
  "buildUpdate r fa C s ud =
     (case s of (ms, st) \<Rightarrow>
      let tn = ud_TypeName ud; mn = ud_MethodName ud in
      case map_of ms tn of
        None \<Rightarrow> Inl (BUnknownType tn)
      | Some m \<Rightarrow>
          if map_of (mo_Updates m) mn \<noteq> None then Inl (BMethodTwice tn mn)
          else
            rbind (rwrap (BParam mn) (resolveScalarParams r True (ud_Params ud))) (\<lambda>ps.
            rbind (rwrap (BResolve mn) (resolveCombinator fa (paramSet ps) (ud_Body ud))) (\<lambda>body.
            rbind (rwrap (BParam mn) (paramScope r ps)) (\<lambda>sc.
            rbind (rwrap (BCheck mn) (checkCombinatorFn C st body sc (mo_Elem m))) (\<lambda>st'.
            Inr (mput tn (m\<lparr>mo_Updates := mput mn
                  \<lparr> mt_Params = ps, mt_Body = body, mt_Result = TypeReal,
                    mt_ResultNum = NumType DRat SAny, mt_ResultStruct = None \<rparr> (mo_Updates m)\<rparr>) ms, st'))))))"

subsection \<open>Validation of the resolved program\<close>

definition validateResolvedProgram :: "plan \<Rightarrow> model gomap \<Rightarrow> func gomap \<Rightarrow> 'p buildErr + unit" where
  "validateResolvedProgram pl ms fs =
     rbind (allR (\<lambda>fd. case map_of fs (fd_Name fd) of
         None \<Rightarrow> Inl (BMissing (fd_Name fd))
       | Some f \<Rightarrow> rwrap (BResolve (fd_Name fd)) (validateResolvedExpr (f_Body f))) (pl_Functions pl)) (\<lambda>_.
     rbind (allR (\<lambda>md. case map_of ms (md_TypeName md) of
         None \<Rightarrow> Inl (BMissing (md_TypeName md))
       | Some m \<Rightarrow> rwrap (BResolve (md_TypeName md)) (validateResolvedExpr (mo_Merge m))) (pl_Merges pl)) (\<lambda>_.
     rbind (allR (\<lambda>qd. case map_of ms (qd_TypeName qd) of
         None \<Rightarrow> Inl (BMissing (qd_TypeName qd))
       | Some m \<Rightarrow> (case map_of (mo_Queries m) (qd_MethodName qd) of
             None \<Rightarrow> Inl (BMissing (qd_MethodName qd))
           | Some q \<Rightarrow> rwrap (BResolve (qd_MethodName qd)) (validateResolvedExpr (mt_Body q)))) (pl_Queries pl)) (\<lambda>_.
     allR (\<lambda>ud. case map_of ms (ud_TypeName ud) of
         None \<Rightarrow> Inl (BMissing (ud_TypeName ud))
       | Some m \<Rightarrow> (case map_of (mo_Updates m) (ud_MethodName ud) of
             None \<Rightarrow> Inl (BMissing (ud_MethodName ud))
           | Some u \<Rightarrow> rwrap (BResolve (ud_MethodName ud)) (validateResolvedExpr (mt_Body u)))) (pl_Updates pl))))"

definition buildCollection ::
    "typeReg \<Rightarrow> model gomap \<Rightarrow> builtCollection list \<Rightarrow> collectionSpec \<Rightarrow> 'p buildErr + builtCollection list" where
  "buildCollection r ms cs c =
     (if cs_Name c \<in> set (map bc_Name cs) then Inl (BCollectionTwice (cs_Name c))
      else case map_of ms (cs_Type c) of
          None \<Rightarrow> Inl (BCollectionType (cs_Name c))
        | Some m \<Rightarrow>
            (case cs_Key c of
               None \<Rightarrow> Inr (cs @ [\<lparr> bc_Name = cs_Name c, bc_Key = None, bc_Spec = m \<rparr>])
             | Some k \<Rightarrow>
                 rbind (rwrap (BParam (cs_Name c)) (resolveScalarParams r True [k])) (\<lambda>ks.
                 Inr (cs @ [\<lparr> bc_Name = cs_Name c, bc_Key = Some (hd ks), bc_Spec = m \<rparr>]))))"

subsection \<open>Build\<close>

text \<open>Everything up to the convergence proof: the models, the functions and the registry.\<close>

definition buildChecked :: "plan \<Rightarrow> 'p buildErr + typeReg \<times> model gomap \<times> func gomap" where
  "buildChecked pl =
     rbind (rwrap BTypes (resolveTypes (pl_Types pl))) (\<lambda>r.
     rbind (foldR (fnArity r) [] (pl_Functions pl)) (\<lambda>fa.
     rbind (foldR (compileFn r fa) (newChecker, []) (pl_Functions pl)) (\<lambda>(C, funcs).
     rbind (foldR (inferFn C) newMemo (pl_Functions pl)) (\<lambda>st.
     rbind (foldR (buildMerge fa C) ((tr_models r, st), []) (pl_Merges pl)) (\<lambda>(s, merged).
     rbind (foldR (buildQuery r fa C) s (pl_Queries pl)) (\<lambda>s1.
     rbind (foldR (buildUpdate r fa C) s1 (pl_Updates pl)) (\<lambda>(ms, st2).
     rbind (allR (\<lambda>nm. if nm \<in> set merged then Inr () else Inl (BNoMerge nm)) (tr_vectorOrder r)) (\<lambda>_.
     rbind (validateResolvedProgram pl ms funcs) (\<lambda>_.
     Inr (r, ms, funcs))))))))))"

definition attachFuncs :: "func gomap \<Rightarrow> string list \<Rightarrow> model gomap \<Rightarrow> model gomap" where
  "attachFuncs funcs nms ms =
     fold (\<lambda>nm ms. case map_of ms nm of None \<Rightarrow> ms | Some m \<Rightarrow> mput nm (m\<lparr>mo_Funcs := funcs\<rparr>) ms) nms ms"

definition proveType ::
    "(elemT \<Rightarrow> expr \<Rightarrow> crdt_method gomap \<Rightarrow> func gomap \<Rightarrow> 'p + unit) \<Rightarrow> model gomap \<Rightarrow> func gomap \<Rightarrow> string \<Rightarrow> 'p buildErr + unit" where
  "proveType prove ms funcs nm =
     (case map_of ms nm of
        None \<Rightarrow> Inl (BMissing nm)
      | Some m \<Rightarrow> rwrap (BProof nm) (prove (mo_Elem m) (mo_Merge m) (mo_Updates m) funcs))"

definition Build ::
    "(elemT \<Rightarrow> expr \<Rightarrow> crdt_method gomap \<Rightarrow> func gomap \<Rightarrow> 'p + unit) \<Rightarrow> (plan \<Rightarrow> string) \<Rightarrow> plan \<Rightarrow> 'p buildErr + builtPlan" where
  "Build prove fp pl =
     rbind (buildChecked pl) (\<lambda>(r, ms, funcs).
     rbind (allR (proveType prove ms funcs) (tr_vectorOrder r)) (\<lambda>_.
     let ms' = attachFuncs funcs (tr_vectorOrder r) ms in
     rbind (foldR (buildCollection r ms') [] (pl_Collections pl)) (\<lambda>cs.
     Inr \<lparr> bp_Models = ms', bp_Functions = funcs, bp_Collections = cs, bp_Fingerprint = fp pl \<rparr>)))"

end
