(* ===== verification/BuilderProps.thy ===== *)
theory BuilderProps
  imports Builder
begin

text \<open>
  What an accepted plan guarantees (builder/builder.go): the stages of \<open>Build\<close> establish, one after
  the other, the hypotheses under which the evaluator was shown to be safe. \<open>compiled\<close> relates the
  checker's tables to the function environment, \<open>runtime_ok\<close> is what the replicas need.
\<close>

subsection \<open>The types of parameters are first-order\<close>

lemma fo_vElem: "fo (vElem t)" "\<forall>kt \<in> set (vElemFields fs). fo (snd kt)"
  by (induction t and fs rule: vElem_vElemFields.induct) auto

lemma resolveTokenVtype_fo: "resolveTokenVtype r tok = Inr t \<Longrightarrow> fo t"
  by (auto simp: resolveTokenVtype_def fo_vElem split: if_split_asm option.split_asm)

lemma resolveResultType_fo: "resolveResultType r tok = Inr t \<Longrightarrow> fo t"
  by (auto simp: resolveResultType_def dest: resolveTokenVtype_fo split: if_split_asm)

lemma paramVtype_fo: "paramVtype r p = Inr nt \<Longrightarrow> fo (snd nt)"
  by (auto simp: paramVtype_def dest: resolveTokenVtype_fo)

lemma fo_map_mfrom: "(\<And>kt. kt \<in> set ts \<Longrightarrow> fo (snd kt)) \<Longrightarrow> fo_map (mfrom ts)"
  unfolding fo_map_def map_of_mfrom by (auto dest!: map_of_SomeD)

lemma paramVtypes_fo: "mapR (paramVtype r) ps = Inr ts \<Longrightarrow> fo_map (mfrom ts) \<and> length ts = length ps"
  by (auto intro!: fo_map_mfrom dest: mapR_Inr_set paramVtype_fo mapR_Inr_length)

lemma paramScope_fo: "paramScope r ps = Inr sc \<Longrightarrow> fo_map sc"
  by (auto simp: paramScope_def paramVtypes_fo)

subsection \<open>The function environment\<close>

text \<open>The tables after the functions in \<open>nms\<close> have been registered.\<close>

definition fn_entry :: "nat option \<Rightarrow> vtype list option \<Rightarrow> expr option \<Rightarrow> vtype gomap option \<Rightarrow> func option \<Rightarrow> bool" where
  "fn_entry a ps body sc f =
     (case f of
        None \<Rightarrow> ps = None \<and> body = None \<and> sc = None
      | Some def \<Rightarrow> f_Params def \<noteq> [] \<and> a = Some (length (f_Params def)) \<and>
          map_option length ps = Some (length (f_Params def)) \<and> body = Some (f_Body def) \<and>
          (case sc of None \<Rightarrow> False | Some s \<Rightarrow> fo_map s))"

definition compiled :: "nat gomap \<Rightarrow> checker \<Rightarrow> func gomap \<Rightarrow> bool" where
  "compiled fa C F \<longleftrightarrow> wfm F \<and> fo_map (ck_annotations C) \<and>
     (\<forall>nm. fn_entry (map_of fa nm) (map_of (ck_fnParams C) nm) (map_of (ck_fnBody C) nm)
        (map_of (ck_fnScope C) nm) (map_of F nm))"

lemma fn_entryD:
  assumes "fn_entry a ps body sc f"
  shows "ps = Some p \<Longrightarrow> \<exists>def. f = Some def \<and> length (f_Params def) = length p \<and> f_Params def \<noteq> [] \<and> p \<noteq> []"
    "body = Some b \<Longrightarrow> \<exists>def. f = Some def \<and> f_Body def = b" "sc = Some s \<Longrightarrow> fo_map s"
  using assms by (auto simp: fn_entry_def split: option.split_asm)

lemma compiledD:
  assumes "compiled fa C F"
  shows "fn_entry (map_of fa nm) (map_of (ck_fnParams C) nm) (map_of (ck_fnBody C) nm)
    (map_of (ck_fnScope C) nm) (map_of F nm)"
  using assms by (simp add: compiled_def)

lemma compiled_tables: "compiled fa C F \<Longrightarrow> tables_ok C F"
proof -
  assume c: "compiled fa C F"
  note D = fn_entryD [OF compiledD [OF c]]
  have "fo_map (ck_annotations C)" using c by (simp add: compiled_def)
  with D(1,2,3) show ?thesis unfolding tables_ok_def by blast
qed

text \<open>The arities collected by the first loop, in any order of declaration.\<close>

lemma fnArity_step: "fnArity r fa fd = Inr fa' \<Longrightarrow>
   fa' = mput (fd_Name fd) (length (fd_Params fd)) fa \<and> map_of fa (fd_Name fd) = None \<and> fd_Params fd \<noteq> []"
  by (auto simp: fnArity_def Let_def split: if_split_asm)

lemma fnArities:
  assumes "foldR (fnArity r) fa fds = (Inr fa' :: 'p buildErr + nat gomap)"
  shows "map_of fa \<subseteq>\<^sub>m map_of fa' \<and>
    (\<forall>fd \<in> set fds. map_of fa' (fd_Name fd) = Some (length (fd_Params fd)) \<and> fd_Params fd \<noteq> []) \<and>
    distinct (map fd_Name fds) \<and> dom (map_of fa) \<inter> set (map fd_Name fds) = {} \<and>
    dom (map_of fa') = dom (map_of fa) \<union> set (map fd_Name fds)"
  using assms
proof (induction fds arbitrary: fa)
  case (Cons fd fds)
  then obtain fa1 where s: "fnArity r fa fd = (Inr fa1 :: 'p buildErr + nat gomap)"
    "foldR (fnArity r) fa1 fds = (Inr fa' :: 'p buildErr + nat gomap)" by auto
  from fnArity_step [OF s(1)] have f: "fa1 = mput (fd_Name fd) (length (fd_Params fd)) fa"
    "map_of fa (fd_Name fd) = None" "fd_Params fd \<noteq> []" by simp_all
  from Cons.IH [OF s(2)] have I: "map_of fa1 \<subseteq>\<^sub>m map_of fa'"
    "\<And>x. x \<in> set fds \<Longrightarrow> map_of fa' (fd_Name x) = Some (length (fd_Params x)) \<and> fd_Params x \<noteq> []"
    "distinct (map fd_Name fds)" "dom (map_of fa1) \<inter> set (map fd_Name fds) = {}"
    "dom (map_of fa') = dom (map_of fa1) \<union> set (map fd_Name fds)" by blast+
  have "map_of fa \<subseteq>\<^sub>m map_of fa1" using f(1,2) by (auto simp: map_le_def)
  then have "map_of fa \<subseteq>\<^sub>m map_of fa'" using I(1) by (rule map_le_trans)
  moreover have "map_of fa' (fd_Name fd) = Some (length (fd_Params fd))"
    by (rule map_leD [OF I(1)]) (simp add: f(1))
  moreover have d1: "dom (map_of fa1) = insert (fd_Name fd) (dom (map_of fa))" by (simp add: f(1))
  moreover have "distinct (map fd_Name (fd # fds))" "dom (map_of fa) \<inter> set (map fd_Name (fd # fds)) = {}"
    using I(3,4) f(2) unfolding d1 by auto
  moreover have "dom (map_of fa') = dom (map_of fa) \<union> set (map fd_Name (fd # fds))"
    unfolding I(5) d1 by simp
  ultimately show ?case using I(2) f(3) by simp
qed simp

lemma register_tables:
  assumes "register r fd body C = Inr C'" "fo_map (ck_annotations C)"
  shows "\<exists>ps sc. length ps = length (fd_Params fd) \<and> fo_map sc \<and> fo_map (ck_annotations C') \<and>
    ck_fnParams C' = mput (fd_Name fd) ps (ck_fnParams C) \<and> ck_fnScope C' = mput (fd_Name fd) sc (ck_fnScope C) \<and>
    ck_fnBody C' = mput (fd_Name fd) body (ck_fnBody C)"
proof -
  from assms(1) obtain ts where ts: "mapR (paramVtype r) (fd_Params fd) = Inr ts"
    and C': "C' = C\<lparr>ck_fnParams := mput (fd_Name fd) (map snd ts) (ck_fnParams C),
        ck_fnScope := mput (fd_Name fd) (mfrom ts) (ck_fnScope C),
        ck_fnBody := mput (fd_Name fd) body (ck_fnBody C)\<rparr> \<or>
      (\<exists>rt. resolveResultType r (fd_RetType fd) = Inr rt \<and> C' = C\<lparr>ck_fnParams := mput (fd_Name fd) (map snd ts) (ck_fnParams C),
        ck_fnScope := mput (fd_Name fd) (mfrom ts) (ck_fnScope C),
        ck_fnBody := mput (fd_Name fd) body (ck_fnBody C), ck_annotations := mput (fd_Name fd) rt (ck_annotations C)\<rparr>)"
    by (auto simp: register_def Let_def split: if_split_asm)
  from paramVtypes_fo [OF ts] have "fo_map (mfrom ts)" "length (map snd ts) = length (fd_Params fd)" by simp_all
  moreover have "fo_map (ck_annotations C')" using C' assms(2) by (auto dest: resolveResultType_fo)
  ultimately show ?thesis using C' by (intro exI [of _ "map snd ts"] exI [of _ "mfrom ts"]) auto
qed

lemma compileFn_step:
  assumes "compileFn r fa (C, F) fd = Inr (C', F')" "compiled fa C F"
    and "map_of fa (fd_Name fd) = Some (length (fd_Params fd))" "fd_Params fd \<noteq> []"
  shows "compiled fa C' F' \<and> dom (map_of F') = insert (fd_Name fd) (dom (map_of F))"
proof -
  from assms(1) obtain body where b: "register r fd body C = Inr C'"
    and F': "F' = mput (fd_Name fd) \<lparr> f_Name = fd_Name fd, f_Params = fd_Params fd, f_Body = body \<rparr> F"
    by (auto simp: compileFn_def Let_def split: if_split_asm)
  have ann: "fo_map (ck_annotations C)" using assms(2) by (simp add: compiled_def)
  from register_tables [OF b ann] obtain ps sc where t: "length ps = length (fd_Params fd)" "fo_map sc"
    "fo_map (ck_annotations C')" "ck_fnParams C' = mput (fd_Name fd) ps (ck_fnParams C)"
    "ck_fnScope C' = mput (fd_Name fd) sc (ck_fnScope C)" "ck_fnBody C' = mput (fd_Name fd) body (ck_fnBody C)" by blast
  have "compiled fa C' F'"
    using assms(2-4) t(1-3) unfolding compiled_def F' t(4-6) by (simp add: fn_entry_def)
  then show ?thesis by (simp add: F')
qed

lemma compileFns:
  assumes "foldR (compileFn r fa) (C, F) fds = (Inr (C', F') :: 'p buildErr + _)" "compiled fa C F"
    and "\<And>fd. fd \<in> set fds \<Longrightarrow> map_of fa (fd_Name fd) = Some (length (fd_Params fd)) \<and> fd_Params fd \<noteq> []"
  shows "compiled fa C' F' \<and> dom (map_of F') = dom (map_of F) \<union> set (map fd_Name fds)"
  using assms
proof (induction fds arbitrary: C F)
  case (Cons fd fds)
  then obtain C1 F1 where s: "compileFn r fa (C, F) fd = (Inr (C1, F1) :: 'p buildErr + _)"
    "foldR (compileFn r fa) (C1, F1) fds = (Inr (C', F') :: 'p buildErr + _)" by auto
  from compileFn_step [OF s(1) Cons.prems(2)] Cons.prems(3) [of fd]
  have c: "compiled fa C1 F1" "dom (map_of F1) = insert (fd_Name fd) (dom (map_of F))" by simp_all
  from Cons.IH [OF s(2) c(1)] Cons.prems(3) have "compiled fa C' F'" "dom (map_of F') = dom (map_of F1) \<union> set (map fd_Name fds)"
    by simp_all
  with c(2) show ?case by simp
qed simp

lemma compiled_new: "compiled fa newChecker []"
  by (simp add: compiled_def newChecker_def fo_map_def fn_entry_def)

subsection \<open>Inference of every function\<close>

lemma inferReturn_arity:
  assumes "inferReturn C n st nm = Inr (t, st')" "tables_ok C F" "fo_map (mm_result st)"
  shows "fo t \<and> fo_map (mm_result st') \<and> newly_ok F st st' \<and> memo_le st st'"
  using run_arity(5) [OF typeOf_derivation(5) [OF assms(1)] assms(2,3)]
    run_memo_le(5) [OF typeOf_derivation(5) [OF assms(1)]] by simp

lemma inferReturn_visited:
  assumes "inferReturn C n st nm = Inr (t, st')" "mm_inProgress st = []"
  shows "nm \<in> dom (map_of (mm_result st'))"
  using assms(1)
proof (cases rule: inferReturn_cases)
  case memo
  then show ?thesis by auto
next
  case (ann body sc bt)
  from run_memo_le(1) [OF typeOf_derivation(1) [OF ann(6)]] show ?thesis by (auto simp: memo_le_def)
next
  case progress
  with assms(2) show ?thesis by simp
next
  case (body bdy sc st1)
  then show ?thesis by simp
qed

lemma inferFns:
  assumes "foldR (inferFn C) st fds = (Inr st' :: 'p buildErr + memo)" "tables_ok C F" "fo_map (mm_result st)"
    and "mm_inProgress st = []"
  shows "fo_map (mm_result st') \<and> newly_ok F st st' \<and> mm_inProgress st' = [] \<and>
    dom (map_of (mm_result st)) \<union> set (map fd_Name fds) \<subseteq> dom (map_of (mm_result st'))"
  using assms
proof (induction fds arbitrary: st)
  case (Cons fd fds)
  then obtain st1 where "inferFn C st fd = (Inr st1 :: 'p buildErr + memo)"
    and s2: "foldR (inferFn C) st1 fds = (Inr st' :: 'p buildErr + memo)" by auto
  then obtain t where s: "inferReturn C (chkFuel C) st (fd_Name fd) = Inr (t, st1)" by (auto simp: inferFn_def)
  from inferReturn_arity [OF s Cons.prems(2,3)] have a: "fo_map (mm_result st1)" "newly_ok F st st1" "memo_le st st1"
    by simp_all
  from a(3) Cons.prems(4) have p: "mm_inProgress st1 = []" by (simp add: memo_le_def)
  from Cons.IH [OF s2 Cons.prems(2) a(1) p] have I: "fo_map (mm_result st')" "newly_ok F st1 st'" "mm_inProgress st' = []"
    "dom (map_of (mm_result st1)) \<union> set (map fd_Name fds) \<subseteq> dom (map_of (mm_result st'))" by blast+
  have "dom (map_of (mm_result st)) \<subseteq> dom (map_of (mm_result st1))" using a(3) by (simp add: memo_le_def)
  with I(4) inferReturn_visited [OF s Cons.prems(4)]
  have "dom (map_of (mm_result st)) \<union> set (map fd_Name (fd # fds)) \<subseteq> dom (map_of (mm_result st'))"
    unfolding list.map list.set by blast
  with I newly_ok_trans [OF a(2) I(2)] show ?case by blast
qed simp

lemma inferred_arity_ok:
  assumes "newly_ok F newMemo st" "wfm F" "dom (map_of F) \<subseteq> dom (map_of (mm_result st))"
  shows "arity_ok F"
  unfolding arity_ok_def list_all_iff
proof clarify
  fix nm def assume "(nm, def) \<in> set F"
  with assms(2) have "map_of F nm = Some def" by (simp add: wfm_map_of_iff)
  moreover from this assms(3) have "nm \<in> dom (map_of (mm_result st)) - dom (map_of (mm_result newMemo))"
    by (auto simp: newMemo_def)
  ultimately show "ar F (f_Body def) = Some 0" using assms(1) unfolding newly_ok_def by force
qed

subsection \<open>Arities of resolved terms\<close>

definition arities_of :: "nat gomap \<Rightarrow> func gomap \<Rightarrow> bool" where
  "arities_of fa F \<longleftrightarrow> (\<forall>nm def. map_of F nm = Some def \<longrightarrow> map_of fa nm = Some (length (f_Params def)))"

lemma compiled_arities: "compiled fa C F \<Longrightarrow> arities_of fa F"
  unfolding arities_of_def by (auto simp: compiled_def fn_entry_def split: option.split_asm)

lemma resolve_arityOf:
  "resolve fa sc e = Inr e' \<Longrightarrow> arities_of fa F \<Longrightarrow> ar F e' = Some k \<Longrightarrow> arityOf e' = int k"
proof (induction fa sc e arbitrary: e' k rule: resolve.induct)
  case (3 fa sc nm)
  then show ?case
    by (auto simp: resolveName_def arities_of_def primitiveArity_def split: if_split_asm option.split_asm)
next
  case (4 fa sc h as)
  then obtain h' hd args where h: "h = Some h'" "resolve fa sc h' = Inr hd" "e' = EApp (Some hd) args"
    by (auto split: option.split_asm if_split_asm)
  from "4.prems"(3) h(3) obtain j where "ar F hd = Some j" "length args \<le> j" "k = j - length args"
    by (auto split: option.split_asm if_split_asm)
  with "4.IH"(1) [OF h(1,2) "4.prems"(2)] h(3) show ?case by simp
next
  case (5 fa sc cs)
  from "5.prems"(1) obtain cs' where "e' = EGuards cs'" by (auto split: if_split_asm)
  with "5.prems"(3) show ?case by (simp split: if_split_asm)
next
  case (6 fa sc sfs)
  from "6.prems"(1) obtain cs' where "e' = EStructLit cs'" by auto
  with "6.prems"(3) show ?case by (simp split: if_split_asm)
next
  case (7 fa sc t fld)
  from "7.prems"(1) obtain u where "e' = EField u fld" by (auto split: option.split_asm if_split_asm)
  with "7.prems"(3) show ?case by (simp split: if_split_asm option.split_asm)
next
  case (8 fa sc fn init vec)
  from "8.prems"(1) obtain f i v where "e' = EReduce f i v" by (auto split: option.split_asm if_split_asm)
  with "8.prems"(3) show ?case by (simp split: if_split_asm option.split_asm)
qed auto

definition comb_ok :: "func gomap \<Rightarrow> expr \<Rightarrow> bool" where
  "comb_ok F e =
     (case e of
        EZip (Some f) \<Rightarrow> ar F f = Some 2
      | ELocal (Some f) \<Rightarrow> ar F f = Some 1
      | EWrite (Some f) \<Rightarrow> ar F f = Some 1
      | _ \<Rightarrow> False)"

lemma resolveFn_arity:
  "resolveFn fa sc fn want = Inr e \<Longrightarrow> arities_of fa F \<Longrightarrow> ar F e = Some k \<Longrightarrow> k = want"
  by (auto simp: resolveFn_def split: option.split_asm dest: resolve_arityOf)

lemma resolveCombinator_cases:
  assumes "resolveCombinator fa sc e = Inr e'"
  obtains f where "e' = EZip (Some f)" "\<exists>fn. resolveFn fa sc fn 2 = Inr f"
  | f where "e' = ELocal (Some f)" "\<exists>fn. resolveFn fa sc fn (Suc 0) = Inr f"
  | f where "e' = EWrite (Some f)" "\<exists>fn. resolveFn fa sc fn (Suc 0) = Inr f"
proof (cases e)
  case (EZip fn)
  with assms obtain f where "e' = EZip (Some f)" "resolveFn fa sc fn 2 = Inr f" by (auto simp: resolveCombinator_def)
  then show ?thesis using that(1) by blast
next
  case (ELocal fn)
  with assms obtain f where "e' = ELocal (Some f)" "resolveFn fa sc fn (Suc 0) = Inr f" by (auto simp: resolveCombinator_def)
  then show ?thesis using that(2) by blast
next
  case (EWrite fn)
  with assms obtain f where "e' = EWrite (Some f)" "resolveFn fa sc fn (Suc 0) = Inr f" by (auto simp: resolveCombinator_def)
  then show ?thesis using that(3) by blast
qed (use assms in \<open>simp_all add: resolveCombinator_def\<close>)

lemma typeOf_arity:
  assumes "typeOf C n st sc e = Inr (t, st')" "tables_ok C F" "fo_map sc" "fo_map (mm_result st)"
  shows "ar F e = Some (vt_ar t) \<and> ok_ty t \<and> fo_map (mm_result st')"
  using run_arity(1) [OF typeOf_derivation(1) [OF assms(1)] assms(2-4)] by simp

lemma checkCombinatorFn_ok:
  assumes "checkCombinatorFn C st comb sc elem = Inr st'" "resolveCombinator fa sc' e = Inr comb"
    and "tables_ok C F" "arities_of fa F" "fo_map sc" "fo_map (mm_result st)"
  shows "comb_ok F comb \<and> fo_map (mm_result st')"
proof -
  have run: "\<exists>k. ar F fn = Some k \<and> fo_map (mm_result st')" if "combFn comb = Some (w, fn)" for w fn
  proof -
    from assms(1) that obtain t where "typeOf C (chkFuel C) st sc fn = Inr (t, st')"
      unfolding checkCombinatorFn_def by (auto simp: case_func_eq split: if_split_asm)
    from typeOf_arity [OF this assms(3,5,6)] show ?thesis by blast
  qed
  from assms(2) show ?thesis
  proof (cases rule: resolveCombinator_cases)
    case (1 f)
    with run [of False f] resolveFn_arity [OF _ assms(4)] show ?thesis by (fastforce simp: combFn_def comb_ok_def)
  next
    case (2 f)
    with run [of False f] resolveFn_arity [OF _ assms(4)] show ?thesis by (fastforce simp: combFn_def comb_ok_def)
  next
    case (3 f)
    with run [of True f] resolveFn_arity [OF _ assms(4)] show ?thesis by (fastforce simp: combFn_def comb_ok_def)
  qed
qed

lemma checkQueryFn_ok:
  assumes "checkQueryFn C st e sc elem = Inr (t, st')" "tables_ok C F" "fo_map sc" "fo_map (mm_result st)"
  shows "ar F e = Some 1 \<and> fo_map (mm_result st')"
proof -
  from assms(1) obtain f where f: "typeOf C (chkFuel C) st sc e = Inr (VtFunc f, st')" "length (ft_params f) = 1"
    by (auto simp: checkQueryFn_def Let_def case_func_eq case_vector_eq split: if_split_asm)
  from typeOf_arity [OF f(1) assms(2-4)] f(2) show ?thesis by simp
qed

subsection \<open>The models\<close>

text \<open>The declared types of method parameters, after normalisation.\<close>

definition canonical :: "bool \<Rightarrow> paramSpec list \<Rightarrow> bool" where
  "canonical allowString ps \<longleftrightarrow> distinct (map p_Name ps) \<and>
     list_all (\<lambda>p. nt_Parse (p_Type p) \<noteq> None \<or> (allowString \<and> p_Type p = ''string'')) ps"

definition methods_ok :: "func gomap \<Rightarrow> model \<Rightarrow> bool" where
  "methods_ok F m \<longleftrightarrow>
     list_all (\<lambda>(nm, q). ar F (mt_Body q) = Some 1 \<and> canonical False (mt_Params q)) (mo_Queries m) \<and>
     list_all (\<lambda>(nm, u). comb_ok F (mt_Body u) \<and> canonical True (mt_Params u)) (mo_Updates m)"

definition models_ok :: "func gomap \<Rightarrow> typeReg \<Rightarrow> string list \<Rightarrow> model gomap \<Rightarrow> bool" where
  "models_ok F r merged ms \<longleftrightarrow>
     dom (map_of ms) = dom (map_of (tr_models r)) \<and>
     (\<forall>nm m. map_of ms nm = Some m \<longrightarrow>
        map_option mo_Elem (map_of (tr_models r) nm) = Some (mo_Elem m) \<and> mo_Name m = nm \<and>
        (nm \<in> set merged \<longrightarrow> comb_ok F (mo_Merge m)) \<and> methods_ok F m)"

lemma list_all_mput: "list_all P m \<Longrightarrow> P (k, v) \<Longrightarrow> list_all P (mput k v m)"
  by (induction k v m rule: mput.induct) auto

lemma list_all_lookup: "list_all P m \<Longrightarrow> map_of m k = Some v \<Longrightarrow> P (k, v)"
  by (auto simp: list_all_iff dest: map_of_SomeD)

lemma list_all_mono: "list_all P xs \<Longrightarrow> (\<And>x. P x \<Longrightarrow> Q x) \<Longrightarrow> list_all Q xs"
  by (auto simp: list_all_iff)

definition nz_reg :: "typeReg \<Rightarrow> bool" where
  "nz_reg r \<longleftrightarrow> (\<forall>tok nt. resolveToken r tok = Inr (TNum nt) \<longrightarrow> nt_sign nt \<noteq> SZero)"

lemma wf_reg_nz: "wf_reg r \<Longrightarrow> nz_reg r"
  unfolding nz_reg_def
proof (intro allI impI)
  fix tok nt assume w: "wf_reg r" and t: "resolveToken r tok = Inr (TNum nt)"
  have m: "wf_elem (mo_Elem m)" if "map_of (tr_models r) nm = Some m" for nm m
    using w that unfolding wf_reg_def by blast
  have s: "wf_elem e" if "map_of (tr_structs r) nm = Some e \<or> map_of (tr_aliases r) nm = Some e" for nm e
    using w that unfolding wf_reg_def by blast
  have "wf_elem (TNum nt)"
    using t unfolding resolveToken_def
    by (auto split: option.split_asm prod.split_asm if_split_asm dest: nt_Parse_nz)
      (metis m s wf_elem.simps(3))+
  then show "nt_sign nt \<noteq> SZero" by simp
qed

lemma scalarParam_ok:
  assumes "scalarParam r b seen p = Inr q" "nz_reg r"
  shows "p_Name q = p_Name p \<and> p_Name p \<notin> set seen \<and> (nt_Parse (p_Type q) \<noteq> None \<or> b \<and> p_Type q = ''string'')"
proof -
  from assms(1) obtain et where et: "resolveToken r (p_Type p) = Inr et" by (auto simp: scalarParam_def)
  with assms show ?thesis
    by (cases et) (auto simp: scalarParam_def nz_reg_def nt_Parse_String split: if_split_asm)
qed

lemma resolveScalarParams_from_ok:
  "resolveScalarParams_from r b seen ps = Inr qs \<Longrightarrow> nz_reg r \<Longrightarrow>
   canonical b qs \<and> map p_Name qs = map p_Name ps \<and> set (map p_Name qs) \<inter> set seen = {}"
proof (induction ps arbitrary: seen qs)
  case (Cons p ps)
  then obtain q qs' where q: "scalarParam r b seen p = Inr q"
    and qs: "resolveScalarParams_from r b (p_Name p # seen) ps = Inr qs'" "qs = q # qs'" by auto
  from Cons.IH [OF qs(1) Cons.prems(2)] have I: "canonical b qs'" "map p_Name qs' = map p_Name ps"
    "set (map p_Name qs') \<inter> set (p_Name p # seen) = {}" by blast+
  from scalarParam_ok [OF q Cons.prems(2)] have Q: "p_Name q = p_Name p" "p_Name p \<notin> set seen"
    "nt_Parse (p_Type q) \<noteq> None \<or> b \<and> p_Type q = ''string''" by blast+
  have "canonical b qs" using I(1,3) Q(1,3) by (simp add: canonical_def qs(2))
  moreover have "set (map p_Name qs) \<inter> set seen = {}" using I(3) Q(1,2) by (auto simp: qs(2))
  ultimately show ?case using I(2) Q(1) by (simp add: qs(2))
qed (simp add: canonical_def)

lemma resolveScalarParams_ok: "resolveScalarParams r b ps = Inr qs \<Longrightarrow> nz_reg r \<Longrightarrow> canonical b qs"
  unfolding resolveScalarParams_def using resolveScalarParams_from_ok by blast

text \<open>One entry replaced.\<close>

lemma models_ok_put:
  assumes "models_ok F r merged ms" "map_of ms tn = Some m"
    and "mo_Elem m' = mo_Elem m" "mo_Name m' = mo_Name m" "tn \<in> set merged' \<Longrightarrow> comb_ok F (mo_Merge m')" "methods_ok F m'"
    and "set merged' \<subseteq> insert tn (set merged)"
  shows "models_ok F r merged' (mput tn m' ms)"
proof -
  from assms(1,2) have "dom (map_of (mput tn m' ms)) = dom (map_of (tr_models r))"
    by (auto simp: models_ok_def insert_absorb)
  moreover from assms(1,2) have e: "map_option mo_Elem (map_of (tr_models r) tn) = Some (mo_Elem m)" "mo_Name m = tn"
    by (simp_all add: models_ok_def)
  ultimately show ?thesis using assms unfolding models_ok_def by auto
qed

lemma models_okD:
  assumes "models_ok F r merged ms" "map_of ms nm = Some m"
  shows "methods_ok F m" "nm \<in> set merged \<Longrightarrow> comb_ok F (mo_Merge m)" "mo_Name m = nm"
    "map_option mo_Elem (map_of (tr_models r) nm) = Some (mo_Elem m)"
  using assms by (simp_all add: models_ok_def)

lemma buildMerge_ok:
  assumes "buildMerge fa C ((ms, st), seen) md = Inr ((ms', st'), seen')"
    and "tables_ok C F" "arities_of fa F" "models_ok F r seen ms" "fo_map (mm_result st)"
  shows "models_ok F r seen' ms' \<and> fo_map (mm_result st') \<and> seen' = md_TypeName md # seen"
proof -
  from assms(1) obtain m merge where m: "map_of ms (md_TypeName md) = Some m"
    and res: "resolveCombinator fa [] (md_Body md) = Inr merge"
    and chk: "checkCombinatorFn C st merge [] (mo_Elem m) = Inr st'"
    and s: "ms' = mput (md_TypeName md) (m\<lparr>mo_Merge := merge\<rparr>) ms" "seen' = md_TypeName md # seen"
    by (auto simp: buildMerge_def Let_def split: option.split_asm if_split_asm)
  have "comb_ok F merge \<and> fo_map (mm_result st')"
    by (rule checkCombinatorFn_ok [OF chk res assms(2,3) _ assms(5)]) (simp add: fo_map_def)
  moreover have "models_ok F r seen' ms'" unfolding s(1)
    by (rule models_ok_put [OF assms(4) m])
      (use calculation models_okD(1) [OF assms(4) m] in \<open>auto simp: s(2) methods_ok_def\<close>)
  ultimately show ?thesis by (simp add: s(2))
qed

lemma queryMethod_fields: "queryMethod ps body res = Inr q \<Longrightarrow> mt_Body q = body \<and> mt_Params q = ps"
  by (cases res) (auto simp: queryMethod_def Let_def)

lemma buildQuery_ok:
  assumes "buildQuery r fa C (ms, st) qd = Inr (ms', st')"
    and "tables_ok C F" "nz_reg r" "models_ok F r merged ms" "fo_map (mm_result st)"
  shows "models_ok F r merged ms' \<and> fo_map (mm_result st')"
proof -
  from assms(1) obtain m ps body sc res q where m: "map_of ms (qd_TypeName qd) = Some m"
    and ps: "resolveScalarParams r False (qd_Params qd) = Inr ps" and sc: "paramScope r ps = Inr sc"
    and chk: "checkQueryFn C st body sc (mo_Elem m) = Inr (res, st')"
    and q: "queryMethod ps body res = Inr q"
    and ms': "ms' = mput (qd_TypeName qd) (m\<lparr>mo_Queries := mput (qd_MethodName qd) q (mo_Queries m)\<rparr>) ms"
    by (auto simp: buildQuery_def Let_def split: option.split_asm if_split_asm)
  from checkQueryFn_ok [OF chk assms(2) paramScope_fo [OF sc] assms(5)] have c: "ar F body = Some 1" "fo_map (mm_result st')"
    by simp_all
  have "models_ok F r merged ms'" unfolding ms'
  proof (rule models_ok_put [OF assms(4) m])
    show "methods_ok F (m\<lparr>mo_Queries := mput (qd_MethodName qd) q (mo_Queries m)\<rparr>)"
      using models_okD(1) [OF assms(4) m] c(1) queryMethod_fields [OF q] resolveScalarParams_ok [OF ps assms(3)]
      by (simp add: methods_ok_def list_all_mput)
  qed (use models_okD(2) [OF assms(4) m] in auto)
  with c(2) show ?thesis by simp
qed

lemma buildUpdate_ok:
  assumes "buildUpdate r fa C (ms, st) ud = Inr (ms', st')"
    and "tables_ok C F" "arities_of fa F" "nz_reg r" "models_ok F r merged ms" "fo_map (mm_result st)"
  shows "models_ok F r merged ms' \<and> fo_map (mm_result st')"
proof -
  from assms(1) obtain m ps body sc where m: "map_of ms (ud_TypeName ud) = Some m"
    and ps: "resolveScalarParams r True (ud_Params ud) = Inr ps" and sc: "paramScope r ps = Inr sc"
    and res: "resolveCombinator fa (paramSet ps) (ud_Body ud) = Inr body"
    and chk: "checkCombinatorFn C st body sc (mo_Elem m) = Inr st'"
    and ms': "ms' = mput (ud_TypeName ud) (m\<lparr>mo_Updates := mput (ud_MethodName ud)
                  \<lparr> mt_Params = ps, mt_Body = body, mt_Result = TypeReal,
                    mt_ResultNum = NumType DRat SAny, mt_ResultStruct = None \<rparr> (mo_Updates m)\<rparr>) ms"
    by (auto simp: buildUpdate_def Let_def split: option.split_asm if_split_asm)
  from checkCombinatorFn_ok [OF chk res assms(2,3) paramScope_fo [OF sc] assms(6)]
  have c: "comb_ok F body" "fo_map (mm_result st')" by simp_all
  have "models_ok F r merged ms'" unfolding ms'
    by (rule models_ok_put [OF assms(5) m])
      (use models_okD(1,2) [OF assms(5) m] c(1) resolveScalarParams_ok [OF ps assms(4)] in
        \<open>auto simp: methods_ok_def list_all_mput\<close>)
  with c(2) show ?thesis by simp
qed

lemma foldR_invariant2:
  assumes "foldR f s xs = Inr s'" and "I s" and "\<And>s x t. I s \<Longrightarrow> f s x = Inr t \<Longrightarrow> I t"
  shows "I s'"
  using foldR_invariant [OF assms(1), of I] assms(2,3) by blast

text \<open>All stages together.\<close>

lemma buildChecked_ok:
  assumes "buildChecked pl = (Inr (r, ms, F) :: 'p buildErr + _)"
  shows "resolveTypes (pl_Types pl) = Inr r \<and> arity_ok F \<and> models_ok F r (tr_vectorOrder r) ms \<and>
    set (mkeys F) = set (map fd_Name (pl_Functions pl)) \<and> distinct (map fd_Name (pl_Functions pl))"
proof -
  from assms obtain fa C st s merged s1 st2 where
    r: "resolveTypes (pl_Types pl) = Inr r" and
    fa: "foldR (fnArity r) [] (pl_Functions pl) = (Inr fa :: 'p buildErr + _)" and
    cf: "foldR (compileFn r fa) (newChecker, []) (pl_Functions pl) = (Inr (C, F) :: 'p buildErr + _)" and
    st: "foldR (inferFn C) newMemo (pl_Functions pl) = (Inr st :: 'p buildErr + _)" and
    mg: "foldR (buildMerge fa C) ((tr_models r, st), []) (pl_Merges pl) = (Inr (s, merged) :: 'p buildErr + _)" and
    qs: "foldR (buildQuery r fa C) s (pl_Queries pl) = (Inr s1 :: 'p buildErr + _)" and
    us: "foldR (buildUpdate r fa C) s1 (pl_Updates pl) = (Inr (ms, st2) :: 'p buildErr + _)" and
    all: "allR (\<lambda>nm. if nm \<in> set merged then Inr () else Inl (BNoMerge nm)) (tr_vectorOrder r) = (Inr () :: 'p buildErr + unit)"
    unfolding buildChecked_def by auto
  from fnArities [OF fa] have A: "\<And>fd. fd \<in> set (pl_Functions pl) \<Longrightarrow>
      map_of fa (fd_Name fd) = Some (length (fd_Params fd)) \<and> fd_Params fd \<noteq> []"
    "distinct (map fd_Name (pl_Functions pl))" by blast+
  from compileFns [OF cf compiled_new A(1)] have comp: "compiled fa C F"
    "dom (map_of F) = set (map fd_Name (pl_Functions pl))" by auto
  note T = compiled_tables [OF comp(1)] and AR = compiled_arities [OF comp(1)]
  have "fo_map (mm_result newMemo)" "mm_inProgress newMemo = []" by (simp_all add: newMemo_def fo_map_def)
  from inferFns [OF st T this] have I: "fo_map (mm_result st)" "newly_ok F newMemo st"
    "set (map fd_Name (pl_Functions pl)) \<subseteq> dom (map_of (mm_result st))" by blast+
  have ok: "arity_ok F"
    by (rule inferred_arity_ok [OF I(2)]) (use comp I(3) in \<open>auto simp: compiled_def\<close>)
  have R: "wf_reg r" "set (mkeys (tr_models r)) = set (tr_vectorOrder r)"
    using resolved_registry [OF r] by blast+
  note NZ = wf_reg_nz [OF R(1)]
  have M0: "models_ok F r [] (tr_models r)"
    unfolding models_ok_def
  proof (intro conjI allI impI)
    fix nm m assume m: "map_of (tr_models r) nm = Some m"
    with R(1) have "m = newModel nm (mo_Elem m)" unfolding wf_reg_def by blast
    then obtain e where "m = newModel nm e" by blast
    with m show "map_option mo_Elem (map_of (tr_models r) nm) = Some (mo_Elem m)" "mo_Name m = nm" "methods_ok F m"
      by (simp_all add: newModel_def methods_ok_def)
  qed simp_all
  obtain ms0 st0 where s: "s = (ms0, st0)" by (cases s)
  have M1: "models_ok F r merged ms0 \<and> fo_map (mm_result st0)"
  proof -
    have "(\<lambda>((ms, st), seen). models_ok F r seen ms \<and> fo_map (mm_result st)) (s, merged)"
    proof (rule foldR_invariant2 [OF mg])
      fix x md t
      assume "(\<lambda>((ms, st), seen). models_ok F r seen ms \<and> fo_map (mm_result st)) x" "buildMerge fa C x md = (Inr t :: 'p buildErr + _)"
      then show "(\<lambda>((ms, st), seen). models_ok F r seen ms \<and> fo_map (mm_result st)) t"
        by (cases x; cases t) (auto dest: buildMerge_ok [OF _ T AR])
    qed (use M0 I(1) in simp)
    then show ?thesis by (simp add: s)
  qed
  obtain ms1 st1 where s1: "s1 = (ms1, st1)" by (cases s1)
  have M2: "models_ok F r merged ms1 \<and> fo_map (mm_result st1)"
  proof -
    have "(\<lambda>(ms, st). models_ok F r merged ms \<and> fo_map (mm_result st)) s1"
    proof (rule foldR_invariant2 [OF qs])
      fix x qd t
      assume "(\<lambda>(ms, st). models_ok F r merged ms \<and> fo_map (mm_result st)) x" "buildQuery r fa C x qd = (Inr t :: 'p buildErr + _)"
      then show "(\<lambda>(ms, st). models_ok F r merged ms \<and> fo_map (mm_result st)) t"
        by (cases x; cases t) (auto dest: buildQuery_ok [OF _ T NZ])
    qed (use M1 in \<open>simp add: s\<close>)
    then show ?thesis by (simp add: s1)
  qed
  have M3: "models_ok F r merged ms"
  proof -
    have "(\<lambda>(ms, st). models_ok F r merged ms \<and> fo_map (mm_result st)) (ms, st2)"
    proof (rule foldR_invariant2 [OF us])
      fix x ud t
      assume "(\<lambda>(ms, st). models_ok F r merged ms \<and> fo_map (mm_result st)) x" "buildUpdate r fa C x ud = (Inr t :: 'p buildErr + _)"
      then show "(\<lambda>(ms, st). models_ok F r merged ms \<and> fo_map (mm_result st)) t"
        by (cases x; cases t) (auto dest: buildUpdate_ok [OF _ T AR NZ])
    qed (use M2 in \<open>simp add: s1\<close>)
    then show ?thesis by simp
  qed
  have "set (tr_vectorOrder r) \<subseteq> set merged" using all by (auto simp: allR_iff split: if_split_asm)
  with M3 have "models_ok F r (tr_vectorOrder r) ms" by (auto simp: models_ok_def)
  with r ok A(2) comp(2) show ?thesis by (simp add: set_mkeys)
qed

subsection \<open>Accepted plans\<close>

text \<open>What a replica of a model relies on.\<close>

definition runtime_ok :: "model \<Rightarrow> bool" where
  "runtime_ok m \<longleftrightarrow> arity_ok (mo_Funcs m) \<and> comb_ok (mo_Funcs m) (mo_Merge m) \<and>
     methods_ok (mo_Funcs m) m \<and> wf_elem (mo_Elem m)"

lemma map_of_attachFuncs:
  "map_of (attachFuncs F nms ms) nm =
     (if nm \<in> set nms then map_option (\<lambda>m. m\<lparr>mo_Funcs := F\<rparr>) (map_of ms nm) else map_of ms nm)"
proof -
  have "map_of (fold (\<lambda>nm ms. case map_of ms nm of None \<Rightarrow> ms | Some m \<Rightarrow> mput nm (m\<lparr>mo_Funcs := F\<rparr>) ms) nms ms) nm =
     (if nm \<in> set nms then map_option (\<lambda>m. m\<lparr>mo_Funcs := F\<rparr>) (map_of ms nm) else map_of ms nm)"
    by (induction nms arbitrary: ms) (auto split: option.split simp: option.map_comp comp_def)
  then show ?thesis by (simp add: attachFuncs_def)
qed

lemma Build_stages:
  assumes "Build prove fp pl = (Inr bp :: 'p buildErr + builtPlan)"
  shows "\<exists>r ms F. buildChecked pl = (Inr (r, ms, F) :: 'p buildErr + _) \<and>
    (\<forall>nm \<in> set (tr_vectorOrder r). proveType prove ms F nm = (Inr () :: 'p buildErr + unit)) \<and>
    bp_Models bp = attachFuncs F (tr_vectorOrder r) ms \<and> bp_Functions bp = F \<and>
    foldR (buildCollection r (bp_Models bp)) [] (pl_Collections pl) = (Inr (bp_Collections bp) :: 'p buildErr + _)"
  using assms unfolding Build_def by (auto simp: Let_def allR_iff)

lemma Build_model:
  assumes "Build prove fp pl = (Inr bp :: 'p buildErr + builtPlan)" "map_of (bp_Models bp) nm = Some m"
  shows "runtime_ok m \<and> mo_Name m = nm \<and> mo_Funcs m = bp_Functions bp \<and>
    prove (mo_Elem m) (mo_Merge m) (mo_Updates m) (mo_Funcs m) = Inr ()"
proof -
  from Build_stages [OF assms(1)] obtain r ms F where c: "buildChecked pl = (Inr (r, ms, F) :: 'p buildErr + _)"
    and p: "\<And>nm. nm \<in> set (tr_vectorOrder r) \<Longrightarrow> proveType prove ms F nm = (Inr () :: 'p buildErr + unit)"
    and b: "bp_Models bp = attachFuncs F (tr_vectorOrder r) ms" "bp_Functions bp = F"
    by blast
  from buildChecked_ok [OF c] have k: "resolveTypes (pl_Types pl) = Inr r" "arity_ok F"
    "models_ok F r (tr_vectorOrder r) ms" by simp_all
  from resolved_registry [OF k(1)] have reg: "wf_reg r" "set (mkeys (tr_models r)) = set (tr_vectorOrder r)" by blast+
  have "map_of ms nm \<noteq> None"
    using assms(2) unfolding b map_of_attachFuncs by (auto split: if_split_asm)
  with k(3) have v: "nm \<in> set (tr_vectorOrder r)" unfolding reg(2) [symmetric] set_mkeys by (auto simp: models_ok_def)
  with assms(2) obtain m0 where m0: "map_of ms nm = Some m0" "m = m0\<lparr>mo_Funcs := F\<rparr>"
    unfolding b map_of_attachFuncs by auto
  note M = models_okD [OF k(3) m0(1)]
  from M(4) obtain z where z: "map_of (tr_models r) nm = Some z" "mo_Elem z = mo_Elem m0" by auto
  with reg(1) have "wf_elem (mo_Elem z)" unfolding wf_reg_def by blast
  then have "wf_elem (mo_Elem m0)" by (simp add: z(2))
  with M(1) M(2) [OF v] k(2) have "runtime_ok m" by (simp add: runtime_ok_def m0(2) methods_ok_def)
  with M(3) p [OF v] m0 b(2) show ?thesis by (auto simp: proveType_def)
qed

lemma snapshot_vok:
  assumes "wf_snapshot st"
  shows "cloneState st = Inr st \<and> vok (VVec st)"
  using assms clonable_id [OF storable_clonable, of st] by (auto simp: cloneState_def wf_snapshot_def)

text \<open>The errors of an operation that depend on the values it meets.\<close>

definition value_err :: "vecErr \<Rightarrow> bool" where
  "value_err e \<longleftrightarrow> (case e of EvalErr r \<Rightarrow> \<not> static_err r | NoValue \<Rightarrow> True | _ \<Rightarrow> False)"

lemma res_ok_EvalErr: "res_ok P r \<Longrightarrow> rwrap EvalErr r = Inl e \<Longrightarrow> value_err e"
  by (auto simp: rwrap_eq_Inl value_err_def)

lemma Query_value_err:
  assumes m: "map_of (v_queries v) name = Some m" and ar: "ar (v_funcs v) (mt_Body m) = Some 1"
    and ok: "arity_ok (v_funcs v)" "range_order ord" "wf_snapshot (v_state v)"
    and q: "Query ord v name ps = Inl e" "ValidateQuery v name ps = None"
  shows "value_err e"
proof -
  from q(2) m obtain env where env: "bindParams (mt_Params m) ps = Inr env"
    by (auto simp: ValidateQuery_def split: if_split_asm sum.split_asm)
  have r: "res_ok (sorted_val (v_funcs v) 0 1) (evalTop (v_funcs v) ord env (mt_Body m))"
    unfolding evalTop_def using eval_sorted_all(1) [OF ar ok(1,2) bindParams_env_ok [OF env] fits_evalFuel] by simp
  show ?thesis
  proof (cases "evalTop (v_funcs v) ord env (mt_Body m)")
    case (Inl e')
    with q m env res_ok_EvalErr [OF r] show ?thesis by (simp add: Query_def)
  next
    case (Inr f)
    with r obtain c where f: "f = VFunc 1 c" "sorted_val (v_funcs v) 0 1 f" by (auto simp: sorted_val_pos)
    note snap = snapshot_vok [OF ok(3)]
    have a: "res_ok vok (applyTop (v_funcs v) ord f [VVec (v_state v)])"
      by (rule applyTop_sorted [OF ok(1,2) f(2)]) (use snap in simp_all)
    from q(1) q(2) m env Inr f(1) snap
    have "rbind (rwrap EvalErr (applyTop (v_funcs v) ord f [VVec (v_state v)])) rtToAny = Inl e"
      by (simp add: Query_def)
    then consider "rwrap EvalErr (applyTop (v_funcs v) ord f [VVec (v_state v)]) = Inl e" | x where "rtToAny x = Inl e"
      by (auto simp: rbind_eq_Inl)
    then show ?thesis
    proof cases
      case 1
      then show ?thesis by (rule res_ok_EvalErr [OF a])
    next
      case 2
      then have "e = NoValue" by (rule rtToAny_err(1))
      then show ?thesis by (simp add: value_err_def)
    qed
  qed
qed

text \<open>
  C20: What an accepted plan promises its replicas. Every model of a built plan has the plan's
  functions, all of whose bodies are values; a combinator for its merge whose function has the arity
  the merge loop applies it with; queries that are functions of the vector alone and updates whose
  functions have the combinator's arity, with distinct parameters of canonical types that the
  argument decoder understands; and its convergence proof succeeded on exactly these definitions.
\<close>

theorem Build_runtime_ok:
  assumes "Build prove fp pl = Inr bp" and "map_of (bp_Models bp) nm = Some m"
  shows "runtime_ok m \<and> mo_Name m = nm \<and> mo_Funcs m = bp_Functions bp \<and>
    prove (mo_Elem m) (mo_Merge m) (mo_Updates m) (mo_Funcs m) = Inr ()"
  using assms by (rule Build_model)

text \<open>
  C21: Build and runtime fit together. A query on a replica of a built model either is refused by the
  preflight, or fails for a reason that depends on the values it meets, or answers: it never runs
  into a missing function, a wrong arity, a function in value position, a Go panic, or the end of
  the evaluation fuel.
\<close>

theorem built_query_safe:
  assumes "Build prove fp pl = Inr bp" and "map_of (bp_Models bp) nm = Some m"
    and "range_order ord" and "conforming (mo_Elem m) st"
  shows "case Query ord ((New m nid)\<lparr>v_state := st\<rparr>) name ps of
      Inl e \<Rightarrow> ValidateQuery ((New m nid)\<lparr>v_state := st\<rparr>) name ps = Some e \<or> value_err e
    | Inr x \<Rightarrow> True"
proof (cases "Query ord ((New m nid)\<lparr>v_state := st\<rparr>) name ps")
  case (Inl e)
  let ?v = "(New m nid)\<lparr>v_state := st\<rparr>"
  have R: "runtime_ok m" using Build_model [OF assms(1,2)] by simp
  have "value_err e" if "ValidateQuery ?v name ps = None"
  proof -
    from that obtain q where q: "map_of (mo_Queries m) name = Some q"
      by (auto simp: ValidateQuery_def New_def NewVector_def split: option.split_asm)
    have "list_all (\<lambda>(nm, q). ar (mo_Funcs m) (mt_Body q) = Some 1 \<and> canonical False (mt_Params q)) (mo_Queries m)"
      using R by (simp add: runtime_ok_def methods_ok_def)
    from list_all_lookup [OF this q] have "ar (mo_Funcs m) (mt_Body q) = Some 1" by simp
    with Query_value_err [of ?v name q ord ps e] q R Inl that assms(3) conforming_storable [OF assms(4)]
    show ?thesis by (simp add: New_def NewVector_def runtime_ok_def)
  qed
  moreover have "ValidateQuery ?v name ps = Some e" if "ValidateQuery ?v name ps = Some e'" for e'
    using that Inl by (simp add: Query_def)
  ultimately show ?thesis using Inl by (cases "ValidateQuery ?v name ps") auto
qed simp

text \<open>The counter of the documentation.\<close>

definition counterPlan :: plan where
  "counterPlan =
     \<lparr> pl_Types = [\<lparr> td_Name = ''C'', td_Elem = KindVector ''rat0+'' \<rparr>],
       pl_Functions = [\<lparr> fd_Name = ''total'', fd_Params = [\<lparr> p_Name = ''v'', p_Type = ''C'' \<rparr>],
          fd_Body = EReduce (Some (EName ''+'')) (Some (ENumLit 0)) (Some (EName ''v'')), fd_RetType = [] \<rparr>],
       pl_Merges = [\<lparr> md_TypeName = ''C'', md_Body = EZip (Some (EName ''max'')) \<rparr>],
       pl_Queries = [\<lparr> qd_TypeName = ''C'', qd_MethodName = ''value'', qd_Params = [], qd_Body = EName ''total'' \<rparr>],
       pl_Updates = [\<lparr> ud_TypeName = ''C'', ud_MethodName = ''add'',
          ud_Params = [\<lparr> p_Name = ''x'', p_Type = ''C.Elem'' \<rparr>],
          ud_Body = ELocal (Some (EApp (Some (EName ''+'')) [EName ''x''])) \<rparr>],
       pl_Collections = [\<lparr> cs_Name = ''hits'', cs_Key = None, cs_Type = ''C'' \<rparr>] \<rparr>"

definition counterModel :: model where
  "counterModel =
     \<lparr> mo_Name = ''C'', mo_Elem = TNum (NumType DRat SNonNeg),
       mo_Merge = EZip (Some (ERef ''max'' 2 RefPrimitive)),
       mo_Queries = [(''value'', \<lparr> mt_Params = [], mt_Body = ERef ''total'' 1 RefFunction, mt_Result = TypeReal,
          mt_ResultNum = NumType DRat SNonNeg, mt_ResultStruct = None \<rparr>)],
       mo_Updates = [(''add'', \<lparr> mt_Params = [\<lparr> p_Name = ''x'', p_Type = ''rat0+'' \<rparr>],
          mt_Body = ELocal (Some (EApp (Some (ERef ''+'' 2 RefPrimitive)) [EVar ''x''])), mt_Result = TypeReal,
          mt_ResultNum = NumType DRat SAny, mt_ResultStruct = None \<rparr>)],
       mo_Funcs = [(''total'', \<lparr> f_Name = ''total'', f_Params = [\<lparr> p_Name = ''v'', p_Type = ''C'' \<rparr>],
          f_Body = EReduce (Some (ERef ''+'' 2 RefPrimitive)) (Some (ENumLit 0)) (Some (EVar ''v'')) \<rparr>)] \<rparr>"

definition counterBuilt :: builtPlan where
  "counterBuilt =
     \<lparr> bp_Models = [(''C'', counterModel)], bp_Functions = mo_Funcs counterModel,
       bp_Collections = [\<lparr> bc_Name = ''hits'', bc_Key = None, bc_Spec = counterModel \<rparr>],
       bp_Fingerprint = ''fp'' \<rparr>"

lemma counter_builds: "Build (\<lambda>e m u f. Inr () :: string + unit) (\<lambda>pl. ''fp'') counterPlan = Inr counterBuilt"
  by code_simp

lemma Build_runtime_ok_witness:
  "runtime_ok counterModel \<and> mo_Funcs counterModel = bp_Functions counterBuilt"
  using Build_runtime_ok [OF counter_builds, of "''C''" counterModel] by (simp add: counterBuilt_def)

lemma built_query_safe_witness:
  "case Query (\<lambda>m. m) ((New counterModel ''a'')\<lparr>v_state := [(''a'', VNum 2)]\<rparr>) ''value'' [] of
      Inl e \<Rightarrow> ValidateQuery ((New counterModel ''a'')\<lparr>v_state := [(''a'', VNum 2)]\<rparr>) ''value'' [] = Some e \<or> value_err e
    | Inr x \<Rightarrow> True"
  by (rule built_query_safe [OF counter_builds, of "''C''"])
    (simp_all add: counterBuilt_def counterModel_def range_order_id conforming_def wfm_def nt_Allows_iff rat_IsInt_def)

end
