(* ===== verification/Smt.thy ===== *)
theory Smt
  imports GoText Syntax
begin

text \<open>
  prover/smt.go: proof goals, their rendering as SMT-LIB scripts and the call of the solver; and
  the symbolic terms of prover/prover.go they are made of.

  \<open>sym\<close> is Go's \<open>sym\<close>, one constructor per \<open>symKind\<close>; the \<open>sort\<close> field is \<open>sort_of\<close>. A struct's
  field map is a \<open>gomap\<close>, so its entries come in the order of \<open>sortedFields\<close>.

  Rendering is in two steps: \<open>buildScript\<close> makes the list of commands with their terms (\<open>smt\<close>) and
  \<open>scriptText\<close> writes the text. The solver is an argument, \<open>solver\<close>: whether z3 is on the path and
  the standard output of running it on the text of a list of commands. What the code relies on is
  \<open>solver_sound\<close>: the answer \<open>unsat\<close> is only given to a script no interpretation satisfies, in
  the SMT-LIB meaning of the terms (\<open>seval\<close>). A script with an ill-sorted term or an undeclared
  symbol makes z3 print an error first, so it is not answered \<open>unsat\<close> either.
\<close>

subsection \<open>Symbolic terms\<close>

datatype symSort = SortNum | SortStr | SortBool

datatype sym =
    SymConst rat
  | SymStr string
  | SymVar symSort string
  | SymBin string sym sym
  | SymCmp string sym sym
  | SymIte sym sym sym
  | SymStruct "(string \<times> sym) list"
  | SymVector sym elemT

fun sort_of :: "sym \<Rightarrow> symSort" where
  "sort_of (SymConst q) = SortNum"
| "sort_of (SymStr s) = SortStr"
| "sort_of (SymVar k nm) = k"
| "sort_of (SymBin op a b) = SortNum"
| "sort_of (SymCmp op a b) = SortBool"
| "sort_of (SymIte c a b) = sort_of a"
| "sort_of (SymStruct fs) = SortNum"
| "sort_of (SymVector x t) = SortNum"

text \<open>A declared variable: a string, or a number of a numeric type.\<close>

datatype varDecl = DeclNum string numType | DeclStr string

record goal =
  g_name :: string
  g_vars :: "varDecl list"
  g_lhs :: sym
  g_rhs :: sym
  g_claim :: "sym option"
  g_assume :: "sym list"

subsection \<open>SMT-LIB terms and commands\<close>

datatype smt =
    SmtNum rat
  | SmtStr string
  | SmtId string
  | SmtApp string "smt list"

datatype smtCmd = CmdDeclare string string | CmdAssert smt

text \<open>\<open>fmtRat\<close>, \<open>smtStrLit\<close> and the text of a term.\<close>

definition fmtRat :: "rat \<Rightarrow> string" where
  "fmtRat q =
     (let pos = (\<lambda>r. case quotient_of r of (a, b) \<Rightarrow>
          if b = 1 then int_String a @ ''.0''
          else ''(/ '' @ int_String a @ ''.0 '' @ int_String b @ ''.0)'') in
      if q < 0 then ''(- '' @ pos (- q) @ '')'' else pos q)"

fun hex_String :: "nat \<Rightarrow> string" where
  "hex_String n =
     (let d = (\<lambda>k. if k < 10 then digit_char k else chr (87 + k)) in
      if n < 16 then [d n] else hex_String (n div 16) @ [d (n mod 16)])"

declare hex_String.simps [simp del]

definition smtRune :: "nat \<Rightarrow> string" where
  "smtRune r =
     (if r = 0x22 then [chr 0x22, chr 0x22]
      else if 0x20 \<le> r \<and> r \<le> 0x7E \<and> r \<noteq> 0x5C then [chr r]
      else [chr 0x5C] @ ''u{'' @ hex_String r @ ''}'')"

definition smtStrLit :: "string \<Rightarrow> string" where
  "smtStrLit s = [chr 0x22] @ concat (map smtRune (go_runes s)) @ [chr 0x22]"

fun smtText :: "smt \<Rightarrow> string" where
  "smtText (SmtNum q) = fmtRat q"
| "smtText (SmtStr s) = smtStrLit s"
| "smtText (SmtId nm) = nm"
| "smtText (SmtApp f ts) = ''('' @ f @ (if ts = [] then '' '' else concat (map (\<lambda>t. '' '' @ smtText t) ts)) @ '')''"

fun cmdText :: "smtCmd \<Rightarrow> string" where
  "cmdText (CmdDeclare nm srt) = ''(declare-const '' @ nm @ '' '' @ srt @ '')'' @ [chr 10]"
| "cmdText (CmdAssert t) = ''(assert '' @ smtText t @ '')'' @ [chr 10]"

definition scriptText :: "smtCmd list \<Rightarrow> string" where
  "scriptText cs = ''(set-logic ALL)'' @ [chr 10] @ concat (map cmdText cs) @ ''(check-sat)'' @ [chr 10]"

subsection \<open>Serialization\<close>

fun serialize :: "sym \<Rightarrow> smt" where
  "serialize (SymConst q) = SmtNum q"
| "serialize (SymStr s) = SmtStr s"
| "serialize (SymVar k nm) = SmtId nm"
| "serialize (SymBin op a b) =
     (if op = ''max'' then SmtApp ''ite'' [SmtApp ''>='' [serialize a, serialize b], serialize a, serialize b]
      else if op = ''min'' then SmtApp ''ite'' [SmtApp ''<='' [serialize a, serialize b], serialize a, serialize b]
      else SmtApp op [serialize a, serialize b])"
| "serialize (SymCmp op a b) =
     (if op = ''=='' then SmtApp ''='' [serialize a, serialize b]
      else if op = ''/='' then SmtApp ''distinct'' [serialize a, serialize b]
      else if sort_of a = SortStr \<or> sort_of b = SortStr then
        (if op = ''<'' then SmtApp ''str.<'' [serialize a, serialize b]
         else if op = ''<='' then SmtApp ''str.<='' [serialize a, serialize b]
         else if op = ''>'' then SmtApp ''str.<'' [serialize b, serialize a]
         else if op = ''>='' then SmtApp ''str.<='' [serialize b, serialize a]
         else SmtApp op [serialize a, serialize b])
      else SmtApp op [serialize a, serialize b])"
| "serialize (SymIte c a b) = SmtApp ''ite'' [serialize c, serialize a, serialize b]"
| "serialize (SymStruct fs) = SmtId ''|struct-not-flattened|''"
| "serialize (SymVector x t) = SmtNum 0"

text \<open>The leaf equalities of two terms; a field the right side lacks would dereference nil.\<close>

fun leafEqs :: "sym \<Rightarrow> sym \<Rightarrow> smt list option"
and leafEqsFields :: "(string \<times> sym) list \<Rightarrow> (string \<times> sym) list \<Rightarrow> smt list option" where
  "leafEqs (SymStruct fs) (SymStruct gs) = leafEqsFields fs gs"
| "leafEqs l r = Some [SmtApp ''='' [serialize l, serialize r]]"
| "leafEqsFields [] gs = Some []"
| "leafEqsFields ((k, l) # fs) gs =
     (case map_of gs k of
        None \<Rightarrow> None
      | Some r \<Rightarrow>
          (case leafEqs l r of None \<Rightarrow> None | Some es \<Rightarrow>
           case leafEqsFields fs gs of None \<Rightarrow> None | Some es' \<Rightarrow> Some (es @ es')))"

definition conjunction :: "smt list \<Rightarrow> smt" where
  "conjunction eqs = (if length eqs = 1 then hd eqs else SmtApp ''and'' eqs)"

definition declCmds :: "varDecl \<Rightarrow> smtCmd list" where
  "declCmds d =
     (case d of
        DeclStr nm \<Rightarrow> [CmdDeclare nm ''String'']
      | DeclNum nm nt \<Rightarrow>
          CmdDeclare nm ''Real'' #
          (if nt_domain nt = DInt then [CmdAssert (SmtApp ''is_int'' [SmtId nm])] else []) @
          (case nt_sign nt of
             SNonNeg \<Rightarrow> [CmdAssert (SmtApp ''>='' [SmtId nm, SmtNum 0])]
           | SNonPos \<Rightarrow> [CmdAssert (SmtApp ''<='' [SmtId nm, SmtNum 0])]
           | SZero \<Rightarrow> [CmdAssert (SmtApp ''='' [SmtId nm, SmtNum 0])]
           | SAny \<Rightarrow> []))"

definition goalTerm :: "goal \<Rightarrow> smt option" where
  "goalTerm g =
     (case g_claim g of
        Some c \<Rightarrow> Some (serialize c)
      | None \<Rightarrow> map_option conjunction (leafEqs (g_lhs g) (g_rhs g)))"

definition buildScript :: "goal \<Rightarrow> smtCmd list option" where
  "buildScript g =
     (case goalTerm g of
        None \<Rightarrow> None
      | Some t \<Rightarrow>
          Some (concat (map declCmds (g_vars g)) @ map (\<lambda>a. CmdAssert (serialize a)) (g_assume g) @
            [CmdAssert (SmtApp ''not'' [t])]))"

subsection \<open>The solver\<close>

record solver =
  sv_found :: bool
  sv_output :: "smtCmd list \<Rightarrow> string"
  sv_timeout :: "smtCmd list \<Rightarrow> bool"

datatype smtErr = NoSolver | TimedOut | BadOutput string | Counterexample | Undecided | NilField

definition is_blank :: "char \<Rightarrow> bool" where
  "is_blank c \<longleftrightarrow> c = CHR '' '' \<or> c = chr 9 \<or> c = chr 10 \<or> c = chr 13"

definition firstToken :: "string \<Rightarrow> string" where
  "firstToken s = takeWhile (\<lambda>c. \<not> is_blank c) (TrimSpace s)"

definition runZ3 :: "solver \<Rightarrow> smtCmd list \<Rightarrow> smtErr + string" where
  "runZ3 sv cs =
     (let res = firstToken (sv_output sv cs) in
      if res \<in> {''sat'', ''unsat'', ''unknown''} then Inr res
      else if sv_timeout sv cs then Inl TimedOut
      else Inl (BadOutput (TrimSpace (sv_output sv cs))))"

definition checkGoal :: "solver \<Rightarrow> goal \<Rightarrow> smtErr + unit" where
  "checkGoal sv g =
     (if \<not> sv_found sv then Inl NoSolver
      else case buildScript g of
          None \<Rightarrow> Inl NilField
        | Some cs \<Rightarrow>
            rbind (runZ3 sv cs) (\<lambda>res.
            if res = ''unsat'' then Inr ()
            else if res = ''sat'' then Inl Counterexample
            else Inl Undecided))"

subsection \<open>The meaning of a script\<close>

text \<open>
  SMT-LIB values: reals, strings of the code points SMT-LIB has (up to 2FFFF), truth values.
  \<open>seval\<close> is undefined on ill-sorted terms and undeclared symbols. A string literal denotes its
  code points (\<open>smt_chars\<close>); the escape of one beyond 2FFFF is not an escape in SMT-LIB, so it is
  read as the characters it is written with.
\<close>

datatype smtVal = SR real | SS "nat list" | SB bool

definition smt_runes :: "nat list \<Rightarrow> bool" where
  "smt_runes cs \<longleftrightarrow> list_all (\<lambda>c. c < 0x30000) cs"

definition smt_chars :: "nat \<Rightarrow> nat list" where
  "smt_chars r = (if r < 0x30000 then [r] else map byte (smtRune r))"

lemma smt_chars_id: "smt_runes cs \<Longrightarrow> concat (map smt_chars cs) = cs"
  by (induction cs) (simp_all add: smt_runes_def smt_chars_def)

definition sappNum :: "string \<Rightarrow> real \<Rightarrow> real \<Rightarrow> smtVal option" where
  "sappNum f x y =
     (if f = ''+'' then Some (SR (x + y)) else if f = ''-'' then Some (SR (x - y))
      else if f = ''*'' then Some (SR (x * y))
      else if f = ''>='' then Some (SB (x \<ge> y)) else if f = ''<='' then Some (SB (x \<le> y))
      else if f = ''>'' then Some (SB (x > y)) else if f = ''<'' then Some (SB (x < y))
      else if f = ''='' then Some (SB (x = y)) else if f = ''distinct'' then Some (SB (x \<noteq> y))
      else None)"

definition sappStr :: "string \<Rightarrow> nat list \<Rightarrow> nat list \<Rightarrow> smtVal option" where
  "sappStr f x y =
     (if f = ''str.<'' then Some (SB (x < y)) else if f = ''str.<='' then Some (SB (x \<le> y))
      else if f = ''='' then Some (SB (x = y)) else if f = ''distinct'' then Some (SB (x \<noteq> y))
      else None)"

definition sappBool :: "string \<Rightarrow> bool \<Rightarrow> bool \<Rightarrow> smtVal option" where
  "sappBool f x y =
     (if f = ''='' then Some (SB (x = y)) else if f = ''distinct'' then Some (SB (x \<noteq> y)) else None)"

definition same_sort :: "smtVal \<Rightarrow> smtVal \<Rightarrow> bool" where
  "same_sort a b =
     (case (a, b) of (SR x, SR y) \<Rightarrow> True | (SS x, SS y) \<Rightarrow> True | (SB x, SB y) \<Rightarrow> True | _ \<Rightarrow> False)"

definition sapp :: "string \<Rightarrow> smtVal list \<Rightarrow> smtVal option" where
  "sapp f vs =
     (if f = ''and'' then
        (if list_all (\<lambda>v. case v of SB b \<Rightarrow> True | _ \<Rightarrow> False) vs then Some (SB (list_all (\<lambda>v. v = SB True) vs)) else None)
      else case vs of
        [SB x] \<Rightarrow> if f = ''not'' then Some (SB (\<not> x)) else None
      | [SR x] \<Rightarrow> if f = ''is_int'' then Some (SB (x \<in> \<int>)) else None
      | [SR x, SR y] \<Rightarrow> sappNum f x y
      | [SS x, SS y] \<Rightarrow> sappStr f x y
      | [SB x, SB y] \<Rightarrow> sappBool f x y
      | [SB c, a, b] \<Rightarrow> if f = ''ite'' \<and> same_sort a b then Some (if c then a else b) else None
      | _ \<Rightarrow> None)"

fun seval :: "(string \<Rightarrow> smtVal option) \<Rightarrow> smt \<Rightarrow> smtVal option" where
  "seval I (SmtNum q) = Some (SR (of_rat q))"
| "seval I (SmtStr s) = Some (SS (concat (map smt_chars (go_runes s))))"
| "seval I (SmtId nm) = I nm"
| "seval I (SmtApp f ts) =
     (let vs = map (seval I) ts in if None \<in> set vs then None else sapp f (map the vs))"

text \<open>An interpretation gives every declared symbol, and no other, a value of its sort.\<close>

definition of_sort :: "string \<Rightarrow> smtVal \<Rightarrow> bool" where
  "of_sort srt v =
     (case v of SR x \<Rightarrow> srt = ''Real'' | SS cs \<Rightarrow> srt = ''String'' \<and> smt_runes cs | SB b \<Rightarrow> False)"

definition declared_in :: "smtCmd list \<Rightarrow> (string \<times> string) list" where
  "declared_in cs = concat (map (\<lambda>c. case c of CmdDeclare nm srt \<Rightarrow> [(nm, srt)] | CmdAssert t \<Rightarrow> []) cs)"

definition asserted :: "smtCmd list \<Rightarrow> smt list" where
  "asserted cs = concat (map (\<lambda>c. case c of CmdDeclare nm srt \<Rightarrow> [] | CmdAssert t \<Rightarrow> [t]) cs)"

definition interprets :: "(string \<Rightarrow> smtVal option) \<Rightarrow> smtCmd list \<Rightarrow> bool" where
  "interprets I cs \<longleftrightarrow> dom I = fst ` set (declared_in cs) \<and>
     (\<forall>(nm, srt) \<in> set (declared_in cs). \<exists>v. I nm = Some v \<and> of_sort srt v)"

text \<open>Refuted: well-sorted, and some assertion is false in every interpretation.\<close>

definition refuted :: "smtCmd list \<Rightarrow> bool" where
  "refuted cs \<longleftrightarrow>
     (\<forall>I. interprets I cs \<longrightarrow>
        (\<forall>t \<in> set (asserted cs). \<exists>b. seval I t = Some (SB b)) \<and>
        (\<exists>t \<in> set (asserted cs). seval I t = Some (SB False)))"

definition solver_sound :: "solver \<Rightarrow> bool" where
  "solver_sound sv \<longleftrightarrow> (\<forall>cs. firstToken (sv_output sv cs) = ''unsat'' \<longrightarrow> refuted cs)"

end
