(* ===== verification/Prover.thy ===== *)
theory Prover
  imports Smt Vector
begin

text \<open>
  prover/prover.go: lowering of expressions to symbolic terms, the proof obligations of a type and
  \<open>Prove\<close>. A \<open>symFn\<close> is defunctionalised like the evaluator's closures; \<open>visited\<close> is the list of
  the functions being inlined; the accumulators \<open>extraDecls\<close>, \<open>extraAssume\<close> and \<open>reduceCount\<close> are
  the record \<open>pstate\<close>, threaded through. Lowering inlines user functions; fuel \<open>n\<close> counts nested
  inlinings, and \<open>length F + 1\<close> is enough, because a function already being inlined is an error.
\<close>

datatype symClo =
    CSPrim string
  | CSUser string "string list"
  | CSPartial symClo "sym list"

datatype lowered = LVal sym | LFn nat symClo

record pstate =
  ps_decls :: "varDecl list"
  ps_assume :: "sym list"
  ps_count :: nat

datatype proveErr =
    PvUnbound string
  | PvUnknownFn string
  | PvNoHead
  | PvNotFn
  | PvFnArg
  | PvTooMany nat nat
  | PvFieldNoValue string
  | PvFieldNotValue string
  | PvNoTarget
  | PvFieldOfFn
  | PvNonStruct string
  | PvNoField string
  | PvCombinator
  | PvKind
  | PvRecursive string
  | PvNoValueFn string
  | PvNoCases
  | PvNoOtherwise
  | PvGuard
  | PvShape
  | PvWantFn nat nat
  | PvReduceMalformed
  | PvReduceVector
  | PvReduceInit
  | PvFold
  | PvGoal string smtErr
  | PvNotZip
  | PvNotLocalWrite string
  | PvParamType string
  | PvUpdate string proveErr
  | PvPanic
  | PvFuel

definition cmpOpNames :: "string list" where
  "cmpOpNames = [''>'', ''<'', ''>='', ''<='', ''=='', ''/='']"

definition primSym :: "string \<Rightarrow> sym \<Rightarrow> sym \<Rightarrow> sym" where
  "primSym op a b = (if op \<in> set cmpOpNames then SymCmp op a b else SymBin op a b)"

text \<open>\<open>ite\<close> distributes over structs; \<open>iteSym\<close>.\<close>

definition isStruct :: "sym \<Rightarrow> bool" where
  "isStruct s = (case s of SymStruct fs \<Rightarrow> True | _ \<Rightarrow> False)"

fun iteSym :: "sym \<Rightarrow> sym \<Rightarrow> sym \<Rightarrow> proveErr + sym"
and iteFields :: "sym \<Rightarrow> (string \<times> sym) list \<Rightarrow> (string \<times> sym) list \<Rightarrow> proveErr + (string \<times> sym) list" where
  "iteSym c a b =
     (case a of
        SymStruct fs \<Rightarrow>
          (case b of
             SymStruct gs \<Rightarrow> rbind (iteFields c fs gs) (\<lambda>hs. Inr (SymStruct hs))
           | _ \<Rightarrow> Inl PvShape)
      | _ \<Rightarrow> if isStruct b then Inl PvShape else Inr (SymIte c a b))"
| "iteFields c [] gs = Inr []"
| "iteFields c ((k, a) # fs) gs =
     (case map_of gs k of
        None \<Rightarrow> Inl PvShape
      | Some b \<Rightarrow> rbind (iteSym c a b) (\<lambda>t. rbind (iteFields c fs gs) (\<lambda>hs. Inr ((k, t) # hs))))"

declare iteSym.simps [simp del]

subsection \<open>Variables of an element type\<close>

text \<open>\<open>symVarOf\<close>: the leaves are declared in order, named by their path of field indices.\<close>

fun symVarOf :: "string \<Rightarrow> elemT \<Rightarrow> sym \<times> varDecl list"
and symVarFields :: "string \<Rightarrow> nat \<Rightarrow> (string \<times> elemT) list \<Rightarrow> (string \<times> sym) list \<Rightarrow> (string \<times> sym) list \<times> varDecl list" where
  "symVarOf prefix (TStruct nm fs) = (case symVarFields prefix 0 fs [] of (m, ds) \<Rightarrow> (SymStruct m, ds))"
| "symVarOf prefix TStr = (SymVar SortStr prefix, [DeclStr prefix])"
| "symVarOf prefix (TNum nt) = (SymVar SortNum prefix, [DeclNum prefix nt])"
| "symVarFields prefix i [] m = (m, [])"
| "symVarFields prefix i ((k, t) # fs) m =
     (case symVarOf (prefix @ ''_'' @ nat_String i) t of (s, ds) \<Rightarrow>
      case symVarFields prefix (i + 1) fs (mput k s m) of (m', ds') \<Rightarrow> (m', ds @ ds'))"

subsection \<open>Recognising a fold\<close>

definition isVarNamed :: "expr \<Rightarrow> string \<Rightarrow> bool" where
  "isVarNamed e nm = (case e of EVar x \<Rightarrow> x = nm | _ \<Rightarrow> False)"

text \<open>The fields are collected from the outside in; the path is read from the root out.\<close>

fun projectionPath :: "expr \<Rightarrow> string \<Rightarrow> proveErr + string list" where
  "projectionPath e v =
     (case e of
        EField (Some t) f \<Rightarrow> rbind (projectionPath t v) (\<lambda>p. Inr (p @ [f]))
      | EVar x \<Rightarrow> if x = v then Inr [] else Inl PvFold
      | _ \<Rightarrow> Inl PvFold)"

declare projectionPath.simps [simp del]

definition foldBody :: "func \<Rightarrow> proveErr + string \<times> string list" where
  "foldBody def =
     (case (f_Params def, f_Body def) of
        ([pa, pe], EApp (Some (ERef op k RefPrimitive)) [a0, a1]) \<Rightarrow>
          if op \<noteq> ''max'' \<and> op \<noteq> ''min'' then Inl PvFold
          else if isVarNamed a0 (p_Name pa) then rbind (projectionPath a1 (p_Name pe)) (\<lambda>p. Inr (op, p))
          else if isVarNamed a1 (p_Name pa) then rbind (projectionPath a0 (p_Name pe)) (\<lambda>p. Inr (op, p))
          else Inl PvFold
      | _ \<Rightarrow> Inl PvFold)"

definition foldProjection :: "func gomap \<Rightarrow> expr \<Rightarrow> proveErr + string \<times> string list" where
  "foldProjection F fn =
     (case fn of
        ERef nm k RefPrimitive \<Rightarrow> if nm = ''max'' \<or> nm = ''min'' then Inr (nm, []) else Inl PvFold
      | ERef nm k RefFunction \<Rightarrow>
          (case map_of F nm of None \<Rightarrow> Inl (PvUnknownFn nm) | Some def \<Rightarrow> foldBody def)
      | _ \<Rightarrow> Inl PvFold)"

fun projectSym :: "sym \<Rightarrow> string list \<Rightarrow> proveErr + sym" where
  "projectSym s [] = Inr s"
| "projectSym s (f # path) =
     (case s of
        SymStruct fs \<Rightarrow> (case map_of fs f of None \<Rightarrow> Inl (PvNoField f) | Some t \<Rightarrow> projectSym t path)
      | _ \<Rightarrow> Inl (PvNonStruct f))"

definition foldRel :: "string \<Rightarrow> string" where
  "foldRel op = (if op = ''min'' then ''<='' else ''>='')"

definition claimGoal :: "string \<Rightarrow> varDecl list \<Rightarrow> sym \<Rightarrow> goal" where
  "claimGoal nm ds c =
     \<lparr> g_name = nm, g_vars = ds, g_lhs = SymConst 0, g_rhs = SymConst 0, g_claim = Some c, g_assume = [] \<rparr>"

definition proveGoal :: "solver \<Rightarrow> goal \<Rightarrow> proveErr + unit" where
  "proveGoal sv g = rwrap (PvGoal (g_name g)) (checkGoal sv g)"

text \<open>The two lemmas behind the bound of a fold, on its lowered body.\<close>

definition foldLemmas :: "solver \<Rightarrow> string \<Rightarrow> varDecl list \<Rightarrow> sym \<Rightarrow> sym \<Rightarrow> proveErr + unit" where
  "foldLemmas sv op ds body proj =
     (let decls = DeclNum ''acc'' (NumType DRat SAny) # ds in
      rbind (proveGoal sv (claimGoal ''fold-inflationary'' decls (SymCmp (foldRel op) body (SymVar SortNum ''acc'')))) (\<lambda>_.
      proveGoal sv (claimGoal ''fold-dominates'' decls (SymCmp (foldRel op) body proj))))"

subsection \<open>Lowering\<close>

text \<open>The fresh result of a reduce, with its two bounds.\<close>

definition freshReduce :: "string \<Rightarrow> sym \<Rightarrow> sym \<Rightarrow> pstate \<Rightarrow> sym \<times> pstate" where
  "freshReduce op init proj st =
     (let nm = ''reduceM'' @ nat_String (ps_count st); M = SymVar SortNum nm in
      (M, \<lparr> ps_decls = ps_decls st @ [DeclNum nm (NumType DRat SAny)],
            ps_assume = ps_assume st @ [SymCmp (foldRel op) M init, SymCmp (foldRel op) M proj],
            ps_count = ps_count st + 1 \<rparr>))"

text \<open>The end of \<open>evalReduce\<close>, once the fold's body is lowered.\<close>

definition boundReduce ::
    "solver \<Rightarrow> string \<Rightarrow> string list \<Rightarrow> sym \<Rightarrow> elemT \<Rightarrow> sym \<Rightarrow> sym \<Rightarrow> pstate \<Rightarrow> proveErr + lowered \<times> pstate" where
  "boundReduce sv op path self t iv body st =
     (case symVarOf ''e'' t of (es, ds) \<Rightarrow>
      rbind (projectSym es path) (\<lambda>proj.
      rbind (foldLemmas sv op ds body proj) (\<lambda>_.
      rbind (projectSym self path) (\<lambda>sp.
      case freshReduce op iv sp st of (M, st') \<Rightarrow> Inr (LVal M, st')))))"

text \<open>The value a term is required to be.\<close>

definition wantVal :: "proveErr \<Rightarrow> lowered \<times> pstate \<Rightarrow> proveErr + sym \<times> pstate" where
  "wantVal err r = (case r of (LVal s, st) \<Rightarrow> Inr (s, st) | (LFn k c, st) \<Rightarrow> Inl err)"

definition symEnv :: "paramSpec list \<Rightarrow> sym list \<Rightarrow> sym gomap" where
  "symEnv ps args = mfrom (zip (map p_Name ps) args)"

function lower :: "func gomap \<Rightarrow> solver \<Rightarrow> nat \<Rightarrow> string list \<Rightarrow> sym gomap \<Rightarrow> pstate \<Rightarrow> expr \<Rightarrow> proveErr + lowered \<times> pstate"
and lowerArgs :: "func gomap \<Rightarrow> solver \<Rightarrow> nat \<Rightarrow> string list \<Rightarrow> sym gomap \<Rightarrow> pstate \<Rightarrow> expr list \<Rightarrow> proveErr + sym list \<times> pstate"
and lowerCases :: "func gomap \<Rightarrow> solver \<Rightarrow> nat \<Rightarrow> string list \<Rightarrow> sym gomap \<Rightarrow> pstate \<Rightarrow> guardCase list \<Rightarrow> proveErr + sym \<times> pstate"
and lowerFields :: "func gomap \<Rightarrow> solver \<Rightarrow> nat \<Rightarrow> string list \<Rightarrow> sym gomap \<Rightarrow> pstate \<Rightarrow> structField list \<Rightarrow> sym gomap \<Rightarrow> proveErr + sym gomap \<times> pstate"
and symCall :: "func gomap \<Rightarrow> solver \<Rightarrow> nat \<Rightarrow> pstate \<Rightarrow> symClo \<Rightarrow> sym list \<Rightarrow> proveErr + sym \<times> pstate"
where
  "lower F sv n vis env st (ENumLit q) = Inr (LVal (SymConst q), st)"
| "lower F sv n vis env st (EStrLit s) = Inr (LVal (SymStr s), st)"
| "lower F sv n vis env st (EVar x) =
     (case map_of env x of None \<Rightarrow> Inl (PvUnbound x) | Some s \<Rightarrow> Inr (LVal s, st))"
| "lower F sv n vis env st (ERef nm a rk) =
     (case rk of
        RefPrimitive \<Rightarrow> Inr (LFn 2 (CSPrim nm), st)
      | RefFunction \<Rightarrow>
          (case map_of F nm of
             None \<Rightarrow> Inl (PvUnknownFn nm)
           | Some def \<Rightarrow> Inr (LFn (length (f_Params def)) (CSUser nm vis), st)))"
| "lower F sv n vis env st (EApp h as) =
     (case h of
        None \<Rightarrow> Inl PvNoHead
      | Some h' \<Rightarrow>
          rbind (lower F sv n vis env st h') (\<lambda>(hr, st1).
          case hr of
            LVal s \<Rightarrow> Inl PvNotFn
          | LFn k c \<Rightarrow>
              rbind (lowerArgs F sv n vis env st1 as) (\<lambda>(args, st2).
              if length args = k then rbind (symCall F sv n st2 c args) (\<lambda>(s, st3). Inr (LVal s, st3))
              else if length args < k then Inr (LFn (k - length args) (CSPartial c args), st2)
              else Inl (PvTooMany k (length args)))))"
| "lower F sv n vis env st (EGuards cs) =
     rbind (lowerCases F sv n vis env st cs) (\<lambda>(s, st'). Inr (LVal s, st'))"
| "lower F sv n vis env st (EStructLit sfs) =
     rbind (lowerFields F sv n vis env st sfs []) (\<lambda>(m, st'). Inr (LVal (SymStruct m), st'))"
| "lower F sv n vis env st (EField t fld) =
     (case t of
        None \<Rightarrow> Inl PvNoTarget
      | Some t' \<Rightarrow>
          rbind (lower F sv n vis env st t') (\<lambda>r.
          rbind (wantVal PvFieldOfFn r) (\<lambda>(s, st').
          case s of
            SymStruct fs \<Rightarrow>
              (case map_of fs fld of None \<Rightarrow> Inl (PvNoField fld) | Some v \<Rightarrow> Inr (LVal v, st'))
          | _ \<Rightarrow> Inl (PvNonStruct fld))))"
| "lower F sv n vis env st (EReduce fn i v) =
     (case fn of None \<Rightarrow> Inl PvReduceMalformed | Some fn' \<Rightarrow>
      case i of None \<Rightarrow> Inl PvReduceMalformed | Some i' \<Rightarrow>
      case v of None \<Rightarrow> Inl PvReduceMalformed | Some v' \<Rightarrow>
        rbind (lower F sv n vis env st v') (\<lambda>r1.
        rbind (wantVal PvReduceVector r1) (\<lambda>(vs, st1).
        case vs of
          SymVector self t \<Rightarrow>
            rbind (lower F sv n vis env st1 i') (\<lambda>r2.
            rbind (wantVal PvReduceInit r2) (\<lambda>(iv, st2).
            rbind (foldProjection F fn') (\<lambda>(op, path).
            rbind (lower F sv n [] [] st2 fn') (\<lambda>(fr, st3).
            case fr of
              LVal s \<Rightarrow> Inl (PvWantFn 2 0)
            | LFn k c \<Rightarrow>
                if k \<noteq> 2 then Inl (PvWantFn 2 k)
                else
                  rbind (symCall F sv n st3 c [SymVar SortNum ''acc'', fst (symVarOf ''e'' t)]) (\<lambda>(body, st4).
                  boundReduce sv op path self t iv body st4)))))
        | _ \<Rightarrow> Inl PvReduceVector)))"
| "lower F sv n vis env st (EName x) = Inl PvKind"
| "lower F sv n vis env st (EZip f) = Inl PvCombinator"
| "lower F sv n vis env st (ELocal f) = Inl PvCombinator"
| "lower F sv n vis env st (EWrite f) = Inl PvCombinator"
| "lowerArgs F sv n vis env st [] = Inr ([], st)"
| "lowerArgs F sv n vis env st (e # es) =
     rbind (lower F sv n vis env st e) (\<lambda>r.
     rbind (wantVal PvFnArg r) (\<lambda>(s, st1).
     rbind (lowerArgs F sv n vis env st1 es) (\<lambda>(ss, st2). Inr (s # ss, st2))))"
| "lowerCases F sv n vis env st [] = Inl PvNoCases"
| "lowerCases F sv n vis env st (GuardCase cond res ow # cs) =
     (if cs = [] then
        (if \<not> ow then Inl PvNoOtherwise
         else case res of
             None \<Rightarrow> Inl PvNoOtherwise
           | Some r' \<Rightarrow> rbind (lower F sv n vis env st r') (wantVal PvGuard))
      else
        rbind (lowerCases F sv n vis env st cs) (\<lambda>(acc, st1).
        case cond of None \<Rightarrow> Inl PvGuard | Some c' \<Rightarrow>
        case res of None \<Rightarrow> Inl PvGuard | Some r' \<Rightarrow>
          rbind (lower F sv n vis env st1 c') (\<lambda>(cl, st2).
          rbind (lower F sv n vis env st2 r') (\<lambda>(rl, st3).
          rbind (wantVal PvGuard (cl, st3)) (\<lambda>(cv, _).
          rbind (wantVal PvGuard (rl, st3)) (\<lambda>(rv, _).
          rbind (iteSym cv rv acc) (\<lambda>s. Inr (s, st3))))))))"
| "lowerFields F sv n vis env st [] m = Inr (m, st)"
| "lowerFields F sv n vis env st (StructField nm val # sfs) m =
     (case val of
        None \<Rightarrow> Inl (PvFieldNoValue nm)
      | Some e \<Rightarrow>
          rbind (lower F sv n vis env st e) (\<lambda>r.
          rbind (wantVal (PvFieldNotValue nm) r) (\<lambda>(s, st1).
          lowerFields F sv n vis env st1 sfs (mput nm s m))))"
| "symCall F sv n st (CSPrim op) args =
     (case args of a # b # _ \<Rightarrow> Inr (primSym op a b, st) | _ \<Rightarrow> Inl PvPanic)"
| "symCall F sv n st (CSUser nm vis) args =
     (case map_of F nm of
        None \<Rightarrow> Inl PvPanic
      | Some def \<Rightarrow>
          if nm \<in> set vis then Inl (PvRecursive nm)
          else if length args < length (f_Params def) then Inl PvPanic
          else if n = 0 then Inl PvFuel
          else
            rbind (lower F sv (n - 1) (nm # vis) (symEnv (f_Params def) args) st (f_Body def))
              (wantVal (PvNoValueFn nm)))"
| "symCall F sv n st (CSPartial c bound) rest = symCall F sv n st c (bound @ rest)"
  by pat_completeness auto

termination
proof (relation "measures
    [case_sum
       (case_sum (\<lambda>(F, sv, n, vis, env, st, e). n) (\<lambda>(F, sv, n, vis, env, st, es). n))
       (case_sum (\<lambda>(F, sv, n, vis, env, st, cs). n)
         (case_sum (\<lambda>(F, sv, n, vis, env, st, sfs, m). n) (\<lambda>(F, sv, n, st, c, args). n))),
     case_sum (case_sum (\<lambda>_. 1) (\<lambda>_. 1)) (case_sum (\<lambda>_. 1) (case_sum (\<lambda>_. 1) (\<lambda>_. 0))),
     case_sum
       (case_sum (\<lambda>(F, sv, n, vis, env, st, e). size e) (\<lambda>(F, sv, n, vis, env, st, es). size_list size es))
       (case_sum (\<lambda>(F, sv, n, vis, env, st, cs). size_list size cs)
         (case_sum (\<lambda>(F, sv, n, vis, env, st, sfs, m). size_list size sfs) (\<lambda>(F, sv, n, st, c, args). size c)))]", goal_cases)
  case 1
  then show ?case by simp
qed simp_all

definition lowerFuel :: "func gomap \<Rightarrow> nat" where
  "lowerFuel F = length F + 1"

definition evalFn :: "func gomap \<Rightarrow> solver \<Rightarrow> sym gomap \<Rightarrow> pstate \<Rightarrow> expr \<Rightarrow> nat \<Rightarrow> proveErr + symClo \<times> pstate" where
  "evalFn F sv env st e want =
     rbind (lower F sv (lowerFuel F) [] env st e) (\<lambda>(r, st').
     case r of
       LVal s \<Rightarrow> Inl (PvWantFn want 0)
     | LFn k c \<Rightarrow> if k \<noteq> want then Inl (PvWantFn want k) else Inr (c, st'))"

subsection \<open>Obligations\<close>

definition eqGoal :: "string \<Rightarrow> varDecl list \<Rightarrow> sym \<Rightarrow> sym \<Rightarrow> sym list \<Rightarrow> goal" where
  "eqGoal nm ds l r as =
     \<lparr> g_name = nm, g_vars = ds, g_lhs = l, g_rhs = r, g_claim = None, g_assume = as \<rparr>"

fun bindUpdateParams :: "nat \<Rightarrow> paramSpec list \<Rightarrow> sym gomap \<Rightarrow> proveErr + sym gomap \<times> varDecl list" where
  "bindUpdateParams i [] env = Inr (env, [])"
| "bindUpdateParams i (p # ps) env =
     (let nm = ''p'' @ nat_String i in
      rbind (if p_Type p = ''string'' then Inr (SymVar SortStr nm, DeclStr nm)
             else case nt_Parse (p_Type p) of
                 None \<Rightarrow> Inl (PvParamType (p_Type p))
               | Some nt \<Rightarrow> Inr (SymVar SortNum nm, DeclNum nm nt)) (\<lambda>(s, d).
      rbind (bindUpdateParams (i + 1) ps (mput (p_Name p) s env)) (\<lambda>(env', ds). Inr (env', d # ds))))"

definition initPs :: pstate where
  "initPs = \<lparr> ps_decls = [], ps_assume = [], ps_count = 0 \<rparr>"

text \<open>The three laws of the merge. Applying the merge function may only change the accumulators.\<close>

definition mergeGoals :: "func gomap \<Rightarrow> solver \<Rightarrow> elemT \<Rightarrow> symClo \<Rightarrow> pstate \<Rightarrow> proveErr + goal list \<times> pstate" where
  "mergeGoals F sv t f st =
     (case symVarOf ''a'' t of (a, da) \<Rightarrow>
      case symVarOf ''b'' t of (b, db) \<Rightarrow>
      case symVarOf ''c'' t of (c, dc) \<Rightarrow>
        rbind (symCall F sv (lowerFuel F) st f [a, b]) (\<lambda>(fab, st).
        rbind (symCall F sv (lowerFuel F) st f [b, a]) (\<lambda>(fba, st).
        rbind (symCall F sv (lowerFuel F) st f [b, c]) (\<lambda>(fbc, st).
        rbind (symCall F sv (lowerFuel F) st f [a, fbc]) (\<lambda>(l, st).
        rbind (symCall F sv (lowerFuel F) st f [a, b]) (\<lambda>(fab2, st).
        rbind (symCall F sv (lowerFuel F) st f [fab2, c]) (\<lambda>(r, st).
        rbind (symCall F sv (lowerFuel F) st f [a, a]) (\<lambda>(faa, st).
        Inr ([eqGoal ''commutativity'' (da @ db) fab fba [],
              eqGoal ''associativity'' (da @ db @ dc) l r [],
              eqGoal ''idempotence'' da faa a []], st)))))))))"

text \<open>One update; the merge function \<open>f\<close> is applied to the slot and the new value.\<close>

definition updateGoal :: "func gomap \<Rightarrow> solver \<Rightarrow> elemT \<Rightarrow> symClo \<Rightarrow> pstate \<Rightarrow> string \<Rightarrow> crdt_method \<Rightarrow> proveErr + goal \<times> pstate" where
  "updateGoal F sv t f st nm m =
     (case updateBody (mt_Body m) of
        None \<Rightarrow> Inl (PvNotLocalWrite nm)
      | Some (write, fn) \<Rightarrow>
          (case symVarOf ''slot'' t of (x, dx) \<Rightarrow>
           rwrap (PvUpdate nm)
             (rbind (bindUpdateParams 0 (mt_Params m) []) (\<lambda>(env, dp).
              rbind (evalFn F sv env st fn 1) (\<lambda>(h, st1).
              let arg = (if write then SymVector x t else x);
                  st2 = st1\<lparr>ps_decls := [], ps_assume := []\<rparr> in
              rbind (symCall F sv (lowerFuel F) st2 h [arg]) (\<lambda>(hx, st3).
              rbind (symCall F sv (lowerFuel F) st3 f [x, hx]) (\<lambda>(fxhx, st4).
              Inr (eqGoal ''inflationary'' (dx @ dp @ ps_decls st4) fxhx hx (ps_assume st4), st4))))))))"

definition proveUpdate :: "func gomap \<Rightarrow> solver \<Rightarrow> elemT \<Rightarrow> symClo \<Rightarrow> pstate \<Rightarrow> string \<times> crdt_method \<Rightarrow> proveErr + pstate" where
  "proveUpdate F sv t f st nm_m =
     rbind (updateGoal F sv t f st (fst nm_m) (snd nm_m)) (\<lambda>(g, st').
     rbind (rwrap (PvUpdate (fst nm_m)) (proveGoal sv g)) (\<lambda>_. Inr st'))"

text \<open>The updates are visited in the order of \<open>sortedKeys\<close>, which is the order of the entries.\<close>

definition Prove :: "solver \<Rightarrow> elemT \<Rightarrow> expr \<Rightarrow> crdt_method gomap \<Rightarrow> func gomap \<Rightarrow> proveErr + unit" where
  "Prove sv elem merge updates F =
     (case merge of
        EZip (Some fn) \<Rightarrow>
          rbind (evalFn F sv [] initPs fn 2) (\<lambda>(f, st).
          rbind (mergeGoals F sv elem f st) (\<lambda>(gs, st1).
          rbind (allR (proveGoal sv) gs) (\<lambda>_.
          rbind (foldR (proveUpdate F sv elem f) st1 updates) (\<lambda>_. Inr ()))))
      | _ \<Rightarrow> Inl PvNotZip)"

end
