(* ===== verification/SymSound.thy ===== *)
theory SymSound
  imports Prover
begin

text \<open>
  Soundness of the prover, first part: lowering. \<open>denotes r s v\<close>: under the values \<open>r\<close> of its
  variables the symbolic term \<open>s\<close> means the runtime value \<open>v\<close> (a struct term may say less than \<open>v\<close>:
  a guard keeps the fields of its first branch only). \<open>lower_sound_all\<close>: where evaluation of an
  expression succeeds, its lowering means the same value, by induction over lowering.
  \<open>lower_plain_all\<close>: without the write marker lowering collects no hypotheses.
\<close>

subsection \<open>The runtime meaning of symbolic terms\<close>

definition primVal :: "string \<Rightarrow> rtVal \<Rightarrow> rtVal \<Rightarrow> rtVal option" where
  "primVal op x y =
     (case primOp op of
        Inl e \<Rightarrow> None
      | Inr f \<Rightarrow> (case f x y of Inl e \<Rightarrow> None | Inr v \<Rightarrow> Some v))"

definition lit_ok :: "string \<Rightarrow> bool" where
  "lit_ok s \<longleftrightarrow> utf8_ValidString s \<and> smt_runes (go_runes s)"

inductive denotes :: "(string \<Rightarrow> rtVal option) \<Rightarrow> sym \<Rightarrow> rtVal \<Rightarrow> bool" for r where
  den_const: "denotes r (SymConst q) (VNum q)"
| den_str: "lit_ok s \<Longrightarrow> denotes r (SymStr s) (VStr s)"
| den_var: "r nm = Some v \<Longrightarrow> denotes r (SymVar k nm) v"
| den_bin: "denotes r a x \<Longrightarrow> denotes r b y \<Longrightarrow> op \<notin> set cmpOpNames \<Longrightarrow> primVal op x y = Some v \<Longrightarrow>
    denotes r (SymBin op a b) v"
| den_cmp: "denotes r a x \<Longrightarrow> denotes r b y \<Longrightarrow> op \<in> set cmpOpNames \<Longrightarrow> primVal op x y = Some v \<Longrightarrow>
    denotes r (SymCmp op a b) v"
| den_ite: "denotes r c (VBool t) \<Longrightarrow> denotes r (if t then a else b) v \<Longrightarrow> denotes r (SymIte c a b) v"
| den_struct: "(\<And>k s. map_of fs k = Some s \<Longrightarrow> \<exists>x. map_of m k = Some x \<and> denotes r s x) \<Longrightarrow>
    denotes r (SymStruct fs) (VStruct m)"

inductive_simps den_SymVar: "denotes r (SymVar k nm) v"
inductive_simps den_SymStruct: "denotes r (SymStruct fs) v"
inductive_simps den_SymVector: "denotes r (SymVector x t) v"

definition relE :: "(string \<Rightarrow> rtVal option) \<Rightarrow> sym gomap \<Rightarrow> rtVal gomap \<Rightarrow> bool" where
  "relE r env renv \<longleftrightarrow> (\<forall>x s. map_of env x = Some s \<longrightarrow> (\<exists>v. map_of renv x = Some v \<and> denotes r s v))"

lemma relE_Nil [simp]: "relE r [] renv"
  by (simp add: relE_def)

lemma relE_mput: "relE r m rm \<Longrightarrow> denotes r s v \<Longrightarrow> relE r (mput k s m) (mput k v rm)"
  by (auto simp: relE_def)

lemma relE_field: "relE r fs m \<Longrightarrow> map_of fs k = Some s \<Longrightarrow> map_of m k = Some v \<Longrightarrow> denotes r s v"
  by (force simp: relE_def)

lemma den_struct_iff: "denotes r (SymStruct fs) v \<longleftrightarrow> (\<exists>m. v = VStruct m \<and> relE r fs m)"
  by (auto simp: den_SymStruct relE_def)

fun relC :: "(string \<Rightarrow> rtVal option) \<Rightarrow> symClo \<Rightarrow> closure \<Rightarrow> bool" where
  "relC r (CSPrim nm) c = (c = CPrim nm)"
| "relC r (CSUser nm vis) c = (\<exists>d. c = CUser nm d)"
| "relC r (CSPartial c0 b) c = (\<exists>c' b'. c = CPartial c' b' \<and> relC r c0 c' \<and> list_all2 (denotes r) b b')"

fun relR :: "(string \<Rightarrow> rtVal option) \<Rightarrow> lowered \<Rightarrow> rtVal \<Rightarrow> bool" where
  "relR r (LVal s) v = denotes r s v"
| "relR r (LFn k c) v = (\<exists>c'. v = VFunc k c' \<and> relC r c c')"

lemma relE_symEnv:
  assumes "list_all2 (denotes r) args vs"
  shows "relE r (symEnv ps args) (callEnv ps vs)"
proof -
  let ?R = "\<lambda>xs xv. fst xs = fst xv \<and> denotes r (snd xs) (snd xv)"
  have z: "list_all2 ?R (zip ns args) (zip ns vs)" for ns :: "string list"
    using assms by (induction arbitrary: ns rule: list_all2_induct) (simp, case_tac ns, auto)
  have l: "list_all2 ?R (rev (zip (map p_Name ps) args)) (rev (zip (map p_Name ps) vs))"
    using z by (simp add: list_all2_rev)
  have m: "map_of xs x = Some s \<Longrightarrow> \<exists>v. map_of ys x = Some v \<and> denotes r s v"
    if "list_all2 ?R xs ys" for xs ys x s
    using that by (induction rule: list_all2_induct) (auto split: if_split_asm)
  show ?thesis
    unfolding relE_def symEnv_def callEnv_def map_of_mfrom using m [OF l] by blast
qed

lemma primSym_den:
  assumes "primOp op = Inr f" "f x y = Inr v" "denotes r a x" "denotes r b y"
  shows "denotes r (primSym op a b) v"
  using assms by (auto simp: primSym_def primVal_def intro: den_bin den_cmp)

text \<open>A conditional means its chosen branch, also after distribution over structs.\<close>

lemma iteSym_den_all:
  "\<And>s t v. iteSym c a b = Inr s \<Longrightarrow> denotes r c (VBool t) \<Longrightarrow> denotes r (if t then a else b) v \<Longrightarrow> denotes r s v"
  "\<And>hs k s. iteFields c fs gs = Inr hs \<Longrightarrow> map_of hs k = Some s \<Longrightarrow>
    \<exists>a b. map_of fs k = Some a \<and> map_of gs k = Some b \<and>
      (\<forall>t v. denotes r c (VBool t) \<longrightarrow> denotes r (if t then a else b) v \<longrightarrow> denotes r s v)"
proof (induction c a b and c fs gs rule: iteSym_iteFields.induct)
  case (1 c a b)
  show ?case
  proof (cases "isStruct a \<and> isStruct b")
    case True
    then obtain fs gs where ab: "a = SymStruct fs" "b = SymStruct gs"
      by (auto simp: isStruct_def split: sym.splits)
    with "1.prems"(1) obtain hs where hs: "iteFields c fs gs = Inr hs" "s = SymStruct hs"
      by (auto simp: iteSym.simps)
    from "1.prems"(3) ab obtain m where m: "v = VStruct m" "relE r (if t then fs else gs) m"
      by (auto simp: den_struct_iff split: if_splits)
    have "relE r hs m"
      unfolding relE_def
    proof (intro allI impI)
      fix k u assume "map_of hs k = Some u"
      from "1.IH" [OF ab hs(1) this] "1.prems"(2) m(2)
      show "\<exists>x. map_of m k = Some x \<and> denotes r u x" by (fastforce simp: relE_def split: if_splits)
    qed
    with m hs show ?thesis by (simp add: den_struct_iff)
  next
    case False
    with "1.prems" show ?thesis
      by (cases a; cases b) (auto simp: iteSym.simps isStruct_def intro: den_ite)
  qed
next
  case (2 c gs)
  then show ?case by simp
next
  case (3 c k' a fs gs)
  then show ?case by (fastforce split: option.splits if_splits)
qed

lemmas iteSym_den = iteSym_den_all(1)

subsection \<open>Conditions on the source\<close>

text \<open>Where an \<open>otherwise\<close> case is last, as the checker demands, and string literals are valid UTF-8 of the code points
  SMT-LIB has.\<close>

fun source_ok :: "expr \<Rightarrow> bool"
and cases_ok :: "guardCase list \<Rightarrow> bool" where
  "source_ok (ENumLit q) = True"
| "source_ok (EStrLit s) = lit_ok s"
| "source_ok (EName x) = True"
| "source_ok (EVar x) = True"
| "source_ok (ERef nm a k) = True"
| "source_ok (EApp h as) = ((case h of None \<Rightarrow> True | Some e \<Rightarrow> source_ok e) \<and> list_all source_ok as)"
| "source_ok (EGuards cs) = cases_ok cs"
| "source_ok (EStructLit sfs) = list_all (\<lambda>sf. case sf of StructField nm v \<Rightarrow>
     (case v of None \<Rightarrow> True | Some e \<Rightarrow> source_ok e)) sfs"
| "source_ok (EField t f) = (case t of None \<Rightarrow> True | Some e \<Rightarrow> source_ok e)"
| "source_ok (EReduce f i v) = ((case f of None \<Rightarrow> True | Some e \<Rightarrow> source_ok e) \<and>
     (case i of None \<Rightarrow> True | Some e \<Rightarrow> source_ok e) \<and> (case v of None \<Rightarrow> True | Some e \<Rightarrow> source_ok e))"
| "source_ok (EZip f) = (case f of None \<Rightarrow> True | Some e \<Rightarrow> source_ok e)"
| "source_ok (ELocal f) = (case f of None \<Rightarrow> True | Some e \<Rightarrow> source_ok e)"
| "source_ok (EWrite f) = (case f of None \<Rightarrow> True | Some e \<Rightarrow> source_ok e)"
| "cases_ok [] = True"
| "cases_ok (GuardCase c r ow # cs) = ((ow \<longrightarrow> cs = []) \<and>
     (case c of None \<Rightarrow> True | Some e \<Rightarrow> source_ok e) \<and> (case r of None \<Rightarrow> True | Some e \<Rightarrow> source_ok e) \<and> cases_ok cs)"

definition funcs_ok :: "func gomap \<Rightarrow> bool" where
  "funcs_ok F \<longleftrightarrow> list_all (\<lambda>(nm, def). source_ok (f_Body def)) F"

subsection \<open>Lowering is sound\<close>

lemma source_ok_function:
  "funcs_ok F \<Longrightarrow> map_of F nm = Some def \<Longrightarrow> source_ok (f_Body def)"
  by (auto simp: funcs_ok_def list_all_iff dest!: map_of_SomeD)

lemma wantVal_Inr [simp]: "wantVal err x = Inr z \<longleftrightarrow> x = (LVal (fst z), snd z)"
  by (auto simp: wantVal_def split: prod.splits lowered.splits)

lemma case_struct_Inr:
  "(case s of SymStruct fs \<Rightarrow> f fs | _ \<Rightarrow> Inl err) = Inr x \<longleftrightarrow> (\<exists>fs. s = SymStruct fs \<and> f fs = Inr x)"
  "(case s of SymVector a t \<Rightarrow> g a t | _ \<Rightarrow> Inl err) = Inr x \<longleftrightarrow> (\<exists>a t. s = SymVector a t \<and> g a t = Inr x)"
  by (cases s; simp)+

lemma case_value_Inr:
  "(case v of VStruct m \<Rightarrow> f m | _ \<Rightarrow> Inl err) = Inr x \<longleftrightarrow> (\<exists>m. v = VStruct m \<and> f m = Inr x)"
  "(case v of VBool b \<Rightarrow> g b | _ \<Rightarrow> Inl err) = Inr x \<longleftrightarrow> (\<exists>b. v = VBool b \<and> g b = Inr x)"
  by (cases v; simp)+

lemma deref_Inr: "deref z f = Inr x \<longleftrightarrow> (\<exists>y. z = Some y \<and> f y = Inr x)"
  by (cases z) simp_all

lemma case_option_Inr:
  "(case z of None \<Rightarrow> Inl err | Some y \<Rightarrow> f y) = Inr x \<longleftrightarrow> (\<exists>y. z = Some y \<and> f y = Inr x)"
  by (cases z) simp_all

lemma wantVal_LVal: "wantVal err (LVal s, st) = Inr (s, st)"
  by simp

lemma lower_sound_all:
  "\<And>res v k d renv. lower F sv n vis env st e = Inr res \<Longrightarrow> funcs_ok F \<Longrightarrow> source_ok e \<Longrightarrow> relE r env renv \<Longrightarrow>
     eval F ord k d renv e = Inr v \<Longrightarrow> relR r (fst res) v"
  "\<And>res vs k d renv. lowerArgs F sv n vis env st es = Inr res \<Longrightarrow> funcs_ok F \<Longrightarrow> list_all source_ok es \<Longrightarrow>
     relE r env renv \<Longrightarrow> evalArgs F ord k d renv es = Inr vs \<Longrightarrow> list_all2 (denotes r) (fst res) vs"
  "\<And>res v k d renv. lowerCases F sv n vis env st cs = Inr res \<Longrightarrow> funcs_ok F \<Longrightarrow> cases_ok cs \<Longrightarrow> relE r env renv \<Longrightarrow>
     evalCases F ord k d renv cs = Inr v \<Longrightarrow> denotes r (fst res) v"
  "\<And>res rm rm' k d renv. lowerFields F sv n vis env st sfs m = Inr res \<Longrightarrow> funcs_ok F \<Longrightarrow>
     source_ok (EStructLit sfs) \<Longrightarrow> relE r env renv \<Longrightarrow> relE r m rm \<Longrightarrow>
     evalFields F ord k d renv sfs rm = Inr rm' \<Longrightarrow> relE r (fst res) rm'"
  "\<And>res v k c' vs. symCall F sv n st c args = Inr res \<Longrightarrow> funcs_ok F \<Longrightarrow> relC r c c' \<Longrightarrow>
     list_all2 (denotes r) args vs \<Longrightarrow> callClo F ord k c' vs = Inr v \<Longrightarrow> denotes r (fst res) v"
proof (induction F sv n vis env st e and F sv n vis env st es and F sv n vis env st cs
    and F sv n vis env st sfs m and F sv n st c args
    rule: lower_lowerArgs_lowerCases_lowerFields_symCall.induct)
  case (1 F sv n vis env st q)
  then show ?case by (auto intro: den_const)
next
  case (2 F sv n vis env st s)
  then show ?case by (auto intro: den_str)
next
  case (3 F sv n vis env st x)
  then show ?case by (fastforce simp: relE_def split: option.splits)
next
  case (4 F sv n vis env st nm a rk)
  then show ?case by (auto simp: refVal_def split: refKind.splits option.splits)
next
  case (5 F sv n vis env st h as)
  from "5.prems"(1) obtain h' hr st1 where h: "h = Some h'" "lower F sv n vis env st h' = Inr (hr, st1)"
    by (auto split: option.splits)
  from "5.prems"(1) h obtain kk c args st2 where hr: "hr = LFn kk c"
    and args: "lowerArgs F sv n vis env st1 as = Inr (args, st2)"
    by (auto split: lowered.splits)
  from "5.prems"(5) h obtain fv vs where ev: "eval F ord k d renv h' = Inr fv"
    "evalArgs F ord k d renv as = Inr vs" "applyFn F ord k fv vs = Inr v"
    by auto
  have "relR r hr fv"
    using "5.IH"(1) [OF h "5.prems"(2) _ "5.prems"(4) ev(1)] "5.prems"(3) h(1) by simp
  with hr obtain c' where c': "fv = VFunc kk c'" "relC r c c'" by auto
  have a: "list_all2 (denotes r) args vs"
    using "5.IH"(2) [OF h refl hr args "5.prems"(2) _ "5.prems"(4) ev(2)] "5.prems"(3) by simp
  then have l: "length args = length vs" by (rule list_all2_lengthD)
  show ?case
  proof (cases "length args = kk")
    case True
    with "5.prems"(1) h hr args obtain s st3 where s: "symCall F sv n st2 c args = Inr (s, st3)"
      "res = (LVal s, st3)" by auto
    have "denotes r s v"
      using "5.IH"(3) [OF h refl hr args refl True s(1) "5.prems"(2) c'(2) a, of k v] ev(3) c'(1) True l by simp
    with s show ?thesis by simp
  next
    case False
    with "5.prems"(1) h hr args have "length args < kk" "res = (LFn (kk - length args) (CSPartial c args), st2)"
      by (auto split: if_splits)
    with ev(3) c' l a show ?thesis by auto
  qed
next
  case (6 F sv n vis env st cs)
  then show ?case by auto
next
  case (7 F sv n vis env st sfs)
  then show ?case by (auto simp: den_struct_iff)
next
  case (8 F sv n vis env st t fld)
  from "8.prems"(1) obtain t' fs st' where t: "t = Some t'" "lower F sv n vis env st t' = Inr (LVal (SymStruct fs), st')"
    and s: "map_of fs fld \<noteq> None" "res = (LVal (the (map_of fs fld)), st')"
    by (auto simp: case_struct_Inr case_option_Inr)
  from "8.prems"(5) t(1) obtain m x where m: "eval F ord k d renv t' = Inr (VStruct m)" "map_of m fld = Some x" "v = x"
    by (auto simp: case_value_Inr case_option_Inr)
  have "relR r (LVal (SymStruct fs)) (VStruct m)"
    using "8.IH" [OF t "8.prems"(2) _ "8.prems"(4) m(1)] "8.prems"(3) t(1) by simp
  with s m show ?case by (auto simp: den_struct_iff intro: relE_field)
next
  case (9 F sv n vis env st fn i v')
  from "9.prems"(1) obtain fn' i' w self t st1 where fiv: "fn = Some fn'" "i = Some i'" "v' = Some w"
    and lw: "lower F sv n vis env st w = Inr (LVal (SymVector self t), st1)"
    by (auto simp: case_struct_Inr case_option_Inr)
  from "9.prems"(5) fiv obtain x where "eval F ord k d renv w = Inr x" by auto
  from "9.IH"(1) [OF fiv lw "9.prems"(2) _ "9.prems"(4) this] "9.prems"(3) fiv
  show ?case by (simp add: den_SymVector)
next
  case (15 F sv n vis env st e es)
  from "15.prems"(1) obtain s st1 ss st2 where s: "lower F sv n vis env st e = Inr (LVal s, st1)"
    "lowerArgs F sv n vis env st1 es = Inr (ss, st2)" "res = (s # ss, st2)"
    by auto
  from "15.prems"(5) obtain v vs' where v: "eval F ord k d renv e = Inr v" "evalArgs F ord k d renv es = Inr vs'"
    "vs = v # vs'" by (auto split: if_splits)
  show ?case
    using "15.IH"(1) [OF s(1) "15.prems"(2) _ "15.prems"(4) v(1)] "15.IH"(2) [OF s(1) wantVal_LVal refl s(2) _ _ _ v(2)] "15.prems"(2-4) s v by simp
next
  case (17 F sv n vis env st cond res' ow cs)
  show ?case
  proof (cases "cs = []")
    case True
    with "17.prems"(1) obtain r' s st' where r': "ow" "res' = Some r'"
      "lower F sv n vis env st r' = Inr (LVal s, st')" "res = (s, st')"
      by (cases res) (auto simp: case_option_Inr split: if_splits)
    with "17.prems"(5) have ev: "eval F ord k d renv r' = Inr v" by simp
    have "relR r (fst (LVal s, st')) v"
      by (rule "17.IH"(1) [OF True _ r'(2,3) "17.prems"(2) _ "17.prems"(4) ev]) (use "17.prems"(3) r' in simp_all)
    with r' show ?thesis by simp
  next
    case False
    with "17.prems"(3) have ow: "\<not> ow" and ok: "cases_ok cs" by auto
    from "17.prems"(1) False obtain acc st1 c' r' cv st2 rv st3 s where l:
      "lowerCases F sv n vis env st cs = Inr (acc, st1)" "cond = Some c'" "res' = Some r'"
      "lower F sv n vis env st1 c' = Inr (LVal cv, st2)" "lower F sv n vis env st2 r' = Inr (LVal rv, st3)"
      "iteSym cv rv acc = Inr s" "res = (s, st3)"
      by (auto simp: case_option_Inr)
    from "17.prems"(5) ow l(2,3) have "rbind (eval F ord k d renv c') (\<lambda>cv. case cv of
        VBool b \<Rightarrow> (if b then eval F ord k d renv r' else evalCases F ord k d renv cs)
      | _ \<Rightarrow> Inl CondNotBool) = Inr v"
      by (simp cong: if_cong)
    then obtain b where b: "eval F ord k d renv c' = Inr (VBool b)"
      "(if b then eval F ord k d renv r' else evalCases F ord k d renv cs) = Inr v"
      unfolding rbind_eq_Inr case_value_Inr by blast
    have c: "relR r (fst (LVal cv, st2)) (VBool b)"
      by (rule "17.IH"(3) [OF False l(1) refl l(2,3,4) "17.prems"(2) _ "17.prems"(4) b(1)])
        (use "17.prems"(3) l in simp)
    have br: "denotes r (if b then rv else acc) v"
    proof (cases b)
      case True
      with b have ev: "eval F ord k d renv r' = Inr v" by simp
      have "relR r (fst (LVal rv, st3)) v"
        by (rule "17.IH"(4) [OF False l(1) refl l(2,3,4) refl l(5) "17.prems"(2) _ "17.prems"(4) ev])
          (use "17.prems"(3) l in simp)
      with True show ?thesis by simp
    next
      case bF: False
      with b have ev: "evalCases F ord k d renv cs = Inr v" by simp
      have "denotes r (fst (acc, st1)) v"
        by (rule "17.IH"(2) [OF False l(1) "17.prems"(2) ok "17.prems"(4) ev])
      with bF show ?thesis by simp
    qed
    from iteSym_den [OF l(6) _ br] c l(7) show ?thesis by simp
  qed
next
  case (19 F sv n vis env st nm val sfs m)
  from "19.prems"(1) obtain e s st1 where e: "val = Some e" "lower F sv n vis env st e = Inr (LVal s, st1)"
    "lowerFields F sv n vis env st1 sfs (mput nm s m) = Inr res"
    by (auto split: option.splits)
  from "19.prems"(6) e(1) obtain v where v: "eval F ord k d renv e = Inr v"
    "evalFields F ord k d renv sfs (mput nm v rm) = Inr rm'"
    by (auto split: if_splits)
  have "relR r (LVal s) v" using "19.IH"(1) [OF e(1,2) "19.prems"(2) _ "19.prems"(4) v(1)] "19.prems"(3) e(1) by simp
  then show ?case
    using "19.IH"(2) [OF e(1,2) wantVal_LVal refl e(3) "19.prems"(2) _ "19.prems"(4) _ v(2)] "19.prems"(3,5)
    by (simp add: relE_mput)
next
  case (20 F sv n st op args)
  then show ?case
    by (auto simp: list_all2_Cons1 split: list.splits intro: primSym_den)
next
  case (21 F sv n st nm vis args)
  from "21.prems"(1) obtain def s st' where def: "map_of F nm = Some def" "nm \<notin> set vis"
    "\<not> length args < length (f_Params def)" "n \<noteq> 0"
    "lower F sv (n - 1) (nm # vis) (symEnv (f_Params def) args) st (f_Body def) = Inr (LVal s, st')" "res = (s, st')"
    by (cases res) (auto simp: case_option_Inr split: if_splits)
  from "21.prems"(3) obtain d where c': "c' = CUser nm d" by auto
  from "21.prems"(5) c' def have ev: "eval F ord (k - 1) (d + 1) (callEnv (f_Params def) vs) (f_Body def) = Inr v"
    by (auto split: if_splits)
  have "relR r (fst (LVal s, st')) v"
    by (rule "21.IH" [OF def(1-5) "21.prems"(2) source_ok_function [OF "21.prems"(2) def(1)]
        relE_symEnv [OF "21.prems"(4)] ev])
  with def(6) show ?case by simp
next
  case (22 F sv n st c bound rest)
  from "22.prems"(3) obtain c0 b where c': "c' = CPartial c0 b" "relC r c c0" "list_all2 (denotes r) bound b" by auto
  show ?case
    by (rule "22.IH" [OF _ "22.prems"(2) c'(2)])
      (use "22.prems" c' in \<open>auto intro: list_all2_appendI\<close>)
qed auto

lemmas lower_sound = lower_sound_all(1)
lemmas symCall_sound = lower_sound_all(5)

subsection \<open>Lowering without the write marker\<close>

text \<open>Terms that do not expose the write marker; lowering with such an environment collects no
  hypotheses, because a reduce is only accepted over the marker.\<close>

fun plain :: "sym \<Rightarrow> bool"
and plains :: "(string \<times> sym) list \<Rightarrow> bool" where
  "plain (SymVector x t) = False"
| "plain (SymStruct fs) = plains fs"
| "plain s = True"
| "plains [] = True"
| "plains ((k, s) # fs) = (plain s \<and> plains fs)"

fun plainC :: "symClo \<Rightarrow> bool" where
  "plainC (CSPartial c b) = (plainC c \<and> list_all plain b)"
| "plainC c = True"

fun plainR :: "lowered \<Rightarrow> bool" where
  "plainR (LVal s) = plain s"
| "plainR (LFn k c) = plainC c"

lemma plains_iff: "plains m \<longleftrightarrow> (\<forall>(k, s) \<in> set m. plain s)"
  by (induction m) auto

lemma plains_lookup: "plains m \<Longrightarrow> map_of m k = Some s \<Longrightarrow> plain s"
  by (auto simp: plains_iff dest: map_of_SomeD)

lemma plains_mput: "plains m \<Longrightarrow> plain s \<Longrightarrow> plains (mput k s m)"
  by (induction k s m rule: mput.induct) auto

lemma plains_mfrom: "list_all plain (map snd es) \<Longrightarrow> plains (mfrom es)"
proof -
  have "plains m \<Longrightarrow> list_all plain (map snd es) \<Longrightarrow> plains (fold (\<lambda>(k, v). mput k v) es m)" for m
    by (induction es arbitrary: m) (auto simp: plains_mput)
  then show "list_all plain (map snd es) \<Longrightarrow> plains (mfrom es)" by (simp add: mfrom_def)
qed

lemma plains_symEnv: "list_all plain args \<Longrightarrow> plains (symEnv ps args)"
  unfolding symEnv_def by (rule plains_mfrom) (auto simp: list_all_iff dest: set_zip_rightD)

lemma plain_primSym [simp]: "plain (primSym op a b)"
  by (simp add: primSym_def)

lemma plain_ite:
  "\<And>s. iteSym c a b = Inr s \<Longrightarrow> plain s"
  "\<And>hs. iteFields c fs gs = Inr hs \<Longrightarrow> plains hs"
proof (induction c a b and c fs gs rule: iteSym_iteFields.induct)
  case (1 c a b)
  then show ?case by (cases a; cases b) (auto simp: iteSym.simps isStruct_def)
qed (auto split: option.splits)

lemma plain_symVar:
  "plain (fst (symVarOf p t))"
  "plains acc \<Longrightarrow> plains (fst (symVarFields p i ts acc))"
  by (induction p t and p i ts acc rule: symVarOf_symVarFields.induct) (auto split: prod.splits simp: plains_mput)

lemma lower_plain_all:
  "\<And>res. lower F sv n vis env st e = Inr res \<Longrightarrow> plains env \<Longrightarrow> plainR (fst res) \<and> snd res = st"
  "\<And>res. lowerArgs F sv n vis env st es = Inr res \<Longrightarrow> plains env \<Longrightarrow> list_all plain (fst res) \<and> snd res = st"
  "\<And>res. lowerCases F sv n vis env st cs = Inr res \<Longrightarrow> plains env \<Longrightarrow> plain (fst res) \<and> snd res = st"
  "\<And>res. lowerFields F sv n vis env st sfs m = Inr res \<Longrightarrow> plains env \<Longrightarrow> plains m \<Longrightarrow> plains (fst res) \<and> snd res = st"
  "\<And>res. symCall F sv n st c args = Inr res \<Longrightarrow> plainC c \<Longrightarrow> list_all plain args \<Longrightarrow> plain (fst res) \<and> snd res = st"
proof (induction F sv n vis env st e and F sv n vis env st es and F sv n vis env st cs
    and F sv n vis env st sfs m and F sv n st c args
    rule: lower_lowerArgs_lowerCases_lowerFields_symCall.induct)
  case (3 F sv n vis env st x)
  then show ?case by (auto simp: case_option_Inr plains_lookup)
next
  case (4 F sv n vis env st nm a rk)
  then show ?case by (auto simp: case_option_Inr split: refKind.splits)
next
  case (5 F sv n vis env st h as)
  from "5.prems"(1) obtain h' hr st1 where h: "h = Some h'" "lower F sv n vis env st h' = Inr (hr, st1)"
    by (auto split: option.splits)
  from "5.prems"(1) h obtain kk c args st2 where hr: "hr = LFn kk c"
    and args: "lowerArgs F sv n vis env st1 as = Inr (args, st2)"
    by (auto split: lowered.splits)
  have c: "plainC c" "st1 = st" using "5.IH"(1) [OF h "5.prems"(2)] hr by simp_all
  have a: "list_all plain args" "st2 = st1" using "5.IH"(2) [OF h refl hr args "5.prems"(2)] by simp_all
  show ?case
  proof (cases "length args = kk")
    case True
    with "5.prems"(1) h hr args obtain s st3 where s: "symCall F sv n st2 c args = Inr (s, st3)"
      "res = (LVal s, st3)" by auto
    with "5.IH"(3) [OF h refl hr args refl True s(1) c(1) a(1)] c a show ?thesis by simp
  next
    case False
    with "5.prems"(1) h hr args c a show ?thesis by (auto split: if_splits)
  qed
next
  case (8 F sv n vis env st t fld)
  then show ?case by (fastforce simp: case_struct_Inr case_option_Inr dest: plains_lookup)
next
  case (9 F sv n vis env st fn i v')
  from "9.prems"(1) obtain fn' i' w self t st1 where fiv: "fn = Some fn'" "i = Some i'" "v' = Some w"
    and lw: "lower F sv n vis env st w = Inr (LVal (SymVector self t), st1)"
    by (auto simp: case_struct_Inr case_option_Inr)
  from "9.IH"(1) [OF fiv lw "9.prems"(2)] show ?case by simp
next
  case (15 F sv n vis env st e es)
  from "15.prems"(1) obtain s st1 ss st2 where s: "lower F sv n vis env st e = Inr (LVal s, st1)"
    "lowerArgs F sv n vis env st1 es = Inr (ss, st2)" "res = (s # ss, st2)"
    by auto
  with "15.IH"(1) [OF s(1) "15.prems"(2)] "15.IH"(2) [OF s(1) wantVal_LVal refl s(2) "15.prems"(2)]
  show ?case by simp
next
  case (17 F sv n vis env st cond res' ow cs)
  show ?case
  proof (cases "cs = []")
    case True
    with "17.prems"(1) obtain r' s st' where r': "ow" "res' = Some r'"
      "lower F sv n vis env st r' = Inr (LVal s, st')" "res = (s, st')"
      by (cases res) (auto simp: case_option_Inr split: if_splits)
    with "17.IH"(1) [OF True _ r'(2,3) "17.prems"(2)] show ?thesis by simp
  next
    case False
    from "17.prems"(1) False obtain acc st1 c' r' cv st2 rv st3 s where l:
      "lowerCases F sv n vis env st cs = Inr (acc, st1)" "cond = Some c'" "res' = Some r'"
      "lower F sv n vis env st1 c' = Inr (LVal cv, st2)" "lower F sv n vis env st2 r' = Inr (LVal rv, st3)"
      "iteSym cv rv acc = Inr s" "res = (s, st3)"
      by (auto simp: case_option_Inr)
    from "17.IH"(2) [OF False l(1) "17.prems"(2)] "17.IH"(3) [OF False l(1) refl l(2,3,4) "17.prems"(2)]
      "17.IH"(4) [OF False l(1) refl l(2,3,4) refl l(5) "17.prems"(2)] plain_ite(1) [OF l(6)] l(7)
    show ?thesis by simp
  qed
next
  case (19 F sv n vis env st nm val sfs m)
  from "19.prems"(1) obtain e s st1 where e: "val = Some e" "lower F sv n vis env st e = Inr (LVal s, st1)"
    "lowerFields F sv n vis env st1 sfs (mput nm s m) = Inr res"
    by (auto split: option.splits)
  with "19.IH"(1) [OF e(1,2) "19.prems"(2)] "19.IH"(2) [OF e(1,2) wantVal_LVal refl e(3) "19.prems"(2)] "19.prems"(3)
  show ?case by (simp add: plains_mput)
next
  case (20 F sv n st op args)
  then show ?case by (auto split: list.splits)
next
  case (21 F sv n st nm vis args)
  from "21.prems"(1) obtain def s st' where def: "map_of F nm = Some def" "nm \<notin> set vis"
    "\<not> length args < length (f_Params def)" "n \<noteq> 0"
    "lower F sv (n - 1) (nm # vis) (symEnv (f_Params def) args) st (f_Body def) = Inr (LVal s, st')" "res = (s, st')"
    by (cases res) (auto simp: case_option_Inr split: if_splits)
  from "21.IH" [OF def(1-5) plains_symEnv [OF "21.prems"(3)]] def(6) show ?case by simp
next
  case (22 F sv n st c bound rest)
  then show ?case by simp
qed auto

lemmas lower_plain = lower_plain_all(1)
lemmas symCall_plain = lower_plain_all(5)

end
