(* ===== verification/SmtSound.thy ===== *)
theory SmtSound
  imports SymSound
begin

text \<open>
  Soundness of the prover, second part: the SMT-LIB meaning of serialized terms. \<open>den_seval\<close>: where
  it is defined, it is the image of the runtime value (\<open>corr\<close>). \<open>leafEqs_equal\<close>: if the leaf
  equations of two terms are true, the values they mean are equal, when the left term lists every
  field of their type (\<open>shaped\<close>).
\<close>

subsection \<open>Serialization is faithful\<close>

fun corr :: "rtVal \<Rightarrow> smtVal \<Rightarrow> bool" where
  "corr (VNum q) w = (w = SR (of_rat q))"
| "corr (VStr s) w = (lit_ok s \<and> w = SS (go_runes s))"
| "corr (VBool b) w = (w = SB b)"
| "corr v w = False"

definition matches :: "(string \<Rightarrow> rtVal option) \<Rightarrow> (string \<Rightarrow> smtVal option) \<Rightarrow> bool" where
  "matches r I \<longleftrightarrow> I ''|struct-not-flattened|'' = None \<and>
     (\<forall>nm w. I nm = Some w \<longrightarrow> (\<exists>v. r nm = Some v \<and> corr v w))"

lemma seval_app2:
  "seval I (SmtApp f [s, t]) = Some w \<longleftrightarrow>
    (\<exists>a b. seval I s = Some a \<and> seval I t = Some b \<and> sapp f [a, b] = Some w)"
  by (cases "seval I s"; cases "seval I t") (auto simp: Let_def)

lemma seval_app3:
  "seval I (SmtApp f [s, t, u]) = Some w \<longleftrightarrow>
    (\<exists>a b c. seval I s = Some a \<and> seval I t = Some b \<and> seval I u = Some c \<and> sapp f [a, b, c] = Some w)"
  by (cases "seval I s"; cases "seval I t"; cases "seval I u") (auto simp: Let_def)

declare seval.simps(4) [simp del]

lemma corr_E:
  assumes "corr v w"
  obtains (num) q where "v = VNum q" "w = SR (of_rat q)"
  | (str) s where "v = VStr s" "w = SS (go_runes s)" "lit_ok s"
  | (bool) b where "v = VBool b" "w = SB b"
  using assms by (cases v) auto

lemma string_eq_runes: "lit_ok s \<Longrightarrow> lit_ok t \<Longrightarrow> s = t \<longleftrightarrow> go_runes s = go_runes t"
  unfolding lit_ok_def by (metis string_of_go_runes)

lemma string_less_runes: "lit_ok s \<Longrightarrow> lit_ok t \<Longrightarrow> s < t \<longleftrightarrow> go_runes s < go_runes t"
  unfolding lit_ok_def by (simp add: valid_utf8_order)

lemma string_le_runes: "lit_ok s \<Longrightarrow> lit_ok t \<Longrightarrow> s \<le> t \<longleftrightarrow> go_runes s \<le> go_runes t"
  using string_less_runes [of t s] by (simp add: linorder_not_less [symmetric])

lemma primOp_cases:
  assumes "primOp op = Inr f"
  shows "op \<in> {''+'', ''*'', ''-'', ''max'', ''min'', ''>'', ''<'', ''>='', ''<='', ''=='', ''/=''}"
  using assms by (auto simp: primOp_def split: if_splits)

lemma primVal_op: "primVal op x y = Some v \<Longrightarrow>
    op \<in> {''+'', ''*'', ''-'', ''max'', ''min'', ''>'', ''<'', ''>='', ''<='', ''=='', ''/=''}"
  using primOp_cases by (auto simp: primVal_def split: sum.splits)

text \<open>The primitives on numbers and on strings.\<close>

lemma primVal_num:
  "primVal ''+'' (VNum a) (VNum b) = Some (VNum (a + b))"
  "primVal ''*'' (VNum a) (VNum b) = Some (VNum (a * b))"
  "primVal ''-'' (VNum a) (VNum b) = Some (VNum (a - b))"
  "primVal ''max'' (VNum a) (VNum b) = Some (VNum (if b \<le> a then a else b))"
  "primVal ''min'' (VNum a) (VNum b) = Some (VNum (if a \<le> b then a else b))"
  "primVal ''>'' (VNum a) (VNum b) = Some (VBool (a > b))"
  "primVal ''<'' (VNum a) (VNum b) = Some (VBool (a < b))"
  "primVal ''>='' (VNum a) (VNum b) = Some (VBool (a \<ge> b))"
  "primVal ''<='' (VNum a) (VNum b) = Some (VBool (a \<le> b))"
  "primVal ''=='' (VNum a) (VNum b) = Some (VBool (a = b))"
  "primVal ''/='' (VNum a) (VNum b) = Some (VBool (a \<noteq> b))"
  by (simp_all add: primVal_def primOp_def)

lemma primVal_str:
  "primVal ''>'' (VStr a) (VStr b) = Some (VBool (a > b))"
  "primVal ''<'' (VStr a) (VStr b) = Some (VBool (a < b))"
  "primVal ''>='' (VStr a) (VStr b) = Some (VBool (a \<ge> b))"
  "primVal ''<='' (VStr a) (VStr b) = Some (VBool (a \<le> b))"
  "primVal ''=='' (VStr a) (VStr b) = Some (VBool (a = b))"
  "primVal ''/='' (VStr a) (VStr b) = Some (VBool (a \<noteq> b))"
  by (simp_all add: primVal_def primOp_def)

lemma primVal_Some:
  assumes "primVal op x y = Some v"
  shows "(\<exists>a b. x = VNum a \<and> y = VNum b) \<or>
    (\<exists>a b. x = VStr a \<and> y = VStr b \<and> op \<in> {''>'', ''<'', ''>='', ''<='', ''=='', ''/=''})"
  using assms primVal_op [OF assms]
  by (cases x; cases y)
    (auto simp: primVal_def primOp_def arith_def asNum_def cmpOp_def compareVals_def split: if_splits)

lemma sapp_num: "sapp f [SR x, SR y] = (if f = ''and'' then None else sappNum f x y)"
  by (simp add: sapp_def)

lemma sapp_str: "sapp f [SS x, SS y] = (if f = ''and'' then None else sappStr f x y)"
  by (simp add: sapp_def)

lemma sapp_ite: "sapp ''ite'' [c, SR x, SR y] = Some w \<longleftrightarrow> (\<exists>t. c = SB t \<and> w = SR (if t then x else y))"
  by (cases c) (auto simp: sapp_def same_sort_def)

text \<open>The meanings of an operand of a primitive.\<close>

definition numAt :: "(string \<Rightarrow> smtVal option) \<Rightarrow> sym \<Rightarrow> rat \<Rightarrow> bool" where
  "numAt I a q \<longleftrightarrow> (\<forall>u. seval I (serialize a) = Some u \<longrightarrow> u = SR (of_rat q))"

definition strAt :: "(string \<Rightarrow> smtVal option) \<Rightarrow> sym \<Rightarrow> string \<Rightarrow> bool" where
  "strAt I a s \<longleftrightarrow> lit_ok s \<and> (\<forall>u. seval I (serialize a) = Some u \<longrightarrow> u = SS (go_runes s))"

lemma num_app:
  assumes "numAt I a x" "numAt I b y" "seval I (SmtApp f [serialize a, serialize b]) = Some u"
  shows "sappNum f (of_rat x) (of_rat y) = Some u"
  using assms by (auto simp: seval_app2 sapp_num numAt_def split: if_splits)

lemma str_app:
  assumes "strAt I a x" "strAt I b y" "seval I (SmtApp f [serialize a, serialize b]) = Some u"
  shows "sappStr f (go_runes x) (go_runes y) = Some u"
  using assms by (auto simp: seval_app2 sapp_str strAt_def split: if_splits)

lemma num_ite:
  assumes a: "numAt I a x" "numAt I b y"
    and v: "seval I (SmtApp ''ite'' [SmtApp g [serialize a, serialize b], serialize a, serialize b]) = Some u"
  shows "\<exists>c. sappNum g (of_rat x) (of_rat y) = Some (SB c) \<and> u = SR (if c then of_rat x else of_rat y)"
proof -
  from v obtain c p q where c: "seval I (SmtApp g [serialize a, serialize b]) = Some c"
    "seval I (serialize a) = Some p" "seval I (serialize b) = Some q" "sapp ''ite'' [c, p, q] = Some u"
    by (auto simp: seval_app3)
  with a have "p = SR (of_rat x)" "q = SR (of_rat y)" by (auto simp: numAt_def)
  with c(4) num_app [OF a c(1)] show ?thesis by (auto simp: sapp_ite)
qed

lemma binOp_cases:
  assumes "primVal op x y = Some v" "op \<notin> set cmpOpNames"
  obtains "op = ''+''" | "op = ''*''" | "op = ''-''" | "op = ''max''" | "op = ''min''"
proof -
  have "op \<in> {''+'', ''*'', ''-'', ''max'', ''min''}"
    using primVal_op [OF assms(1)] assms(2) by (elim insertE) (simp_all add: cmpOpNames_def)
  then show ?thesis using that by blast
qed

lemma num_bin_corr:
  assumes p: "primVal op (VNum x) (VNum y) = Some v" "op \<notin> set cmpOpNames"
    and v: "seval I (serialize (SymBin op a b)) = Some w" and a: "numAt I a x" "numAt I b y"
  shows "corr v w"
  using p
proof (cases rule: binOp_cases)
    case 1
    with v num_app [OF a, of op] have "sappNum op (of_rat x) (of_rat y) = Some w" by simp
    with 1 p show ?thesis by (auto simp: primVal_num sappNum_def of_rat_add)
  next
    case 2
    with v num_app [OF a, of op] have "sappNum op (of_rat x) (of_rat y) = Some w" by simp
    with 2 p show ?thesis by (auto simp: primVal_num sappNum_def of_rat_mult)
  next
    case 3
    with v num_app [OF a, of op] have "sappNum op (of_rat x) (of_rat y) = Some w" by simp
    with 3 p show ?thesis by (auto simp: primVal_num sappNum_def of_rat_diff)
  next
    case 4
    with v num_ite [OF a, of "''>=''" w] obtain c where
      "sappNum ''>='' (of_rat x) (of_rat y) = Some (SB c)" "w = SR (if c then of_rat x else of_rat y)"
      by auto
    with 4 p show ?thesis by (auto simp: primVal_num sappNum_def of_rat_less_eq)
  next
    case 5
    with v num_ite [OF a, of "''<=''" w] obtain c where
      "sappNum ''<='' (of_rat x) (of_rat y) = Some (SB c)" "w = SR (if c then of_rat x else of_rat y)"
      by auto
    with 5 p show ?thesis by (auto simp: primVal_num sappNum_def of_rat_less_eq)
qed

definition cmpSem :: "string \<Rightarrow> 'a::linorder \<Rightarrow> 'a \<Rightarrow> bool" where
  "cmpSem op x y =
     (if op = ''>'' then y < x else if op = ''<'' then x < y else if op = ''>='' then y \<le> x
      else if op = ''<='' then x \<le> y else if op = ''=='' then x = y else x \<noteq> y)"

lemma cmpOpNames_cases: "op \<in> set cmpOpNames \<longleftrightarrow>
    op = ''>'' \<or> op = ''<'' \<or> op = ''>='' \<or> op = ''<='' \<or> op = ''=='' \<or> op = ''/=''"
  by (auto simp: cmpOpNames_def)

lemma primVal_cmp:
  assumes "op \<in> set cmpOpNames"
  shows "primVal op (VNum x) (VNum y) = Some (VBool (cmpSem op x y))"
    "primVal op (VStr s) (VStr t) = Some (VBool (cmpSem op s t))"
  using assms unfolding cmpOpNames_cases
  by (elim disjE; simp add: primVal_num primVal_str cmpSem_def)+

lemma cmpSem_simps:
  "cmpSem ''>'' x y = (y < x)" "cmpSem ''<'' x y = (x < y)" "cmpSem ''>='' x y = (y \<le> x)"
  "cmpSem ''<='' x y = (x \<le> y)" "cmpSem ''=='' x y = (x = y)" "cmpSem ''/='' x y = (x \<noteq> y)"
  by (simp_all add: cmpSem_def)

lemma serialize_order:
  assumes "op \<in> {''>'', ''<'', ''>='', ''<=''}"
  shows "serialize (SymCmp op a b) =
    (if sort_of a = SortStr \<or> sort_of b = SortStr
     then SmtApp (if op = ''<'' \<or> op = ''>'' then ''str.<'' else ''str.<='')
       (if op = ''<'' \<or> op = ''<='' then [serialize a, serialize b] else [serialize b, serialize a])
     else SmtApp op [serialize a, serialize b])"
  using assms by (elim insertE emptyE) simp_all

lemma cmpOp_split:
  assumes "op \<in> set cmpOpNames"
  obtains "op = ''==''" | "op = ''/=''" | "op \<in> {''>'', ''<'', ''>='', ''<=''}"
proof -
  have "op = ''=='' \<or> op = ''/='' \<or> op \<in> {''>'', ''<'', ''>='', ''<=''}"
    using assms unfolding cmpOpNames_cases by (elim disjE) simp_all
  then show ?thesis using that by blast
qed

lemma num_order_corr:
  assumes "op \<in> {''>'', ''<'', ''>='', ''<=''}" and "sappNum op (of_rat x) (of_rat y) = Some w"
  shows "w = SB (cmpSem op x y)"
  using assms by (elim insertE emptyE) (auto simp: sappNum_def cmpSem_simps of_rat_less of_rat_less_eq)

lemma num_cmp_corr:
  assumes op: "op \<in> set cmpOpNames"
    and v: "seval I (serialize (SymCmp op a b)) = Some w" and a: "numAt I a x" "numAt I b y"
  shows "w = SB (cmpSem op x y)"
  using op
proof (cases rule: cmpOp_split)
  case 1
  with v have "seval I (SmtApp ''='' [serialize a, serialize b]) = Some w" by simp
  from num_app [OF a this] 1 show ?thesis by (simp add: sappNum_def cmpSem_simps)
next
  case 2
  with v have "seval I (SmtApp ''distinct'' [serialize a, serialize b]) = Some w" by simp
  from num_app [OF a this] 2 show ?thesis by (simp add: sappNum_def cmpSem_simps)
next
  case 3
  show ?thesis
  proof (cases "sort_of a = SortStr \<or> sort_of b = SortStr")
    case True
    define f where "f = (if op = ''<'' \<or> op = ''>'' then ''str.<'' else ''str.<='')"
    from True v have "seval I (SmtApp f (if op = ''<'' \<or> op = ''<='' then [serialize a, serialize b]
        else [serialize b, serialize a])) = Some w"
      unfolding serialize_order [OF 3] f_def by simp
    then have "sappNum f (of_rat x) (of_rat y) = Some w \<or> sappNum f (of_rat y) (of_rat x) = Some w"
      using num_app [OF a] num_app [OF a(2,1)] by (auto split: if_splits)
    moreover have "f = ''str.<'' \<or> f = ''str.<=''" by (simp add: f_def)
    then have "sappNum f p q = None" for p q :: real
      by (elim disjE) (simp_all add: sappNum_def)
    ultimately show ?thesis by simp
  next
    case False
    with v have "seval I (SmtApp op [serialize a, serialize b]) = Some w"
      unfolding serialize_order [OF 3] by simp
    from num_order_corr [OF 3 num_app [OF a this]] show ?thesis .
  qed
qed

lemma str_cmp_corr:
  assumes op: "op \<in> set cmpOpNames"
    and v: "seval I (serialize (SymCmp op a b)) = Some w" and a: "strAt I a x" "strAt I b y"
  shows "w = SB (cmpSem op x y)"
  using op
proof (cases rule: cmpOp_split)
  case 1
  with v have "seval I (SmtApp ''='' [serialize a, serialize b]) = Some w" by simp
  from str_app [OF a this] 1 a show ?thesis by (simp add: sappStr_def cmpSem_simps strAt_def string_eq_runes)
next
  case 2
  with v have "seval I (SmtApp ''distinct'' [serialize a, serialize b]) = Some w" by simp
  from str_app [OF a this] 2 a show ?thesis by (simp add: sappStr_def cmpSem_simps strAt_def string_eq_runes)
next
  case 3
  have l: "lit_ok x" "lit_ok y" using a by (auto simp: strAt_def)
  define f where "f = (if op = ''<'' \<or> op = ''>'' then ''str.<'' else ''str.<='')"
  show ?thesis
  proof (cases "sort_of a = SortStr \<or> sort_of b = SortStr")
    case True
    from True v have "seval I (SmtApp f (if op = ''<'' \<or> op = ''<='' then [serialize a, serialize b]
        else [serialize b, serialize a])) = Some w"
      unfolding serialize_order [OF 3] f_def by simp
    then have "(op = ''<'' \<or> op = ''<='') \<and> sappStr f (go_runes x) (go_runes y) = Some w \<or>
        \<not> (op = ''<'' \<or> op = ''<='') \<and> sappStr f (go_runes y) (go_runes x) = Some w"
      using str_app [OF a] str_app [OF a(2,1)] by (auto split: if_splits)
    then show ?thesis using 3 l
      by (elim insertE emptyE) (simp_all add: f_def sappStr_def cmpSem_simps string_less_runes string_le_runes)
  next
    case False
    with v have "seval I (SmtApp op [serialize a, serialize b]) = Some w"
      unfolding serialize_order [OF 3] by simp
    from str_app [OF a this] 3 show ?thesis by (elim insertE emptyE) (simp_all add: sappStr_def)
  qed
qed

lemma cmp_defined:
  assumes "op \<in> set cmpOpNames" and "seval I (serialize (SymCmp op a b)) = Some w"
  shows "\<exists>u. seval I (serialize a) = Some u" and "\<exists>u. seval I (serialize b) = Some u"
proof -
  have "\<exists>f p q. serialize (SymCmp op a b) = SmtApp f [serialize p, serialize q] \<and> (p = a \<and> q = b \<or> p = b \<and> q = a)"
    using assms(1)
  proof (cases rule: cmpOp_split)
    case 3
    then show ?thesis unfolding serialize_order [OF 3] by auto
  qed auto
  with assms(2) show "\<exists>u. seval I (serialize a) = Some u" "\<exists>u. seval I (serialize b) = Some u"
    by (auto simp: seval_app2 simp del: serialize.simps)
qed

text \<open>Where the serialized term has a meaning, it is the runtime value.\<close>

lemma den_seval:
  "denotes r s v \<Longrightarrow> matches r I \<Longrightarrow> seval I (serialize s) = Some w \<Longrightarrow> corr v w"
proof (induction arbitrary: w rule: denotes.induct)
  case (den_var nm v k)
  then show ?case by (force simp: matches_def)
next
  case (den_bin a x b y op v)
  then obtain p q where xy: "x = VNum p" "y = VNum q"
    using primVal_Some [OF den_bin(4)] by (auto simp: cmpOpNames_def)
  show ?case
    using num_bin_corr [OF den_bin(4) [unfolded xy] den_bin(3) den_bin.prems(2)] den_bin.IH den_bin.prems(1) xy
    by (simp add: numAt_def)
next
  case (den_cmp a x b y op v)
  note IH = den_cmp.IH [OF den_cmp.prems(1)]
  from primVal_Some [OF den_cmp(4)] show ?case
  proof (elim disjE exE conjE)
    fix p q assume xy: "x = VNum p" "y = VNum q"
    with IH have "numAt I a p" "numAt I b q" by (auto simp: numAt_def)
    from num_cmp_corr [OF den_cmp(3) den_cmp.prems(2) this] den_cmp(3,4) xy
    show ?thesis by (auto simp: primVal_cmp)
  next
    fix p q assume xy: "x = VStr p" "y = VStr q"
    have "strAt I a p" "strAt I b q"
      using cmp_defined [OF den_cmp(3) den_cmp.prems(2)] IH xy by (auto simp: strAt_def)
    from str_cmp_corr [OF den_cmp(3) den_cmp.prems(2) this] den_cmp(3,4) xy
    show ?thesis by (auto simp: primVal_cmp)
  qed
next
  case (den_ite c t a b v)
  from den_ite.prems(2) obtain cw x y where c: "seval I (serialize c) = Some cw" "seval I (serialize a) = Some x"
    "seval I (serialize b) = Some y" "sapp ''ite'' [cw, x, y] = Some w"
    by (auto simp: seval_app3)
  with den_ite.IH(1) [OF den_ite.prems(1) c(1)] have "w = (if t then x else y)"
    by (auto simp: sapp_def split: if_splits smtVal.splits)
  with den_ite.IH(2) [OF den_ite.prems(1), of w] c show ?case by (simp split: if_splits)
qed (auto simp: matches_def lit_ok_def smt_chars_id)

subsection \<open>Equality of values is equality of their leaves\<close>

text \<open>A term that lists every field of the element type.\<close>

fun shaped :: "elemT \<Rightarrow> sym \<Rightarrow> bool"
and shapedFields :: "(string \<times> elemT) list \<Rightarrow> (string \<times> sym) list \<Rightarrow> bool" where
  "shaped (TStruct nm ts) s = (case s of SymStruct fs \<Rightarrow> shapedFields ts fs | _ \<Rightarrow> False)"
| "shaped TStr s = True"
| "shaped (TNum nt) s = True"
| "shapedFields [] fs = True"
| "shapedFields ((k, t) # ts) fs =
     ((case map_of fs k of None \<Rightarrow> False | Some s \<Rightarrow> shaped t s) \<and> shapedFields ts fs)"

lemma shapedFields_lookup:
  "shapedFields ts fs \<Longrightarrow> (k, t) \<in> set ts \<Longrightarrow> \<exists>s. map_of fs k = Some s \<and> shaped t s"
  by (induction ts) (auto split: option.splits)

lemma leafEqsFields_lookup:
  "leafEqsFields fs gs = Some es \<Longrightarrow> map_of fs k = Some l \<Longrightarrow>
    \<exists>r es'. map_of gs k = Some r \<and> leafEqs l r = Some es' \<and> set es' \<subseteq> set es"
  by (induction fs arbitrary: es) (fastforce split: option.splits if_splits)+

lemma corr_inj: "corr v w \<Longrightarrow> corr v' w \<Longrightarrow> v = v'"
  by (elim corr_E) (auto simp: string_eq_runes)

lemma sapp_eq_True: "sapp ''='' [x, y] = Some (SB True) \<Longrightarrow> x = y"
  by (cases x; cases y) (simp_all add: sapp_def sappNum_def sappStr_def sappBool_def)

lemma seval_eq_True: "seval I (SmtApp ''='' [s, t]) = Some (SB True) \<Longrightarrow> \<exists>w. seval I s = Some w \<and> seval I t = Some w"
  by (auto simp: seval_app2 dest: sapp_eq_True)

lemma scalar_equal:
  assumes "matches r I" "denotes r l v" "denotes r u w" "\<not> (\<exists>m. v = VStruct m)" "leafEqs l u = Some es"
    "\<forall>e \<in> set es. seval I e = Some (SB True)"
  shows "v = w"
proof -
  have "es = [SmtApp ''='' [serialize l, serialize u]]"
    using assms(2-5) by (cases l; cases u) (auto simp: den_struct_iff)
  with assms(6) obtain x where "seval I (serialize l) = Some x" "seval I (serialize u) = Some x"
    by (auto dest!: seval_eq_True)
  with den_seval [OF assms(2,1)] den_seval [OF assms(3,1)] show ?thesis by (auto intro: corr_inj)
qed

lemma leafEqs_equal:
  assumes "matches r I"
  shows "denotes r l v \<Longrightarrow> denotes r u w \<Longrightarrow> leafEqs l u = Some es \<Longrightarrow> \<forall>e \<in> set es. seval I e = Some (SB True) \<Longrightarrow>
    conforms t v \<Longrightarrow> conforms t w \<Longrightarrow> shaped t l \<Longrightarrow> v = w"
proof (induction t arbitrary: l u v w es)
  case (TStruct nm ts)
  from TStruct.prems(7) obtain fs where fs: "l = SymStruct fs" "shapedFields ts fs"
    by (auto split: sym.splits)
  from TStruct.prems(5,6) obtain m m' where m: "v = VStruct m" "wfm m" "set (mkeys m) = set (map fst ts)" "conforms_fields ts m"
    and m': "w = VStruct m'" "wfm m'" "set (mkeys m') = set (map fst ts)" "conforms_fields ts m'"
    by (elim conforms_TStructE)
  have "map_of m k = map_of m' k" for k
  proof (cases "k \<in> set (map fst ts)")
    case True
    then obtain t where kt: "(k, t) \<in> set ts" by auto
    from shapedFields_lookup [OF fs(2) kt] obtain s where s: "map_of fs k = Some s" "shaped t s" by blast
    from m(4) m'(4) kt obtain x y where xy: "map_of m k = Some x" "conforms t x" "map_of m' k = Some y" "conforms t y"
      by (fastforce simp: conforms_fields_iff)
    show ?thesis
    proof (cases "\<exists>gs. u = SymStruct gs")
      case True
      then obtain gs where gs: "u = SymStruct gs" by blast
      from TStruct.prems(3) fs(1) gs have "leafEqsFields fs gs = Some es" by simp
      from leafEqsFields_lookup [OF this s(1)] obtain r' es' where r': "map_of gs k = Some r'" "leafEqs s r' = Some es'"
        "set es' \<subseteq> set es" by blast
      have d: "denotes r s x" "denotes r r' y"
        using TStruct.prems(1,2) fs(1) gs m(1) m'(1) s(1) r'(1) xy by (auto simp: den_struct_iff intro: relE_field)
      have "x = y"
        by (rule TStruct.IH [OF kt _ d r'(2) _ xy(2,4) s(2)]) (use r'(3) TStruct.prems(4) in \<open>auto simp: snds.intros\<close>)
      with xy show ?thesis by simp
    next
      case False
      with TStruct.prems(3) fs(1) have "es = [SmtApp ''='' [serialize (SymStruct fs), serialize u]]" by (cases u) auto
      with TStruct.prems(4) have "seval I (SmtApp ''='' [SmtId ''|struct-not-flattened|'', serialize u]) = Some (SB True)" by simp
      with assms show ?thesis by (auto dest!: seval_eq_True simp: matches_def)
    qed
  next
    case False
    with m(3) m'(3) show ?thesis by (metis domIff set_mkeys)
  qed
  then have "m = m'" using m m' by (intro wfm_ext) auto
  with m m' show ?case by simp
next
  case TStr
  then show ?case using scalar_equal [OF assms TStr.prems(1,2) _ TStr.prems(3,4)] by (elim conforms_TStrE) auto
next
  case (TNum nt)
  then show ?case using scalar_equal [OF assms TNum.prems(1,2) _ TNum.prems(3,4)] by (elim conforms_TNumE) auto
qed

end
