(* ===== verification/Semilattice.thy ===== *)
theory Semilattice
  imports NumType GoMap
begin

text \<open>
  The contract of a merge function: on a set of values it is closed, commutative, associative and
  idempotent (the laws prover/prover.go discharges). What follows from it is proved once here: the
  induced order, least upper bounds of any finite collection independent of order and
  duplication, and that the slot-wise join of vectors satisfies the same contract.
\<close>

locale slot_semilattice =
  fixes E :: "'a set" and j :: "'a \<Rightarrow> 'a \<Rightarrow> 'a"
  assumes closed: "a \<in> E \<Longrightarrow> b \<in> E \<Longrightarrow> j a b \<in> E"
    and comm: "a \<in> E \<Longrightarrow> b \<in> E \<Longrightarrow> j a b = j b a"
    and assoc: "a \<in> E \<Longrightarrow> b \<in> E \<Longrightarrow> c \<in> E \<Longrightarrow> j a (j b c) = j (j a b) c"
    and idem: "a \<in> E \<Longrightarrow> j a a = a"
begin

definition le :: "'a \<Rightarrow> 'a \<Rightarrow> bool" where
  "le a b \<longleftrightarrow> j a b = b"

lemma le_refl: "a \<in> E \<Longrightarrow> le a a"
  by (simp add: le_def idem)

lemma le_antisym: "a \<in> E \<Longrightarrow> b \<in> E \<Longrightarrow> le a b \<Longrightarrow> le b a \<Longrightarrow> a = b"
  by (metis le_def comm)

lemma le_trans: "a \<in> E \<Longrightarrow> b \<in> E \<Longrightarrow> c \<in> E \<Longrightarrow> le a b \<Longrightarrow> le b c \<Longrightarrow> le a c"
  by (metis le_def assoc)

lemma le_join1: "a \<in> E \<Longrightarrow> b \<in> E \<Longrightarrow> le a (j a b)"
  by (metis le_def assoc idem)

lemma le_join2: "a \<in> E \<Longrightarrow> b \<in> E \<Longrightarrow> le b (j a b)"
  by (metis le_join1 comm)

lemma join_least: "a \<in> E \<Longrightarrow> b \<in> E \<Longrightarrow> c \<in> E \<Longrightarrow> le a c \<Longrightarrow> le b c \<Longrightarrow> le (j a b) c"
  by (metis le_def assoc)

text \<open>Merging a sequence of values, as a replica merges the snapshots it receives.\<close>

definition joins :: "'a \<Rightarrow> 'a list \<Rightarrow> 'a" where
  "joins x ys = foldl j x ys"

lemma joins_closed: "x \<in> E \<Longrightarrow> set ys \<subseteq> E \<Longrightarrow> joins x ys \<in> E"
  by (induction ys arbitrary: x) (auto simp: joins_def closed)

lemma joins_upper:
  "x \<in> E \<Longrightarrow> set ys \<subseteq> E \<Longrightarrow> y \<in> insert x (set ys) \<Longrightarrow> le y (joins x ys)"
proof (induction ys arbitrary: x y)
  case Nil
  then show ?case by (simp add: joins_def le_refl)
next
  case (Cons z zs)
  then have E: "x \<in> E" "z \<in> E" "j x z \<in> E" "joins (j x z) zs \<in> E"
    using joins_closed [of "j x z" zs] by (auto simp: closed)
  have "le (j x z) (joins (j x z) zs)" using Cons.IH [of "j x z" "j x z"] Cons.prems E by simp
  then have "le x (joins (j x z) zs)" "le z (joins (j x z) zs)"
    using E by (metis le_trans le_join1 le_join2)+
  moreover have "le w (joins (j x z) zs)" if "w \<in> set zs" for w
    using Cons.IH [of "j x z" w] Cons.prems E that by simp
  ultimately show ?case using Cons.prems(3) by (auto simp: joins_def)
qed

lemma joins_least:
  "x \<in> E \<Longrightarrow> set ys \<subseteq> E \<Longrightarrow> u \<in> E \<Longrightarrow> le x u \<Longrightarrow> (\<And>y. y \<in> set ys \<Longrightarrow> le y u) \<Longrightarrow> le (joins x ys) u"
proof (induction ys arbitrary: x)
  case (Cons z zs)
  then have "le (j x z) u" using join_least [of x z u] by simp
  with Cons show ?case by (simp add: joins_def closed)
qed (simp add: joins_def)

text \<open>Order, grouping and duplication do not matter: only the set of values merged does.\<close>

lemma joins_set_eq:
  assumes "x \<in> E" "set ys \<subseteq> E" "x' \<in> E" "set zs \<subseteq> E"
    and "insert x (set ys) = insert x' (set zs)"
  shows "joins x ys = joins x' zs"
proof (rule le_antisym)
  show "le (joins x ys) (joins x' zs)"
    using assms joins_upper [of x' zs] by (intro joins_least joins_closed) blast+
  show "le (joins x' zs) (joins x ys)"
    using assms joins_upper [of x ys] by (intro joins_least joins_closed) blast+
qed (use assms joins_closed in auto)

end

text \<open>The lattice of numeric types is an instance: numtype's \<open>Join\<close>.\<close>

interpretation nt: slot_semilattice "UNIV :: numType set" nt_Join
  by unfold_locales (simp_all flip: sup_numType_def add: ac_simps)

subsection \<open>The slot-wise join of vectors\<close>

definition vjoin :: "('v \<Rightarrow> 'v \<Rightarrow> 'v) \<Rightarrow> 'v gomap \<Rightarrow> 'v gomap \<Rightarrow> 'v gomap" where
  "vjoin j s r = fold (\<lambda>(k, b). mput k (case map_of s k of None \<Rightarrow> b | Some a \<Rightarrow> j a b)) r s"

definition slots_in :: "'v set \<Rightarrow> 'v gomap set" where
  "slots_in E = {s. wfm s \<and> (\<forall>k v. map_of s k = Some v \<longrightarrow> v \<in> E)}"

lemma fold_put_lookup:
  "distinct (map fst r) \<Longrightarrow>
   map_of (fold (\<lambda>(k, b). mput k (g k b)) r m) k =
     (case map_of r k of None \<Rightarrow> map_of m k | Some b \<Rightarrow> Some (g k b))"
proof (induction r arbitrary: m)
  case (Cons kb r)
  obtain k0 b where "kb = (k0, b)" by (cases kb)
  moreover from this Cons.prems have "map_of r k0 = None" by (simp add: map_of_eq_None_iff)
  ultimately show ?case using Cons by (simp cong: option.case_cong)
qed simp

lemma fold_put_wfm: "wfm m \<Longrightarrow> wfm (fold (\<lambda>(k, b). mput k (g k b)) r m)"
  by (induction r arbitrary: m) auto

lemma map_of_vjoin:
  "wfm r \<Longrightarrow> map_of (vjoin j s r) k =
     (case map_of r k of None \<Rightarrow> map_of s k
      | Some b \<Rightarrow> Some (case map_of s k of None \<Rightarrow> b | Some a \<Rightarrow> j a b))"
  unfolding vjoin_def by (rule fold_put_lookup) (rule wfm_distinct)

lemma wfm_vjoin: "wfm s \<Longrightarrow> wfm (vjoin j s r)"
  unfolding vjoin_def by (rule fold_put_wfm)

lemma slots_in_wfm: "s \<in> slots_in E \<Longrightarrow> wfm s"
  by (simp add: slots_in_def)

lemma slots_inD: "s \<in> slots_in E \<Longrightarrow> map_of s k = Some v \<Longrightarrow> v \<in> E"
  by (auto simp: slots_in_def)

context slot_semilattice
begin

lemma vjoin_closed: "s \<in> slots_in E \<Longrightarrow> r \<in> slots_in E \<Longrightarrow> vjoin j s r \<in> slots_in E"
  by (auto simp: slots_in_def map_of_vjoin wfm_vjoin closed split: option.splits)

lemma vjoin_comm: "s \<in> slots_in E \<Longrightarrow> r \<in> slots_in E \<Longrightarrow> vjoin j s r = vjoin j r s"
  by (rule wfm_ext)
    (auto simp: fun_eq_iff slots_in_wfm wfm_vjoin map_of_vjoin split: option.split
      intro: comm dest: slots_inD)

lemma vjoin_assoc:
  assumes "s \<in> slots_in E" "r \<in> slots_in E" "t \<in> slots_in E"
  shows "vjoin j s (vjoin j r t) = vjoin j (vjoin j s r) t"
proof (rule wfm_ext)
  show "map_of (vjoin j s (vjoin j r t)) = map_of (vjoin j (vjoin j s r) t)"
    using assms by (auto simp: fun_eq_iff slots_in_wfm wfm_vjoin map_of_vjoin split: option.split
        intro: assoc dest: slots_inD)
qed (use assms in \<open>simp_all add: wfm_vjoin slots_in_wfm\<close>)

lemma vjoin_idem: "s \<in> slots_in E \<Longrightarrow> vjoin j s s = s"
  by (rule wfm_ext)
    (auto simp: fun_eq_iff slots_in_wfm wfm_vjoin map_of_vjoin split: option.split
      intro: idem dest: slots_inD)

end

text \<open>A vector type whose slots obey the contract: its states obey it too.\<close>

locale vector_semilattice = slot_semilattice E j for E :: "'v set" and j :: "'v \<Rightarrow> 'v \<Rightarrow> 'v"

sublocale vector_semilattice \<subseteq> vec: slot_semilattice "slots_in E" "vjoin j"
  by unfold_locales (rule vjoin_closed vjoin_comm vjoin_assoc vjoin_idem; assumption)+

context vector_semilattice
begin

lemma vec_le_iff:
  assumes "s \<in> slots_in E" "r \<in> slots_in E"
  shows "vec.le s r \<longleftrightarrow> (\<forall>k a. map_of s k = Some a \<longrightarrow> (\<exists>b. map_of r k = Some b \<and> le a b))"
    (is "_ \<longleftrightarrow> ?R")
proof
  assume "vec.le s r"
  then have eq: "map_of (vjoin j s r) k = map_of r k" for k by (simp add: vec.le_def)
  show ?R
  proof (intro allI impI)
    fix k a assume "map_of s k = Some a"
    with eq [of k] assms(2) show "\<exists>b. map_of r k = Some b \<and> le a b"
      by (cases "map_of r k") (simp_all add: map_of_vjoin slots_in_wfm le_def)
  qed
next
  assume R: ?R
  have "map_of (vjoin j s r) k = map_of r k" for k
    using assms spec [OF R, of k]
    by (cases "map_of s k") (auto simp: map_of_vjoin slots_in_wfm le_def split: option.split)
  with assms show "vec.le s r"
    unfolding vec.le_def by (intro wfm_ext) (auto simp: fun_eq_iff wfm_vjoin slots_in_wfm)
qed

end

interpretation ntv: vector_semilattice "UNIV :: numType set" nt_Join
  by unfold_locales

end
