(* ===== verification/Convergence.thy ===== *)
theory Convergence
  imports Model Semilattice
begin

text \<open>
  Strong eventual convergence of the replicas of one collection. A cluster is a family of
  replicas (crdt's \<open>VectorCRDT\<close>) created by one \<open>Model\<close>, one per node name, and the set of
  snapshots that were ever taken; an old snapshot may be delivered at any time, any number of
  times, to any replica, so loss, duplication, delay and reordering are all covered. The steps are
  the operations of Vector.thy.

  \<open>proved_type\<close> states what the builder and the prover promise for a model it admits: the merge
  function never fails on members of the element type, stays inside it and is a semilattice there,
  and every update yields a member that the merge order places above the old slot.
\<close>

subsection \<open>Models and their replicas\<close>

definition replica_of :: "model \<Rightarrow> vectorCRDT \<Rightarrow> bool" where
  "replica_of P v \<longleftrightarrow> v = (New P (v_nodeID v))\<lparr>v_state := v_state v\<rparr>"

lemma replica_of_New: "replica_of P (New P nid)"
  by (simp add: replica_of_def New_def NewVector_def)

lemma replica_of_update: "replica_of P v \<Longrightarrow> replica_of P (v\<lparr>v_state := st\<rparr>)"
  unfolding replica_of_def by (cases v) (simp add: New_def NewVector_def)

lemma mergeFn_eq: "v_merge v = v_merge u \<Longrightarrow> v_funcs v = v_funcs u \<Longrightarrow> mergeFn ord v = mergeFn ord u"
  by (simp add: mergeFn_def split: expr.split option.split)

lemma New_simps [simp]: "v_nodeID (New P nid) = nid" "v_state (New P nid) = []"
  by (simp_all add: New_def NewVector_def)

lemma replica_of_fields:
  assumes "replica_of P v"
  shows "v_elem v = mo_Elem P" "v_funcs v = mo_Funcs P" "mergeFn ord v = mergeFn ord (New P nid)"
proof -
  obtain n s where v: "v = (New P n)\<lparr>v_state := s\<rparr>" using assms replica_of_def by blast
  show "v_elem v = mo_Elem P" "v_funcs v = mo_Funcs P"
    by (simp_all add: v New_def NewVector_def)
  show "mergeFn ord v = mergeFn ord (New P nid)"
    by (rule mergeFn_eq) (simp_all add: v New_def NewVector_def)
qed

subsection \<open>Clusters\<close>

type_synonym cluster = "(string \<Rightarrow> vectorCRDT) \<times> rtVal gomap set"

inductive cluster_step :: "(rtVal gomap \<Rightarrow> rtVal gomap) \<Rightarrow> cluster \<Rightarrow> cluster \<Rightarrow> bool" for ord where
  step_update: "Apply ord (c i) act payload = (v', r) \<Longrightarrow> cluster_step ord (c, M) (c(i := v'), M)"
| step_snapshot: "Snapshot (c i) = Inr s \<Longrightarrow> cluster_step ord (c, M) (c, insert s M)"
| step_deliver: "s \<in> M \<Longrightarrow> range_order lord \<Longrightarrow> mergeRemote ord lord (c i) s = (v', r) \<Longrightarrow>
    cluster_step ord (c, M) (c(i := v'), M)"

inductive_cases cluster_stepE: "cluster_step ord (c, M) cM'"

inductive cluster_reach :: "(rtVal gomap \<Rightarrow> rtVal gomap) \<Rightarrow> model \<Rightarrow> cluster \<Rightarrow> bool" for ord P where
  reach_init: "cluster_reach ord P (New P, {})"
| reach_step: "cluster_reach ord P s \<Longrightarrow> cluster_step ord s s' \<Longrightarrow> cluster_reach ord P s'"

text \<open>Merging a list of snapshots one after the other; errors are ignored, as gossip does.\<close>

fun merge_all :: "(rtVal gomap \<Rightarrow> rtVal gomap) \<Rightarrow> (rtVal gomap \<Rightarrow> rtVal gomap) \<Rightarrow> vectorCRDT \<Rightarrow> rtVal gomap list \<Rightarrow> vectorCRDT" where
  "merge_all ord lord v [] = v"
| "merge_all ord lord v (s # ss) = merge_all ord lord (fst (mergeRemote ord lord v s)) ss"

text \<open>The table of a partial function whose keys are in a list.\<close>

definition mtab :: "(string \<Rightarrow> 'v option) \<Rightarrow> string list \<Rightarrow> 'v gomap" where
  "mtab f ks = mfrom (map (\<lambda>k. (k, the (f k))) (filter (\<lambda>k. f k \<noteq> None) (remdups ks)))"

lemma map_of_mtab:
  assumes "\<And>k. f k \<noteq> None \<Longrightarrow> k \<in> set ks"
  shows "map_of (mtab f ks) k = f k"
proof -
  have "map_of (mtab f ks) = (Some \<circ> (\<lambda>k. the (f k))) |` {k \<in> set ks. f k \<noteq> None}"
    unfolding mtab_def by (subst map_of_mfrom_distinct) (simp_all add: comp_def map_of_map_restrict)
  with assms [of k] show ?thesis by (cases "f k") (auto simp: restrict_map_def)
qed

lemma wfm_mtab: "wfm (mtab f ks)"
  by (simp add: mtab_def)

subsection \<open>The contract and what follows from it\<close>

locale proved_type =
  fixes P :: model
    and ord :: "rtVal gomap \<Rightarrow> rtVal gomap"
    and fn :: rtVal
    and J :: "rtVal \<Rightarrow> rtVal \<Rightarrow> rtVal"
  assumes elem_wf: "wf_elem (mo_Elem P)"
    and merge_fn: "mergeFn ord (New P nid) = Inr fn"
    and merge_total: "conforms (mo_Elem P) a \<Longrightarrow> conforms (mo_Elem P) b \<Longrightarrow>
      applyTop (mo_Funcs P) ord fn [a, b] = Inr (J a b)"
    and merge_closed: "conforms (mo_Elem P) a \<Longrightarrow> conforms (mo_Elem P) b \<Longrightarrow> conforms (mo_Elem P) (J a b)"
    and merge_comm: "conforms (mo_Elem P) a \<Longrightarrow> conforms (mo_Elem P) b \<Longrightarrow> J a b = J b a"
    and merge_assoc: "conforms (mo_Elem P) a \<Longrightarrow> conforms (mo_Elem P) b \<Longrightarrow> conforms (mo_Elem P) c \<Longrightarrow>
      J a (J b c) = J (J a b) c"
    and merge_idem: "conforms (mo_Elem P) a \<Longrightarrow> J a a = a"
    and update_inflates: "replica_of P v \<Longrightarrow> conforming (mo_Elem P) (v_state v) \<Longrightarrow>
      nextSlot ord v act payload = Inr x \<Longrightarrow>
      conforms (mo_Elem P) x \<and> (\<forall>old. map_of (v_state v) (v_nodeID v) = Some old \<longrightarrow> J old x = x)"

sublocale proved_type \<subseteq> vector_semilattice "{v. conforms (mo_Elem P) v}" J
  by unfold_locales (auto intro: merge_closed merge_comm merge_assoc merge_idem)

context proved_type
begin

abbreviation "D \<equiv> {v. conforms (mo_Elem P) v}"

lemma conforming_slots: "conforming (mo_Elem P) s \<longleftrightarrow> s \<in> slots_in D"
  by (force simp: conforming_def slots_in_def wfm_map_of_iff)

lemma joined_vjoin:
  assumes s: "s \<in> slots_in D" and r: "r \<in> slots_in D"
  shows "joined (\<lambda>a b. applyTop (mo_Funcs P) ord fn [a, b]) s r k = map_of (vjoin J s r) k"
    and "joinable (\<lambda>a b. applyTop (mo_Funcs P) ord fn [a, b]) s r"
proof -
  have j: "joinSlot (\<lambda>a b. applyTop (mo_Funcs P) ord fn [a, b]) a b = Inr (J a b)"
    if "map_of s k = Some a" "map_of r k = Some b" for k a b
  proof -
    have ab: "conforms (mo_Elem P) a" "conforms (mo_Elem P) b"
      using slots_inD [OF s that(1)] slots_inD [OF r that(2)] by simp_all
    have "cloneSlot (J a b) = Inr (J a b)"
      by (rule clone_storable, rule conforms_storable, rule merge_closed) (fact ab)+
    with ab show ?thesis by (simp add: joinSlot_def merge_total)
  qed
  show "joined (\<lambda>a b. applyTop (mo_Funcs P) ord fn [a, b]) s r k = map_of (vjoin J s r) k"
    using j [of k] slots_in_wfm [OF r]
    by (cases "map_of s k"; cases "map_of r k") (simp_all add: joined_def map_of_vjoin)
  show "joinable (\<lambda>a b. applyTop (mo_Funcs P) ord fn [a, b]) s r"
    unfolding joinable_def
  proof (clarify)
    fix k b a assume "(k, b) \<in> set r" "map_of s k = Some a"
    with j [of k a b] slots_in_wfm [OF r] show "rok (joinSlot (\<lambda>a b. applyTop (mo_Funcs P) ord fn [a, b]) a b)"
      by (simp add: wfm_map_of_iff)
  qed
qed

text \<open>A merge of a well-typed snapshot never fails and is the slot-wise join.\<close>

lemma merge_is_join:
  assumes v: "replica_of P v" "v_state v \<in> slots_in D" and r: "r \<in> slots_in D" and l: "range_order lord"
  shows "mergeRemote ord lord v r = (v\<lparr>v_state := vjoin J (v_state v) r\<rparr>, None)"
proof -
  let ?v' = "v\<lparr>v_state := vjoin J (v_state v) r\<rparr>"
  have f: "v_funcs v = mo_Funcs P" "mergeFn ord v = Inr fn"
    using replica_of_fields [OF v(1)] merge_fn by metis+
  have "wf_snapshot r" "wf_vector v"
    using v(2) r conforming_storable conforming_slots by (auto simp: wf_vector_def wf_snapshot_def)
  then show ?thesis
    using joined_vjoin [OF v(2) r] slots_in_wfm [OF v(2)] f
    by (simp add: mergeRemote_pointwise [OF l _ _ f(2)] wfm_vjoin)
qed

definition good :: "cluster \<Rightarrow> bool" where
  "good cM \<longleftrightarrow>
     (\<forall>i. replica_of P (fst cM i) \<and> v_nodeID (fst cM i) = i \<and> v_state (fst cM i) \<in> slots_in D) \<and>
     snd cM \<subseteq> slots_in D"

text \<open>Every copy of a slot, at a replica or in a snapshot, is below its owner's current value.\<close>

definition dominated :: "cluster \<Rightarrow> bool" where
  "dominated cM \<longleftrightarrow>
     (\<forall>s \<in> range (\<lambda>i. v_state (fst cM i)) \<union> snd cM. \<forall>k a. map_of s k = Some a \<longrightarrow>
        (\<exists>b. map_of (v_state (fst cM k)) k = Some b \<and> le a b))"

lemma Apply_good:
  assumes "replica_of P v" "v_state v \<in> slots_in D" "Apply ord v act p = (v', r)"
  shows "replica_of P v' \<and> v_nodeID v' = v_nodeID v \<and> v_state v' \<in> slots_in D \<and>
    vec.le (v_state v) (v_state v') \<and>
    (\<forall>k. k \<noteq> v_nodeID v \<longrightarrow> map_of (v_state v') k = map_of (v_state v) k)"
proof (cases "nextSlot ord v act p")
  case (Inl e)
  with assms show ?thesis by (auto simp: Apply_def vec.le_refl)
next
  case (Inr x)
  then have v': "v' = v\<lparr>v_state := mput (v_nodeID v) x (v_state v)\<rparr>"
    using assms(3) by (simp add: Apply_def)
  have x: "x \<in> D" "\<forall>old. map_of (v_state v) (v_nodeID v) = Some old \<longrightarrow> J old x = x"
    using update_inflates [OF assms(1) _ Inr] assms(2) by (auto simp: conforming_slots)
  then have s: "v_state v' \<in> slots_in D"
    using assms(2) v' by (auto simp: slots_in_def)
  have "J a a = a" if "map_of (v_state v) k = Some a" for k a
    using slots_inD [OF assms(2) that] by (rule idem)
  then have "vec.le (v_state v) (v_state v')"
    using assms(2) s x v' by (simp add: vec_le_iff le_def)
  with s v' assms(1) show ?thesis by (auto intro: replica_of_update)
qed

lemma Snapshot_good: "v_state v \<in> slots_in D \<Longrightarrow> Snapshot v = Inr s \<Longrightarrow> s = v_state v"
proof -
  assume "v_state v \<in> slots_in D" and s: "Snapshot v = Inr s"
  then have "wf_snapshot (v_state v)" using conforming_storable conforming_slots by blast
  then have "Snapshot v = Inr (v_state v)"
    unfolding Snapshot_def by (intro clonable_id storable_clonable) (simp add: wf_snapshot_def)
  with s show ?thesis by simp
qed

lemma step_good:
  assumes "good (c, M)" and "cluster_step ord (c, M) (c', M')"
  shows "good (c', M') \<and> (\<forall>i. vec.le (v_state (c i)) (v_state (c' i)))"
  using assms(2)
proof (cases rule: cluster_step.cases)
  case (step_update i act payload v' r)
  with assms(1) Apply_good [of "c i" act payload v' r] show ?thesis
    by (auto simp: good_def vec.le_refl)
next
  case (step_snapshot i s)
  with assms(1) Snapshot_good [of "c i" s] show ?thesis by (auto simp: good_def vec.le_refl)
next
  case (step_deliver s lord i v' r)
  with assms(1) have "v' = (c i)\<lparr>v_state := vjoin J (v_state (c i)) s\<rparr>"
    "s \<in> slots_in D" "v_state (c i) \<in> slots_in D"
    using merge_is_join [of "c i" s lord] by (auto simp: good_def)
  with assms(1) step_deliver show ?thesis
    by (auto simp: good_def vec.le_refl vec.le_join1 vec.closed intro: replica_of_update)
qed

lemma le_slots:
  assumes "vec.le s r" "s \<in> slots_in D" "r \<in> slots_in D" "map_of s k = Some a"
  shows "\<exists>b. map_of r k = Some b \<and> le a b \<and> a \<in> D \<and> b \<in> D"
  using assms vec_le_iff slots_inD by metis

lemma step_dominated:
  assumes g: "good (c, M)" and d: "dominated (c, M)" and st: "cluster_step ord (c, M) (c', M')"
  shows "dominated (c', M')"
proof -
  from step_good [OF g st] have g': "good (c', M')" and
    mono: "\<And>i. vec.le (v_state (c i)) (v_state (c' i))" by auto
  have sE: "v_state (c i) \<in> slots_in D" "v_state (c' i) \<in> slots_in D" for i
    using g g' by (auto simp: good_def)
  have old: "\<exists>b. map_of (v_state (c' k)) k = Some b \<and> le a b"
    if "s \<in> range (\<lambda>i. v_state (c i)) \<union> M" "map_of s k = Some a" for s k a
  proof -
    have "s \<in> slots_in D" using that(1) g by (auto simp: good_def)
    then have a: "a \<in> D" using that(2) by (rule slots_inD)
    from d that obtain b where b: "map_of (v_state (c k)) k = Some b" "le a b"
      by (force simp: dominated_def)
    with le_slots [OF mono sE(1) sE(2) b(1)] a show ?thesis using le_trans by blast
  qed
  have "\<exists>b. map_of (v_state (c' k)) k = Some b \<and> le a b"
    if s: "s \<in> range (\<lambda>i. v_state (c' i)) \<union> M'" and k: "map_of s k = Some a" for s k a
    using st
  proof (cases rule: cluster_step.cases)
    case (step_update i act payload v' r)
    show ?thesis
    proof (cases "s = v_state v' \<and> s \<noteq> v_state (c i)")
      case True
      have "\<forall>k. k \<noteq> i \<longrightarrow> map_of (v_state v') k = map_of (v_state (c i)) k"
        using Apply_good [OF _ _ step_update(3)] g by (simp add: good_def)
      with True k have other: "k \<noteq> i \<longrightarrow> map_of (v_state (c i)) k = Some a" by metis
      have i: "c' i = v'" using step_update by simp
      show ?thesis
      proof (cases "k = i")
        case True
        have "map_of (v_state (c' k)) k = Some a" using k i True \<open>s = v_state v' \<and> _\<close> by simp
        moreover from slots_inD [OF sE(2) this] have "le a a" by (rule le_refl)
        ultimately show ?thesis by blast
      next
        case False
        with other have "map_of (v_state (c i)) k = Some a" by blast
        then show ?thesis by (intro old [of "v_state (c i)"]) auto
      qed
    next
      case False
      with s step_update have "s \<in> range (\<lambda>i. v_state (c i)) \<union> M" by (auto split: if_splits)
      with k show ?thesis by (intro old)
    qed
  next
    case (step_snapshot i s')
    with Snapshot_good [of "c i" s'] sE s have "s \<in> range (\<lambda>i. v_state (c i)) \<union> M" by auto
    with k show ?thesis by (intro old)
  next
    case (step_deliver s' lord i v' r)
    then have v': "v_state v' = vjoin J (v_state (c i)) s'" and s': "s' \<in> slots_in D" "s' \<in> M"
      using merge_is_join [of "c i" s' lord] g by (auto simp: good_def)
    show ?thesis
    proof (cases "s = v_state v'")
      case True
      have b: "\<exists>b. map_of (v_state (c' k)) k = Some b \<and> b \<in> D \<and> le x b"
        if "map_of t k = Some x" "t = v_state (c i) \<or> t = s'" for t x
      proof -
        have "t \<in> range (\<lambda>i. v_state (c i)) \<union> M" using that(2) s' by auto
        from old [OF this that(1)] obtain b where b: "map_of (v_state (c' k)) k = Some b" "le x b" by blast
        with slots_inD [OF sE(2) b(1)] show ?thesis by blast
      qed
      from k True v' s' consider
          "map_of (v_state (c i)) k = Some a" | "map_of s' k = Some a"
        | x y where "map_of (v_state (c i)) k = Some x" "map_of s' k = Some y" "a = J x y"
        by (auto simp: map_of_vjoin slots_in_wfm split: option.splits)
      then show ?thesis
      proof cases
        case 3
        from b [OF 3(1)] obtain z where z: "map_of (v_state (c' k)) k = Some z" "z \<in> D" "le x z" by blast
        from b [OF 3(2)] z(1) have "le y z" by auto
        with join_least [OF slots_inD [OF sE(1) 3(1)] slots_inD [OF s'(1) 3(2)] z(2,3)] z(1) 3(3)
        show ?thesis by blast
      qed (use b in blast)+
    next
      case False
      with s step_deliver have "s \<in> range (\<lambda>i. v_state (c i)) \<union> M" by (auto split: if_splits)
      with k show ?thesis by (intro old)
    qed
  qed
  then show ?thesis by (auto simp: dominated_def)
qed

lemma New_good: "good (New P, {})" and New_dominated: "dominated (New P, {})"
  by (auto simp: good_def dominated_def replica_of_New slots_in_def)

lemma reach_invariant: "cluster_reach ord P cM \<Longrightarrow> good cM \<and> dominated cM"
proof (induction rule: cluster_reach.induct)
  case reach_init
  then show ?case using New_good New_dominated by blast
next
  case (reach_step s s')
  then show ?case using step_good step_dominated by (metis surj_pair)
qed

text \<open>A replica that has seen every owner's current value holds exactly the owners' slots.\<close>

definition complete :: "cluster \<Rightarrow> string \<Rightarrow> bool" where
  "complete cM i \<longleftrightarrow>
     (\<forall>k b. map_of (v_state (fst cM k)) k = Some b \<longrightarrow>
        (\<exists>a. map_of (v_state (fst cM i)) k = Some a \<and> le b a))"

lemma slot_in_D: "good (c, M) \<Longrightarrow> map_of (v_state (c i)) k = Some a \<Longrightarrow> a \<in> D"
  using slots_inD by (fastforce simp: good_def)

lemma dominatedE:
  assumes "dominated (c, M)" "map_of (v_state (c i)) k = Some a"
  obtains b where "map_of (v_state (c k)) k = Some b" "le a b"
  using assms by (force simp: dominated_def)

lemma merge_all_joins:
  assumes "replica_of P v" "v_state v \<in> slots_in D" "set ss \<subseteq> slots_in D" "range_order lord"
  shows "v_state (merge_all ord lord v ss) = vec.joins (v_state v) ss"
  using assms
proof (induction ss arbitrary: v)
  case (Cons s ss)
  then have m: "mergeRemote ord lord v s = (v\<lparr>v_state := vjoin J (v_state v) s\<rparr>, None)"
    using merge_is_join by simp
  have "vjoin J (v_state v) s \<in> slots_in D" using Cons.prems vec.closed by simp
  with Cons.IH [of "v\<lparr>v_state := vjoin J (v_state v) s\<rparr>"] Cons.prems m replica_of_update
  show ?case by (simp add: vec.joins_def)
qed (simp add: vec.joins_def)

lemma exchange_diag:
  assumes g: "good (c, M)" and d: "dominated (c, M)" and l: "range_order lord"
    and all: "\<And>k. map_of (v_state (c k)) k \<noteq> None \<Longrightarrow> k \<in> set xs"
  shows "map_of (v_state (merge_all ord lord (c i) (map (\<lambda>k. v_state (c k)) xs))) k =
    map_of (v_state (c k)) k"
proof -
  let ?ss = "map (\<lambda>k. v_state (c k)) xs"
  let ?u = "vec.joins (v_state (c i)) ?ss"
  have sE: "v_state (c i) \<in> slots_in D" for i using g by (simp add: good_def)
  then have ss: "set ?ss \<subseteq> slots_in D" by auto
  have eq: "v_state (merge_all ord lord (c i) ?ss) = ?u"
    using g by (intro merge_all_joins ss sE l) (simp add: good_def)
  have uE: "?u \<in> slots_in D" by (rule vec.joins_closed [OF sE ss])
  have up: "vec.le s ?u" if "s \<in> insert (v_state (c i)) (set ?ss)" for s
    by (rule vec.joins_upper [OF sE ss that])
  have low: "\<exists>b. map_of (v_state (c k)) k = Some b \<and> le a b" if "map_of ?u k = Some a" for k a
  proof -
    define diag where "diag = mtab (\<lambda>k. map_of (v_state (c k)) k) xs"
    have dl: "map_of diag k = map_of (v_state (c k)) k" for k
      unfolding diag_def by (rule map_of_mtab) (rule all)
    have dE: "diag \<in> slots_in D"
      using slot_in_D [OF g] by (auto simp: slots_in_def dl) (simp add: diag_def wfm_mtab)
    have "vec.le (v_state (c m)) diag" for m
      using sE dE dominatedE [OF d] by (force simp: vec_le_iff dl)
    then have "vec.le ?u diag" by (intro vec.joins_least sE ss dE) auto
    with le_slots [OF this uE dE that] show ?thesis by (auto simp: dl)
  qed
  show ?thesis
  proof (cases "map_of (v_state (c k)) k")
    case None
    with low [of k] show ?thesis by (cases "map_of ?u k") (auto simp: eq)
  next
    case (Some b)
    with all [of k] have "v_state (c k) \<in> insert (v_state (c i)) (set ?ss)" by auto
    from le_slots [OF up [OF this] sE uE Some] obtain a where a: "map_of ?u k = Some a" "le b a" "a \<in> D" "b \<in> D"
      by blast
    with low [OF a(1)] Some have "le a b" by simp
    with a le_antisym have "a = b" by blast
    with a Some show ?thesis by (simp add: eq)
  qed
qed

lemma merge_all_wfm:
  assumes "good (c, M)" "range_order lord"
  shows "wfm (v_state (merge_all ord lord (c i) (map (\<lambda>k. v_state (c k)) xs)))"
proof -
  have sE: "v_state (c i) \<in> slots_in D" for i using assms(1) by (simp add: good_def)
  then have "set (map (\<lambda>k. v_state (c k)) xs) \<subseteq> slots_in D" by auto
  with merge_all_joins [OF _ sE this assms(2)] vec.joins_closed [OF sE this] assms(1)
  show ?thesis using slots_in_wfm by (metis good_def fst_conv)
qed

lemma complete_diag:
  assumes g: "good (c, M)" and d: "dominated (c, M)" and i: "complete (c, M) i"
  shows "map_of (v_state (c i)) k = map_of (v_state (c k)) k"
proof (cases "map_of (v_state (c k)) k")
  case None
  show ?thesis
  proof (cases "map_of (v_state (c i)) k")
    case (Some a)
    from dominatedE [OF d Some] None show ?thesis by auto
  qed (use None in simp)
next
  case (Some b)
  with i obtain a where a: "map_of (v_state (c i)) k = Some a" "le b a" by (auto simp: complete_def)
  obtain b' where "map_of (v_state (c k)) k = Some b'" "le a b'"
    using dominatedE [OF d a(1)] .
  with Some have "le a b" by simp
  with le_antisym [OF slot_in_D [OF g a(1)] slot_in_D [OF g Some]] a Some show ?thesis by simp
qed

lemma converge:
  assumes "cluster_reach ord P (c, M)" and "range_order lord"
    and "\<And>k. map_of (v_state (c k)) k \<noteq> None \<Longrightarrow> k \<in> set xs \<and> k \<in> set ys"
  shows "v_state (merge_all ord lord (c i) (map (\<lambda>k. v_state (c k)) xs)) =
      v_state (merge_all ord lord (c j) (map (\<lambda>k. v_state (c k)) ys)) \<and>
    (\<forall>k. map_of (v_state (merge_all ord lord (c i) (map (\<lambda>k. v_state (c k)) xs))) k =
      map_of (v_state (c k)) k)"
proof -
  from reach_invariant [OF assms(1)] have g: "good (c, M)" and d: "dominated (c, M)" by auto
  note x = exchange_diag [OF g d assms(2), of xs] and y = exchange_diag [OF g d assms(2), of ys]
  have "v_state (merge_all ord lord (c i) (map (\<lambda>k. v_state (c k)) xs)) =
      v_state (merge_all ord lord (c j) (map (\<lambda>k. v_state (c k)) ys))"
    by (rule wfm_ext) (use x y assms(3) merge_all_wfm [OF g assms(2)] in \<open>auto simp: fun_eq_iff\<close>)
  with x assms(3) show ?thesis by blast
qed

lemma delivery:
  assumes "range_order lord"
    and "replica_of P u" "replica_of P v" "conforming (mo_Elem P) (v_state u)" "conforming (mo_Elem P) (v_state v)"
    and "\<And>s. s \<in> set ss \<union> set ts \<Longrightarrow> conforming (mo_Elem P) s"
    and "insert (v_state u) (set ss) = insert (v_state v) (set ts)"
  shows "v_state (merge_all ord lord u ss) = v_state (merge_all ord lord v ts)"
proof -
  have u: "v_state u \<in> slots_in D" and v: "v_state v \<in> slots_in D"
    and ss: "set ss \<subseteq> slots_in D" and ts: "set ts \<subseteq> slots_in D"
    using assms(4-6) conforming_slots by blast+
  show ?thesis
    unfolding merge_all_joins [OF assms(2) u ss assms(1)] merge_all_joins [OF assms(3) v ts assms(1)]
    by (rule vec.joins_set_eq [OF u ss v ts assms(7)])
qed

lemma invariant:
  assumes "cluster_reach ord P (c, M)"
  shows "(\<forall>i. replica_of P (c i) \<and> v_nodeID (c i) = i \<and> conforming (mo_Elem P) (v_state (c i))) \<and>
    (\<forall>s \<in> M. conforming (mo_Elem P) s \<and>
       (\<forall>i lord. range_order lord \<longrightarrow> snd (mergeRemote ord lord (c i) s) = None)) \<and>
    (\<forall>s \<in> range (\<lambda>i. v_state (c i)) \<union> M. \<forall>k a. map_of s k = Some a \<longrightarrow>
       (\<exists>b. map_of (v_state (c k)) k = Some b \<and> J a b = b))"
proof -
  from reach_invariant [OF assms] have g: "good (c, M)" and d: "dominated (c, M)" by auto
  have "snd (mergeRemote ord lord (c i) s) = None" if "s \<in> M" "range_order lord" for s i lord
    using merge_is_join [of "c i" s lord] g that by (auto simp: good_def)
  with g d show ?thesis
    unfolding conforming_slots by (auto simp: good_def dominated_def le_def)
qed

lemma monotone:
  assumes "cluster_reach ord P (c, M)" and "cluster_step ord (c, M) (c', M')"
    and "map_of (v_state (c i)) k = Some a"
  shows "\<exists>b. map_of (v_state (c' i)) k = Some b \<and> J a b = b"
proof -
  from reach_invariant [OF assms(1)] have g: "good (c, M)" by auto
  from step_good [OF g assms(2)] have g': "good (c', M')" and m: "vec.le (v_state (c i)) (v_state (c' i))"
    by auto
  from g g' have "v_state (c i) \<in> slots_in D" "v_state (c' i) \<in> slots_in D" by (simp_all add: good_def)
  with le_slots [OF m _ _ assms(3)] show ?thesis by (auto simp: le_def)
qed

end

subsection \<open>The grow-only counter of the README\<close>

definition rat0p :: numType where
  "rat0p = NumType DRat SNonNeg"

definition counter_total :: func where
  "counter_total = \<lparr> f_Name = ''total'', f_Params = [\<lparr> p_Name = ''v'', p_Type = ''T'' \<rparr>],
     f_Body = EReduce (Some (ERef ''+'' 2 RefPrimitive)) (Some (ENumLit 0)) (Some (EVar ''v'')) \<rparr>"

definition counter_add :: crdt_method where
  "counter_add = \<lparr> mt_Params = [\<lparr> p_Name = ''k'', p_Type = ''rat0+'' \<rparr>],
     mt_Body = ELocal (Some (EApp (Some (ERef ''+'' 2 RefPrimitive)) [EVar ''k''])),
     mt_Result = TypeReal, mt_ResultNum = NumType DRat SAny, mt_ResultStruct = None \<rparr>"

definition counter_value :: crdt_method where
  "counter_value = \<lparr> mt_Params = [], mt_Body = ERef ''total'' 1 RefFunction,
     mt_Result = TypeReal, mt_ResultNum = rat0p, mt_ResultStruct = None \<rparr>"

definition counter :: model where
  "counter = \<lparr> mo_Name = ''T'', mo_Elem = TNum rat0p, mo_Merge = EZip (Some (ERef ''max'' 2 RefPrimitive)),
     mo_Queries = [(''Value'', counter_value)], mo_Updates = [(''Add'', counter_add)],
     mo_Funcs = [(''total'', counter_total)] \<rparr>"

fun maxVal :: "rtVal \<Rightarrow> rtVal \<Rightarrow> rtVal" where
  "maxVal (VNum a) (VNum b) = VNum (max a b)"
| "maxVal a b = a"

lemma primOp_max: "primOp ''max'' = Inr (arith (\<lambda>a b. if rat_Cmp a b \<ge> 0 then a else b))"
  by (simp add: primOp_def)

lemma primOp_plus: "primOp ''+'' = Inr (arith (\<lambda>a b. a + b))"
  by (simp add: primOp_def)

lemma counter_merge_fn: "mergeFn ord (New counter nid) = Inr (VFunc 2 (CPrim ''max''))"
  by (simp add: mergeFn_def New_def NewVector_def counter_def evalFuncVal_def evalTop_def
      refVal_def primOp_max at_depth_def wantFn_def)

lemma rat0p_allows [simp]: "nt_Allows rat0p q \<longleftrightarrow> 0 \<le> q"
  by (simp add: rat0p_def nt_Allows_iff)

lemma param_ok_rat0p: "param_ok ''rat0+'' v \<longleftrightarrow> (\<exists>q. v = VNum q \<and> 0 \<le> q)"
  by (simp add: param_ok_def nt_Parse_def nt_Allows_iff)

lemma rat0p_num: "conforms (TNum rat0p) v \<longleftrightarrow> (\<exists>q. v = VNum q \<and> 0 \<le> q)"
  by (cases v) (auto simp: rat0p_def nt_Allows_iff)

lemma counter_apply_max:
  "applyTop F ord (VFunc 2 (CPrim ''max'')) [VNum a, VNum b] = Inr (VNum (max a b))"
  by (simp add: applyTop_def evalFuel_def primOp_max max_def)

text \<open>The own slot of a counter after an update that adds its non-negative parameter.\<close>

lemma add_nextSlot:
  assumes u: "v_updates v = [(an, m)]" "mt_Params m = [\<lparr> p_Name = pn, p_Type = ''rat0+'' \<rparr>]"
      "mt_Body m = ELocal (Some (EApp (Some (ERef ''+'' 2 RefPrimitive)) [EVar pn]))" "v_elem v = TNum rat0p"
    and s: "conforming (TNum rat0p) (v_state v)" and r: "nextSlot ord v act p = Inr x"
  shows "\<exists>q k. x = VNum (k + q) \<and> 0 \<le> q \<and> 0 \<le> k \<and>
    (\<forall>old. map_of (v_state v) (v_nodeID v) = Some old \<longrightarrow> old = VNum q)"
proof -
  define cur where "cur = (case map_of (v_state v) (v_nodeID v) of Some c \<Rightarrow> c | None \<Rightarrow> zeroSlot (TNum rat0p))"
  have "conforms (TNum rat0p) cur"
    using s by (auto simp: cur_def conforming_def wfm_map_of_iff rat0p_num split: option.split)
  then obtain q where q: "cur = VNum q" "0 \<le> q" by (auto simp: rat0p_num)
  let ?e = "EApp (Some (ERef ''+'' 2 RefPrimitive)) [EVar pn]"
  have act: "act = an" using r u by (simp add: nextSlot_def split: if_splits)
  have "nextSlot ord v an p = (if length p \<noteq> 1 then Inl (ParamCount 1 (length p))
    else rbind (bindParams [\<lparr> p_Name = pn, p_Type = ''rat0+'' \<rparr>] p) (\<lambda>env.
      rbind (rwrap EvalErr (evalFuncVal (v_funcs v) ord env ?e 1)) (\<lambda>f.
      rbind (updateArg v False) (\<lambda>arg.
      rbind (rwrap EvalErr (applyTop (v_funcs v) ord f [arg])) (\<lambda>nx. rwrap EvalErr (cloneSlot nx))))))"
    by (simp add: nextSlot_def u updateBody_def)
  with r act obtain env fv arg nx where
    env: "bindParams [\<lparr> p_Name = pn, p_Type = ''rat0+'' \<rparr>] p = Inr env"
    and fv: "evalFuncVal (v_funcs v) ord env ?e 1 = Inr fv"
    and arg: "updateArg v False = Inr arg"
    and nx: "applyTop (v_funcs v) ord fv [arg] = Inr nx" "cloneSlot nx = Inr x"
    by (simp only: rbind_eq_Inr rwrap_eq_Inr sum.distinct split: if_splits)
      (elim exE conjE, rule that)
  have "dom (map_of env) = {pn}"
    using bindParams_from_keys [OF env [unfolded bindParams_def]] by simp
  then obtain kv where kv: "map_of env pn = Some kv" by blast
  have "param_ok ''rat0+'' kv"
    using bindParams_from_ok [OF env [unfolded bindParams_def] kv] by simp
  then obtain k where k: "kv = VNum k" "0 \<le> k" by (auto simp: param_ok_rat0p)
  have "evalFuncVal (v_funcs v) ord env ?e 1 = Inr (VFunc 1 (CPartial (CPrim ''+'') [VNum k]))"
    using kv k by (simp add: evalFuncVal_def evalTop_def refVal_def primOp_plus at_depth_def wantFn_def)
  moreover have "updateArg v False = Inr (VNum q)"
    using q u(4) by (simp add: updateArg_def cur_def cong: option.case_cong)
  moreover have "applyTop F ord (VFunc 1 (CPartial (CPrim ''+'') [VNum k])) [VNum q] = Inr (VNum (k + q))" for F
    by (simp add: applyTop_def evalFuel_def primOp_plus)
  ultimately have "x = VNum (k + q)" using fv arg nx by auto
  moreover have "\<forall>old. map_of (v_state v) (v_nodeID v) = Some old \<longrightarrow> old = VNum q"
    using q by (auto simp: cur_def)
  ultimately show ?thesis using q k by blast
qed

lemma counter_nextSlot:
  assumes "replica_of counter v" "conforming (TNum rat0p) (v_state v)"
    and "nextSlot ord v act p = Inr x"
  shows "\<exists>q k. x = VNum (k + q) \<and> 0 \<le> q \<and> 0 \<le> k \<and>
    (\<forall>old. map_of (v_state v) (v_nodeID v) = Some old \<longrightarrow> old = VNum q)"
proof -
  obtain n s where "v = (New counter n)\<lparr>v_state := s\<rparr>" using assms(1) replica_of_def by blast
  then have "v_updates v = [(''Add'', counter_add)]" "v_elem v = TNum rat0p"
    by (simp_all add: New_def NewVector_def counter_def)
  from add_nextSlot [OF this(1) _ _ this(2) assms(2,3)] show ?thesis by (simp add: counter_add_def)
qed

lemma rat0p_nz: "nt_sign rat0p \<noteq> SZero"
  by (simp add: rat0p_def)

interpretation counter: proved_type counter ord "VFunc 2 (CPrim ''max'')" maxVal
proof (unfold_locales, goal_cases)
  case (2 nid)
  then show ?case by (rule counter_merge_fn)
next
  case (8 v act payload x)
  then have e: "mo_Elem counter = TNum rat0p" by (simp add: counter_def)
  from counter_nextSlot [OF 8(1) _ 8(3)] 8(2) e obtain q k where
    "x = VNum (k + q)" "0 \<le> q" "0 \<le> k"
    "\<forall>old. map_of (v_state v) (v_nodeID v) = Some old \<longrightarrow> old = VNum q" by auto
  with e show ?case by (auto simp: rat0p_num max_def)
qed (auto simp: counter_merge_fn counter_apply_max counter_def rat0p_num rat0p_nz max.assoc max.commute)

text \<open>A reachable cluster: node a has added 3, its snapshot is in flight, b is untouched.\<close>

definition counter_a :: vectorCRDT where
  "counter_a = (New counter ''a'')\<lparr>v_state := [(''a'', VNum 3)]\<rparr>"

definition counter_nodes :: "string \<Rightarrow> vectorCRDT" where
  "counter_nodes = (New counter)(''a'' := counter_a)"

lemma counter_a_Apply: "Apply (\<lambda>m. m) (New counter ''a'') ''Add'' [GInt 3] = (counter_a, None)"
  by (simp add: Apply_def nextSlot_def counter_def counter_add_def counter_a_def New_def NewVector_def
      bindParams_def bindParam_def toRat_def nt_Parse_def nt_Allows_iff updateBody_def updateArg_def
      evalFuncVal_def evalTop_def applyTop_def evalFuel_def at_depth_def refVal_def primOp_plus wantFn_def)

lemma counter_a_simps: "v_state counter_a = [(''a'', VNum 3)]" "v_nodeID counter_a = ''a''"
    "replica_of counter counter_a"
  by (simp_all add: counter_a_def replica_of_update replica_of_New)

lemma counter_nodes_simps:
  "v_state (counter_nodes i) = (if i = ''a'' then [(''a'', VNum 3)] else [])"
  by (simp add: counter_nodes_def counter_a_simps)

lemma counter_reach: "cluster_reach (\<lambda>m. m) counter (counter_nodes, {[(''a'', VNum 3)]})"
proof (rule reach_step)
  show "cluster_reach (\<lambda>m. m) counter (counter_nodes, {})"
    unfolding counter_nodes_def
    by (rule reach_step [OF reach_init step_update]) (rule counter_a_Apply)
  show "cluster_step (\<lambda>m. m) (counter_nodes, {}) (counter_nodes, {[(''a'', VNum 3)]})"
    by (rule step_snapshot [where i = "''a''"]) (simp add: Snapshot_def counter_nodes_simps)
qed

lemma counter_conforming: "conforming (mo_Elem counter) [(''a'', VNum 3)]" "conforming (mo_Elem counter) []"
  by (simp_all add: conforming_def counter_def wfm_def)

subsection \<open>Convergence theorems\<close>

text \<open>
  C7: Strong eventual convergence, with no update lost. In every reachable cluster of a proved
  type, if two replicas merge snapshots of the nodes that have written (each in its own order,
  with repetitions), both end in the same state: the one that holds for every node exactly the
  value the node's own replica has for its slot.
\<close>

theorem replicas_converge:
  assumes "proved_type P ord fn J" and "cluster_reach ord P (c, M)" and "range_order lord"
    and "\<And>k. map_of (v_state (c k)) k \<noteq> None \<Longrightarrow> k \<in> set xs \<and> k \<in> set ys"
  shows "v_state (merge_all ord lord (c i) (map (\<lambda>k. v_state (c k)) xs)) =
      v_state (merge_all ord lord (c j) (map (\<lambda>k. v_state (c k)) ys)) \<and>
    (\<forall>k. map_of (v_state (merge_all ord lord (c i) (map (\<lambda>k. v_state (c k)) xs))) k =
      map_of (v_state (c k)) k)"
  using assms(2-) by (rule proved_type.converge [OF assms(1)])

lemma replicas_converge_witness:
  "v_state (merge_all (\<lambda>m. m) rev (counter_nodes ''b'') (map (\<lambda>k. v_state (counter_nodes k)) [''a'', ''a''])) =
     v_state (merge_all (\<lambda>m. m) rev (counter_nodes ''a'') (map (\<lambda>k. v_state (counter_nodes k)) [''a'', ''b''])) \<and>
   (\<forall>k. map_of (v_state (merge_all (\<lambda>m. m) rev (counter_nodes ''b'')
       (map (\<lambda>k. v_state (counter_nodes k)) [''a'', ''a'']))) k = map_of (v_state (counter_nodes k)) k)"
  by (rule replicas_converge [OF counter.proved_type_axioms counter_reach range_order_id(2)])
    (simp add: counter_nodes_simps split: if_splits)

text \<open>
  C10: Delivery order, grouping and duplication are irrelevant. Merging a sequence of snapshots into
  a replica gives a state that depends only on the set of snapshots merged: replicas that start
  equal, or whose own state is among what the other merges, and receive the same set of snapshots
  agree.
\<close>

theorem delivery_order_irrelevant:
  assumes "proved_type P ord fn J" and "range_order lord"
    and "replica_of P u" "replica_of P v" "conforming (mo_Elem P) (v_state u)" "conforming (mo_Elem P) (v_state v)"
    and "\<And>s. s \<in> set ss \<union> set ts \<Longrightarrow> conforming (mo_Elem P) s"
    and "insert (v_state u) (set ss) = insert (v_state v) (set ts)"
  shows "v_state (merge_all ord lord u ss) = v_state (merge_all ord lord v ts)"
  using assms(2-) by (rule proved_type.delivery [OF assms(1)])

lemma delivery_order_irrelevant_witness:
  "v_state (merge_all (\<lambda>m. m) rev (New counter ''b'') [[(''a'', VNum 3)], []]) =
   v_state (merge_all (\<lambda>m. m) rev counter_a [[], [], [(''a'', VNum 3)]])"
  by (rule delivery_order_irrelevant [OF counter.proved_type_axioms range_order_id(2)])
    (auto simp: counter_a_simps counter_conforming replica_of_New)

text \<open>
  C8: Invariant of the cluster. In every reachable cluster each replica still belongs to the model
  and to its node, all its slots are members of the element type, merging any snapshot in flight
  succeeds, and no copy of a slot (in a replica or in flight) is ahead of its owner: merging the
  copy into the owner's value gives the owner's value.
\<close>

theorem cluster_invariant:
  assumes "proved_type P ord fn J" and "cluster_reach ord P (c, M)"
  shows "(\<forall>i. replica_of P (c i) \<and> v_nodeID (c i) = i \<and> conforming (mo_Elem P) (v_state (c i))) \<and>
    (\<forall>s \<in> M. conforming (mo_Elem P) s \<and>
       (\<forall>i lord. range_order lord \<longrightarrow> snd (mergeRemote ord lord (c i) s) = None)) \<and>
    (\<forall>s \<in> range (\<lambda>i. v_state (c i)) \<union> M. \<forall>k a. map_of s k = Some a \<longrightarrow>
       (\<exists>b. map_of (v_state (c k)) k = Some b \<and> J a b = b))"
  using proved_type.invariant [OF assms] .

lemma cluster_invariant_witness:
  "\<exists>b. map_of (v_state (counter_nodes ''a'')) ''a'' = Some b \<and> maxVal (VNum 3) b = b"
  using cluster_invariant [OF counter.proved_type_axioms counter_reach] by simp

text \<open>
  C9: Replicas only grow. Whatever step a reachable cluster takes (an update, a delivery of any old
  snapshot, a failed operation), every slot a replica held is still there and its new value is
  above the old one in the merge order.
\<close>

theorem replicas_monotone:
  assumes "proved_type P ord fn J" and "cluster_reach ord P (c, M)"
    and "cluster_step ord (c, M) (c', M')" and "map_of (v_state (c i)) k = Some a"
  shows "\<exists>b. map_of (v_state (c' i)) k = Some b \<and> J a b = b"
  using assms(2-) by (rule proved_type.monotone [OF assms(1)])

lemma replicas_monotone_witness:
  "\<exists>b. map_of (v_state (fst (mergeRemote (\<lambda>m. m) rev (counter_nodes ''a'') [(''a'', VNum 3)]))) ''a'' = Some b \<and>
     maxVal (VNum 3) b = b"
  using replicas_monotone [OF counter.proved_type_axioms counter_reach
      step_deliver [OF _ range_order_id(2), of "[(''a'', VNum 3)]" _ "\<lambda>m. m" counter_nodes "''a''"
        "fst (mergeRemote (\<lambda>m. m) rev (counter_nodes ''a'') [(''a'', VNum 3)])"
        "snd (mergeRemote (\<lambda>m. m) rev (counter_nodes ''a'') [(''a'', VNum 3)])"],
      of "''a''" "''a''" "VNum 3"]
  by (simp add: counter_nodes_simps)

end
