(* ===== verification/ProverSound.thy ===== *)
theory ProverSound
  imports SmtSound Convergence
begin

text \<open>
  Soundness of the prover, third part: obligations. \<open>leaves\<close> names the leaves of a value as
  \<open>symVarOf\<close> names variables; \<open>interp_of\<close> is the interpretation a runtime assignment gives a
  script. \<open>proved_equation\<close>: an equation whose goal the solver refutes the negation of holds between
  the runtime values of its sides. \<open>merge_laws\<close> and \<open>update_law\<close> are the laws this gives for the
  functions of a type.
\<close>

subsection \<open>Assignments\<close>

text \<open>The leaves of a value, named as \<open>symVarOf\<close> names the variables of its type.\<close>

fun leaves :: "string \<Rightarrow> elemT \<Rightarrow> rtVal \<Rightarrow> (string \<times> rtVal) list"
and leafFields :: "string \<Rightarrow> nat \<Rightarrow> (string \<times> elemT) list \<Rightarrow> rtVal \<Rightarrow> (string \<times> rtVal) list" where
  "leaves p (TStruct nm ts) v = leafFields p 0 ts v"
| "leaves p TStr v = [(p, v)]"
| "leaves p (TNum nt) v = [(p, v)]"
| "leafFields p i [] v = []"
| "leafFields p i ((k, t) # ts) v =
     (case v of
        VStruct m \<Rightarrow> (case map_of m k of None \<Rightarrow> [] | Some x \<Rightarrow> leaves (p @ ''_'' @ nat_String i) t x)
      | _ \<Rightarrow> []) @ leafFields p (i + 1) ts v"

definition suffix_of :: "string \<Rightarrow> string \<Rightarrow> bool" where
  "suffix_of p nm \<longleftrightarrow> (\<exists>r. nm = p @ r \<and> (r = [] \<or> hd r = CHR ''_''))"

lemma suffix_deeper: "suffix_of (p @ ''_'' @ q) nm \<Longrightarrow> suffix_of p nm"
  by (auto simp: suffix_of_def)

lemma leafFields_ConsD:
  "(nm, x) \<in> set (leafFields p i ((k, t) # ts) v) \<Longrightarrow>
    (\<exists>m y. v = VStruct m \<and> map_of m k = Some y \<and> (nm, x) \<in> set (leaves (p @ ''_'' @ nat_String i) t y)) \<or>
    (nm, x) \<in> set (leafFields p (Suc i) ts v)"
proof (cases v)
  case (VStruct m)
  assume "(nm, x) \<in> set (leafFields p i ((k, t) # ts) v)"
  with VStruct show ?thesis by (cases "map_of m k") simp_all
qed simp_all

lemma leaves_names:
  "(nm, x) \<in> set (leaves p t v) \<Longrightarrow> suffix_of p nm"
  "(nm, x) \<in> set (leafFields p i ts v) \<Longrightarrow> \<exists>j \<ge> i. suffix_of (p @ ''_'' @ nat_String j) nm"
proof (induction p t v and p i ts v rule: leaves_leafFields.induct)
  case (1 p nm' ts v)
  then show ?case using suffix_deeper by fastforce
next
  case (5 p i k t ts v)
  from leafFields_ConsD [OF "5.prems"] show ?case
  proof (elim disjE exE conjE)
    fix m y assume "v = VStruct m" "map_of m k = Some y" "(nm, x) \<in> set (leaves (p @ ''_'' @ nat_String i) t y)"
    from "5.IH"(1) [OF this] show ?case by blast
  next
    assume "(nm, x) \<in> set (leafFields p (Suc i) ts v)"
    with "5.IH"(2) obtain j where "j \<ge> Suc i" "suffix_of (p @ ''_'' @ nat_String j) nm" by auto
    then show ?case by (meson Suc_leD)
  qed
qed (auto simp: suffix_of_def)

lemma nat_String_no_underscore: "c \<in> set (nat_String n) \<Longrightarrow> c \<noteq> CHR ''_''"
  using nat_String_digits [of n] is_digit_char_simps(2) [of c] by (simp add: list_all_iff)

lemma nat_String_inj: "nat_String i = nat_String j \<Longrightarrow> i = j"
  by (metis nat_String_value)

lemma suffix_index:
  assumes "suffix_of (p @ ''_'' @ nat_String i) nm" "suffix_of (p @ ''_'' @ nat_String j) nm"
  shows "i = j"
proof -
  have *: "takeWhile (\<lambda>c. c \<noteq> CHR ''_'') (nat_String i @ r) = nat_String i" if "r = [] \<or> hd r = CHR ''_''" for r i
  proof -
    have "takeWhile (\<lambda>c. c \<noteq> CHR ''_'') (nat_String i @ r) = nat_String i @ takeWhile (\<lambda>c. c \<noteq> CHR ''_'') r"
      by (rule takeWhile_append2) (rule nat_String_no_underscore)
    with that show ?thesis by (cases r) simp_all
  qed
  from assms obtain r r' where "nat_String i @ r = nat_String j @ r'"
    "r = [] \<or> hd r = CHR ''_''" "r' = [] \<or> hd r' = CHR ''_''"
    by (auto simp: suffix_of_def)
  with * have "nat_String i = nat_String j" by metis
  then show ?thesis by (rule nat_String_inj)
qed

lemma leaves_distinct:
  "distinct (map fst (leaves p t v))"
  "distinct (map fst (leafFields p i ts v))"
proof (induction p t v and p i ts v rule: leaves_leafFields.induct)
  case (5 p i k t ts v)
  show ?case
  proof (cases "\<exists>m x. v = VStruct m \<and> map_of m k = Some x")
    case True
    then obtain m x where x: "v = VStruct m" "map_of m k = Some x" by blast
    have "nm \<notin> fst ` set (leafFields p (i + 1) ts v)" if "nm \<in> fst ` set (leaves (p @ ''_'' @ nat_String i) t x)" for nm
    proof
      assume "nm \<in> fst ` set (leafFields p (i + 1) ts v)"
      then obtain j where "j \<ge> i + 1" "suffix_of (p @ ''_'' @ nat_String j) nm"
        using leaves_names(2) by (metis imageE prod.collapse)
      moreover from that have "suffix_of (p @ ''_'' @ nat_String i) nm"
        using leaves_names(1) by (metis imageE prod.collapse)
      ultimately have "i = j" by (intro suffix_index)
      with \<open>j \<ge> i + 1\<close> show False by simp
    qed
    then have "set (map fst (leaves (p @ ''_'' @ nat_String i) t x)) \<inter> set (map fst (leafFields p (i + 1) ts v)) = {}"
      by auto
    with "5.IH"(1) [OF x] "5.IH"(2) x show ?thesis by simp
  next
    case False
    then have "leafFields p i ((k, t) # ts) v = leafFields p (i + 1) ts v"
      by (cases v) (auto split: option.split)
    with "5.IH"(2) show ?thesis by simp
  qed
qed auto

lemma symVar_den_all:
  "\<And>v. conforms t v \<Longrightarrow> (\<And>nm x. (nm, x) \<in> set (leaves p t v) \<Longrightarrow> r nm = Some x) \<Longrightarrow>
     denotes r (fst (symVarOf p t)) v"
  "\<And>m. conforms_fields ts m \<Longrightarrow> (\<And>nm x. (nm, x) \<in> set (leafFields p i ts (VStruct m)) \<Longrightarrow> r nm = Some x) \<Longrightarrow>
     relE r acc m \<Longrightarrow> relE r (fst (symVarFields p i ts acc)) m"
proof (induction p t and p i ts acc rule: symVarOf_symVarFields.induct)
  case (1 p nm fs)
  then show ?case by (elim conforms_TStructE) (auto simp: den_struct_iff split: prod.split)
next
  case (5 p i k t fs m')
  then obtain x where x: "map_of m k = Some x" "conforms t x" by (auto split: option.splits)
  obtain s ds where s: "symVarOf (p @ ''_'' @ nat_String i) t = (s, ds)" by fastforce
  have "denotes r s x" using "5.IH"(1) [OF x(2)] "5.prems"(2) x s by auto
  then have "relE r (mput k s m') m" using "5.prems"(3) x by (auto simp: relE_def)
  with "5.IH"(2) [OF s [symmetric]] "5.prems" x s show ?case by (auto split: prod.split)
qed (auto intro: den_var)

lemmas symVar_den = symVar_den_all(1)

subsection \<open>Declarations\<close>

definition decl_ok :: "(string \<Rightarrow> rtVal option) \<Rightarrow> varDecl \<Rightarrow> bool" where
  "decl_ok r d =
     (case d of
        DeclNum nm nt \<Rightarrow> (\<exists>q. r nm = Some (VNum q) \<and> nt_Allows nt q)
      | DeclStr nm \<Rightarrow> (\<exists>s. r nm = Some (VStr s) \<and> lit_ok s))"

text \<open>Values whose strings the solver knows: code points below 30000.\<close>

fun smtable :: "rtVal \<Rightarrow> bool"
and smtables :: "(string \<times> rtVal) list \<Rightarrow> bool" where
  "smtable (VStr s) = smt_runes (go_runes s)"
| "smtable (VStruct m) = smtables m"
| "smtable (VNum q) = True"
| "smtable (VBool b) = True"
| "smtable (VVec m) = smtables m"
| "smtable (VFunc a c) = True"
| "smtables [] = True"
| "smtables ((k, v) # m) = (smtable v \<and> smtables m)"

lemma smtables_lookup: "smtables m \<Longrightarrow> map_of m k = Some v \<Longrightarrow> smtable v"
  by (induction m) (auto split: if_splits)

lemma symVar_decls_all:
  "\<And>v. conforms t v \<Longrightarrow> smtable v \<Longrightarrow> (\<And>nm x. (nm, x) \<in> set (leaves p t v) \<Longrightarrow> r nm = Some x) \<Longrightarrow>
     \<forall>d \<in> set (snd (symVarOf p t)). decl_ok r d"
  "\<And>m. conforms_fields ts m \<Longrightarrow> smtables m \<Longrightarrow> (\<And>nm x. (nm, x) \<in> set (leafFields p i ts (VStruct m)) \<Longrightarrow> r nm = Some x) \<Longrightarrow>
     \<forall>d \<in> set (snd (symVarFields p i ts acc)). decl_ok r d"
proof (induction p t and p i ts acc rule: symVarOf_symVarFields.induct)
  case (1 p nm fs)
  then show ?case by (elim conforms_TStructE) (auto split: prod.split)
next
  case (5 p i k t fs m')
  then obtain x where x: "map_of m k = Some x" "conforms t x" by (auto split: option.splits)
  obtain s ds where s: "symVarOf (p @ ''_'' @ nat_String i) t = (s, ds)" by fastforce
  have "\<forall>d \<in> set ds. decl_ok r d"
    using "5.IH"(1) [OF x(2)] "5.prems"(2,3) x s smtables_lookup by auto
  with "5.IH"(2) [OF s [symmetric]] "5.prems" x s show ?case by (auto split: prod.split)
next
  case (2 p)
  then show ?case by (elim conforms_TStrE) (auto simp: decl_ok_def lit_ok_def)
next
  case (3 p nt)
  then show ?case by (elim conforms_TNumE) (auto simp: decl_ok_def)
qed auto

lemmas symVar_decls = symVar_decls_all(1)

subsection \<open>Proved goals\<close>

fun decl_name :: "varDecl \<Rightarrow> string" where
  "decl_name (DeclNum nm nt) = nm"
| "decl_name (DeclStr nm) = nm"

fun smt_of :: "rtVal \<Rightarrow> smtVal" where
  "smt_of (VNum q) = SR (of_rat q)"
| "smt_of (VStr s) = SS (go_runes s)"
| "smt_of v = SB (v = VBool True)"

definition interp_of :: "(string \<Rightarrow> rtVal option) \<Rightarrow> varDecl list \<Rightarrow> string \<Rightarrow> smtVal option" where
  "interp_of r ds nm = (if nm \<in> decl_name ` set ds then map_option smt_of (r nm) else None)"

lemma interp_of_decl:
  assumes "d \<in> set ds" "decl_ok r d"
  shows "d = DeclNum nm nt \<Longrightarrow> \<exists>q. interp_of r ds nm = Some (SR (of_rat q)) \<and> nt_Allows nt q"
    and "d = DeclStr nm \<Longrightarrow> \<exists>s. interp_of r ds nm = Some (SS (go_runes s)) \<and> lit_ok s"
  using assms by (force simp: interp_of_def decl_ok_def)+

lemma matches_interp:
  assumes "\<forall>d \<in> set ds. decl_ok r d" "''|struct-not-flattened|'' \<notin> decl_name ` set ds"
  shows "matches r (interp_of r ds)"
  unfolding matches_def
proof (intro conjI allI impI)
  show "interp_of r ds ''|struct-not-flattened|'' = None" using assms(2) by (simp add: interp_of_def)
  fix nm w assume w: "interp_of r ds nm = Some w"
  then obtain d where d: "d \<in> set ds" "decl_name d = nm" by (auto simp: interp_of_def split: if_splits)
  with assms(1) have "decl_ok r d" by blast
  show "\<exists>v. r nm = Some v \<and> corr v w"
  proof (cases d)
    case (DeclNum nm' nt)
    with \<open>decl_ok r d\<close> d w show ?thesis by (auto simp: decl_ok_def interp_of_def split: if_splits)
  next
    case (DeclStr nm')
    with \<open>decl_ok r d\<close> d w show ?thesis by (auto simp: decl_ok_def interp_of_def split: if_splits)
  qed
qed

text \<open>The commands of the declarations.\<close>

lemma declared_in_append [simp]: "declared_in (xs @ ys) = declared_in xs @ declared_in ys"
  by (simp add: declared_in_def)

lemma asserted_append [simp]: "asserted (xs @ ys) = asserted xs @ asserted ys"
  by (simp add: asserted_def)

lemma declared_in_asserts [simp]: "declared_in (map (\<lambda>a. CmdAssert (f a)) xs) = []" "declared_in [CmdAssert t] = []"
  by (induction xs) (simp_all add: declared_in_def)

lemma asserted_asserts [simp]: "asserted (map (\<lambda>a. CmdAssert (f a)) xs) = map f xs" "asserted [CmdAssert t] = [t]"
  by (induction xs) (simp_all add: asserted_def)

definition decl_sort :: "varDecl \<Rightarrow> string" where
  "decl_sort d = (case d of DeclNum nm nt \<Rightarrow> ''Real'' | DeclStr nm \<Rightarrow> ''String'')"

lemma declared_in_declCmds: "declared_in (declCmds d) = [(decl_name d, decl_sort d)]"
  by (cases d) (auto simp: declCmds_def declared_in_def decl_sort_def split: sign.split)

lemma declared_in_decls: "declared_in (concat (map declCmds ds)) = map (\<lambda>d. (decl_name d, decl_sort d)) ds"
  by (induction ds) (simp_all add: declared_in_declCmds, simp add: declared_in_def)

lemma asserted_decls: "t \<in> set (asserted (concat (map declCmds ds))) \<longleftrightarrow> (\<exists>d \<in> set ds. t \<in> set (asserted (declCmds d)))"
  by (induction ds) (simp_all, simp add: asserted_def)

lemma rat_int_real: "rat_IsInt q \<Longrightarrow> (of_rat q :: real) \<in> \<int>"
  by (auto simp: rat_IsInt_iff elim!: Ints_cases)

lemma num_asserts:
  assumes "I nm = Some (SR (of_rat q))" "nt_Allows nt q" "t \<in> set (asserted (declCmds (DeclNum nm nt)))"
  shows "seval I t = Some (SB True)"
proof -
  from assms(3) consider "nt_domain nt = DInt" "t = SmtApp ''is_int'' [SmtId nm]"
    | "nt_sign nt = SNonNeg" "t = SmtApp ''>='' [SmtId nm, SmtNum 0]"
    | "nt_sign nt = SNonPos" "t = SmtApp ''<='' [SmtId nm, SmtNum 0]"
    | "nt_sign nt = SZero" "t = SmtApp ''='' [SmtId nm, SmtNum 0]"
    by (auto simp: declCmds_def asserted_def split: sign.splits if_splits)
  then show ?thesis
  proof cases
    case 1
    with assms(2) have "(of_rat q :: real) \<in> \<int>" by (auto simp: nt_Allows_def intro: rat_int_real split: if_splits)
    with assms(1) 1 show ?thesis by (simp add: seval.simps(4) sapp_def)
  next
    case 2
    with assms(2) have "0 \<le> q" by (auto simp: nt_Allows_iff)
    with assms(1) 2 show ?thesis by (simp add: seval_app2 sapp_num sappNum_def)
  next
    case 3
    with assms(2) have "q \<le> 0" by (auto simp: nt_Allows_iff)
    with assms(1) 3 show ?thesis by (simp add: seval_app2 sapp_num sappNum_def)
  next
    case 4
    with assms(2) have "q = 0" by (auto simp: nt_Allows_iff)
    with assms(1) 4 show ?thesis by (simp add: seval_app2 sapp_num sappNum_def)
  qed
qed

lemma decl_asserts_true:
  assumes "d \<in> set ds" "decl_ok r d" "t \<in> set (asserted (declCmds d))"
  shows "seval (interp_of r ds) t = Some (SB True)"
proof (cases d)
  case (DeclNum nm nt)
  with interp_of_decl(1) [OF assms(1,2)] obtain q where "interp_of r ds nm = Some (SR (of_rat q))" "nt_Allows nt q" by blast
  with assms(3) DeclNum show ?thesis by (auto intro: num_asserts)
next
  case (DeclStr nm)
  with assms(3) show ?thesis by (simp add: declCmds_def asserted_def)
qed

lemma interprets_interp:
  assumes "\<forall>d \<in> set ds. decl_ok r d"
  shows "interprets (interp_of r ds) (concat (map declCmds ds) @ map (\<lambda>a. CmdAssert (serialize a)) as @ [CmdAssert t])"
proof -
  have "dom (interp_of r ds) = decl_name ` set ds"
  proof -
    have "r (decl_name d) \<noteq> None" if "d \<in> set ds" for d
      using bspec [OF assms that] by (cases d) (auto simp: decl_ok_def)
    then show ?thesis unfolding dom_def interp_of_def by auto
  qed
  moreover have "\<exists>v. interp_of r ds (decl_name d) = Some v \<and> of_sort (decl_sort d) v" if d: "d \<in> set ds" for d
  proof (cases d)
    case (DeclNum nm nt)
    with interp_of_decl(1) [OF d bspec [OF assms d] DeclNum] show ?thesis by (auto simp: of_sort_def decl_sort_def)
  next
    case (DeclStr nm)
    with interp_of_decl(2) [OF d bspec [OF assms d] DeclStr] show ?thesis by (auto simp: of_sort_def decl_sort_def lit_ok_def)
  qed
  ultimately show ?thesis by (auto simp: interprets_def declared_in_decls image_image)
qed

lemma conjunction_True: "seval I (conjunction es) = Some (SB True) \<Longrightarrow> e \<in> set es \<Longrightarrow> seval I e = Some (SB True)"
proof (cases "length es = 1")
  case True
  assume "seval I (conjunction es) = Some (SB True)" "e \<in> set es"
  with True show ?thesis by (cases es) (auto simp: conjunction_def)
next
  case False
  assume a: "seval I (conjunction es) = Some (SB True)" "e \<in> set es"
  with False have "None \<notin> set (map (seval I) es)" "sapp ''and'' (map (\<lambda>e. the (seval I e)) es) = Some (SB True)"
    by (auto simp: conjunction_def seval.simps(4) Let_def comp_def split: if_splits)
  with a(2) have "seval I e \<noteq> None" "the (seval I e) = SB True"
    by (force simp: sapp_def list_all_iff split: if_splits)+
  then show ?thesis by force
qed

text \<open>An equation the solver proves holds for the values its terms mean.\<close>

lemma proved_equation:
  assumes sv: "solver_sound sv" and g: "proveGoal sv (eqGoal nm ds l u []) = Inr ()"
    and ds: "\<forall>d \<in> set ds. decl_ok r d" "''|struct-not-flattened|'' \<notin> decl_name ` set ds"
    and den: "denotes r l v" "denotes r u w" and t: "conforms t v" "conforms t w" "shaped t l"
  shows "v = w"
proof -
  let ?I = "interp_of r ds"
  from g obtain es where es: "leafEqs l u = Some es"
    and un: "firstToken (sv_output sv (concat (map declCmds ds) @ [CmdAssert (SmtApp ''not'' [conjunction es])])) = ''unsat''"
    by (auto simp: proveGoal_def eqGoal_def checkGoal_def buildScript_def goalTerm_def runZ3_def Let_def
        split: if_splits option.splits)
  let ?cs = "concat (map declCmds ds) @ [CmdAssert (SmtApp ''not'' [conjunction es])]"
  from un sv have "refuted ?cs" by (simp add: solver_sound_def)
  moreover have "interprets ?I ?cs" using interprets_interp [OF ds(1), of "[]"] by simp
  ultimately obtain a where a: "a \<in> set (asserted ?cs)" "seval ?I a = Some (SB False)"
    unfolding refuted_def by blast
  with decl_asserts_true ds(1) have "a = SmtApp ''not'' [conjunction es]"
    by (auto simp: asserted_decls)
  with a(2) have "seval ?I (conjunction es) = Some (SB True)"
    by (cases "seval ?I (conjunction es)") (auto simp: seval.simps(4) sapp_def split: smtVal.splits if_splits)
  with conjunction_True have "\<forall>e \<in> set es. seval ?I e = Some (SB True)" by blast
  from leafEqs_equal [OF matches_interp [OF ds] den es this t] show ?thesis .
qed

subsection \<open>The merge laws\<close>

lemma leaves_hd: "(nm, x) \<in> set (leaves p t v) \<Longrightarrow> p \<noteq> [] \<Longrightarrow> nm \<noteq> [] \<and> hd nm = hd p"
  using leaves_names(1) by (fastforce simp: suffix_of_def)

lemma leaves_map_of:
  "(nm, x) \<in> set (leaves p t v) \<Longrightarrow> map_of (leaves p t v) nm = Some x"
  by (simp add: leaves_distinct)

lemma leaves_other: "hd nm \<noteq> hd p \<Longrightarrow> p \<noteq> [] \<Longrightarrow> map_of (leaves p t v) nm = None"
  using leaves_hd by (fastforce simp: map_of_eq_None_iff)

definition assign3 :: "elemT \<Rightarrow> rtVal \<Rightarrow> rtVal \<Rightarrow> rtVal \<Rightarrow> string \<Rightarrow> rtVal option" where
  "assign3 t a b c = map_of (leaves ''a'' t a @ leaves ''b'' t b @ leaves ''c'' t c)"

lemma assign3_lookup:
  "(nm, x) \<in> set (leaves ''a'' t a) \<Longrightarrow> assign3 t a b c nm = Some x"
  "(nm, x) \<in> set (leaves ''b'' t b) \<Longrightarrow> assign3 t a b c nm = Some x"
  "(nm, x) \<in> set (leaves ''c'' t c) \<Longrightarrow> assign3 t a b c nm = Some x"
  "assign3 t a b c ''|struct-not-flattened|'' = None"
proof -
  assume n: "(nm, x) \<in> set (leaves ''a'' t a)"
  show "assign3 t a b c nm = Some x"
    using leaves_map_of [OF n] by (simp add: assign3_def map_add_Some_iff)
next
  assume n: "(nm, x) \<in> set (leaves ''b'' t b)"
  then have "map_of (leaves ''a'' t a) nm = None" using leaves_hd [OF n] by (intro leaves_other) simp_all
  with leaves_map_of [OF n] show "assign3 t a b c nm = Some x" by (simp add: assign3_def map_add_Some_iff)
next
  assume n: "(nm, x) \<in> set (leaves ''c'' t c)"
  then have "map_of (leaves ''a'' t a) nm = None" "map_of (leaves ''b'' t b) nm = None"
    using leaves_hd [OF n] by (intro leaves_other; simp)+
  with leaves_map_of [OF n] show "assign3 t a b c nm = Some x" by (simp add: assign3_def map_add_Some_iff)
next
  show "assign3 t a b c ''|struct-not-flattened|'' = None"
    by (simp add: assign3_def leaves_other)
qed

lemma decl_name_defined: "\<forall>d \<in> set ds. decl_ok r d \<Longrightarrow> r nm = None \<Longrightarrow> nm \<notin> decl_name ` set ds"
  by (fastforce simp: decl_ok_def split: varDecl.splits)

text \<open>A goal without hypotheses, under an assignment that has no value for the marker.\<close>

lemma proved_goal:
  assumes "solver_sound sv" "proveGoal sv (eqGoal nm ds l u []) = Inr ()"
    and "\<forall>d \<in> set ds. decl_ok r d" "r ''|struct-not-flattened|'' = None"
    and "denotes r l v" "denotes r u w" "conforms t v" "conforms t w" "shaped t l"
  shows "v = w"
  using proved_equation [OF assms(1-3) decl_name_defined [OF assms(3,4)] assms(5-9)] .

lemma evalFn_sound:
  assumes "evalFn F sv env st fn k = Inr (c, st')" "evalFuncVal F ord renv fn k = Inr fv"
    and "funcs_ok F" "source_ok fn" "relE r env renv"
  obtains c' where "fv = VFunc k c'" "relC r c c'"
proof -
  from assms(1) obtain x st1 where x: "lower F sv (lowerFuel F) [] env st fn = Inr (x, st1)"
    "(case x of LVal s \<Rightarrow> Inl (PvWantFn k 0) | LFn j c \<Rightarrow> if j \<noteq> k then Inl (PvWantFn k j) else Inr (c, st1)) = Inr (c, st')"
    by (auto simp: evalFn_def)
  then have l: "lower F sv (lowerFuel F) [] env st fn = Inr (LFn k c, st')"
    by (cases x) (auto split: if_splits)
  from assms(2) have e: "eval F ord evalFuel 0 renv fn = Inr fv" "\<exists>c. fv = VFunc k c"
    by (auto simp: evalFuncVal_def evalTop_def wantFn_Inr)
  from lower_sound [OF l assms(3,4,5) e(1)] e(2) that show ?thesis by auto
qed

lemma applied_sound:
  assumes "symCall F sv n st c ss = Inr (s, st')" "relC r c c'" "funcs_ok F"
    and "list_all2 (denotes r) ss vs" "applyTop F ord (VFunc (length vs) c') vs = Inr v"
  shows "denotes r s v"
proof -
  from assms(5) have "callClo F ord evalFuel c' vs = Inr v" by (simp add: applyTop_def)
  from symCall_sound [OF assms(1,3,2,4) this] show ?thesis by simp
qed

lemma mergeGoals_Inr:
  assumes "mergeGoals F sv t f st = Inr (gs, st')"
  obtains fab fba fbc l fab2 u faa s1 s2 s3 s4 s5 s6 where
    "symCall F sv (lowerFuel F) st f [fst (symVarOf ''a'' t), fst (symVarOf ''b'' t)] = Inr (fab, s1)"
    "symCall F sv (lowerFuel F) s1 f [fst (symVarOf ''b'' t), fst (symVarOf ''a'' t)] = Inr (fba, s2)"
    "symCall F sv (lowerFuel F) s2 f [fst (symVarOf ''b'' t), fst (symVarOf ''c'' t)] = Inr (fbc, s3)"
    "symCall F sv (lowerFuel F) s3 f [fst (symVarOf ''a'' t), fbc] = Inr (l, s4)"
    "symCall F sv (lowerFuel F) s4 f [fst (symVarOf ''a'' t), fst (symVarOf ''b'' t)] = Inr (fab2, s5)"
    "symCall F sv (lowerFuel F) s5 f [fab2, fst (symVarOf ''c'' t)] = Inr (u, s6)"
    "symCall F sv (lowerFuel F) s6 f [fst (symVarOf ''a'' t), fst (symVarOf ''a'' t)] = Inr (faa, st')"
    "gs = [eqGoal ''commutativity'' (snd (symVarOf ''a'' t) @ snd (symVarOf ''b'' t)) fab fba [],
       eqGoal ''associativity'' (snd (symVarOf ''a'' t) @ snd (symVarOf ''b'' t) @ snd (symVarOf ''c'' t)) l u [],
       eqGoal ''idempotence'' (snd (symVarOf ''a'' t)) faa (fst (symVarOf ''a'' t)) []]"
  using assms unfolding mergeGoals_def split_beta rbind_eq_Inr
  by (elim exE conjE) (auto intro!: that simp: prod_eq_iff)

text \<open>The goals of a type whose updates are all local, where lowering leaves the state alone; and the
  condition that their left sides list every field of the element type.\<close>

definition local_updates :: "crdt_method gomap \<Rightarrow> bool" where
  "local_updates us \<longleftrightarrow> list_all (\<lambda>(nm, m). case mt_Body m of ELocal (Some h) \<Rightarrow> source_ok h | _ \<Rightarrow> False) us"

definition typeGoals :: "func gomap \<Rightarrow> solver \<Rightarrow> elemT \<Rightarrow> expr \<Rightarrow> crdt_method gomap \<Rightarrow> proveErr + goal list" where
  "typeGoals F sv t fn us =
     rbind (evalFn F sv [] initPs fn 2) (\<lambda>(f, st).
     rbind (mergeGoals F sv t f initPs) (\<lambda>(gs, st1).
     rbind (mapR (\<lambda>(nm, m). rmap fst (updateGoal F sv t f initPs nm m)) us) (\<lambda>hs. Inr (gs @ hs))))"

definition shaped_goals :: "func gomap \<Rightarrow> solver \<Rightarrow> elemT \<Rightarrow> expr \<Rightarrow> crdt_method gomap \<Rightarrow> bool" where
  "shaped_goals F sv t fn us =
     (case typeGoals F sv t fn us of Inl e \<Rightarrow> False | Inr gs \<Rightarrow> list_all (\<lambda>g. shaped t (g_lhs g)) gs)"

lemma evalFn_plain:
  assumes "evalFn F sv env st fn k = Inr (c, st')" "plains env"
  shows "plainC c \<and> st' = st"
proof -
  from assms(1) obtain x st1 where x: "lower F sv (lowerFuel F) [] env st fn = Inr (x, st1)"
    "(case x of LVal s \<Rightarrow> Inl (PvWantFn k 0) | LFn j c \<Rightarrow> if j \<noteq> k then Inl (PvWantFn k j) else Inr (c, st1)) = Inr (c, st')"
    by (auto simp: evalFn_def)
  with lower_plain [OF x(1) assms(2)] show ?thesis by (cases x) (auto split: if_splits)
qed

lemma symVar_plain [simp]: "plain (fst (symVarOf p t))"
  by (rule plain_symVar)

lemma mergeGoals_plain:
  assumes "mergeGoals F sv t f st = Inr (gs, st')" "plainC f"
  shows "st' = st"
  using assms(1)
proof (rule mergeGoals_Inr)
  fix fab fba fbc l fab2 u faa s1 s2 s3 s4 s5 s6
  assume c: "symCall F sv (lowerFuel F) st f [fst (symVarOf ''a'' t), fst (symVarOf ''b'' t)] = Inr (fab, s1)"
    "symCall F sv (lowerFuel F) s1 f [fst (symVarOf ''b'' t), fst (symVarOf ''a'' t)] = Inr (fba, s2)"
    "symCall F sv (lowerFuel F) s2 f [fst (symVarOf ''b'' t), fst (symVarOf ''c'' t)] = Inr (fbc, s3)"
    "symCall F sv (lowerFuel F) s3 f [fst (symVarOf ''a'' t), fbc] = Inr (l, s4)"
    "symCall F sv (lowerFuel F) s4 f [fst (symVarOf ''a'' t), fst (symVarOf ''b'' t)] = Inr (fab2, s5)"
    "symCall F sv (lowerFuel F) s5 f [fab2, fst (symVarOf ''c'' t)] = Inr (u, s6)"
    "symCall F sv (lowerFuel F) s6 f [fst (symVarOf ''a'' t), fst (symVarOf ''a'' t)] = Inr (faa, st')"
  note p = symCall_plain [OF _ assms(2)]
  have "plain fbc" "plain fab2" using p [OF c(3)] p [OF c(5)] by simp_all
  with p [OF c(1)] p [OF c(2)] p [OF c(3)] p [OF c(4)] p [OF c(5)] p [OF c(6)] p [OF c(7)]
  show "st' = st" by simp
qed

lemma bindUpdateParams_plain:
  "bindUpdateParams i ps env = Inr (env', ds) \<Longrightarrow> plains env \<Longrightarrow> plains env'"
  by (induction i ps env arbitrary: ds rule: bindUpdateParams.induct)
    (auto simp: Let_def plains_mput split: if_splits option.splits)

text \<open>The goal of a local update.\<close>

lemma updateGoal_local:
  assumes "updateGoal F sv t f initPs nm m = Inr (g, st')" "mt_Body m = ELocal (Some fn)" "plainC f"
  obtains env dp h hx fxhx where "bindUpdateParams 0 (mt_Params m) [] = Inr (env, dp)"
    "evalFn F sv env initPs fn 1 = Inr (h, initPs)" "plainC h"
    "symCall F sv (lowerFuel F) initPs h [fst (symVarOf ''slot'' t)] = Inr (hx, initPs)"
    "symCall F sv (lowerFuel F) initPs f [fst (symVarOf ''slot'' t), hx] = Inr (fxhx, initPs)"
    "g = eqGoal ''inflationary'' (snd (symVarOf ''slot'' t) @ dp) fxhx hx []" "st' = initPs"
proof -
  from assms(1,2) obtain env dp h st1 hx st3 fxhx where
    b: "bindUpdateParams 0 (mt_Params m) [] = Inr (env, dp)"
    and h: "evalFn F sv env initPs fn 1 = Inr (h, st1)"
    and hx: "symCall F sv (lowerFuel F) (st1\<lparr>ps_decls := [], ps_assume := []\<rparr>) h [fst (symVarOf ''slot'' t)] = Inr (hx, st3)"
    and fx: "symCall F sv (lowerFuel F) st3 f [fst (symVarOf ''slot'' t), hx] = Inr (fxhx, st')"
    and g: "g = eqGoal ''inflationary'' (snd (symVarOf ''slot'' t) @ dp @ ps_decls st') fxhx hx (ps_assume st')"
    by (auto simp: updateGoal_def updateBody_def split_beta Let_def prod_eq_iff)
  from bindUpdateParams_plain [OF b] have "plains env" by simp
  from evalFn_plain [OF h this] have p: "plainC h" "st1 = initPs" by simp_all
  then have i: "st1\<lparr>ps_decls := [], ps_assume := []\<rparr> = initPs" by (simp add: initPs_def)
  from symCall_plain [OF hx p(1)] i have q: "plain hx" "st3 = initPs" by simp_all
  from symCall_plain [OF fx assms(3)] q have "st' = initPs" by simp
  with b h hx fx g i p q that show ?thesis by (simp add: initPs_def)
qed

lemma Prove_goals:
  assumes P: "Prove sv t (EZip (Some fn)) us F = Inr ()" and l: "local_updates us"
  obtains f gs where "evalFn F sv [] initPs fn 2 = Inr (f, initPs)" "plainC f"
    "mergeGoals F sv t f initPs = Inr (gs, initPs)" "\<forall>g \<in> set gs. proveGoal sv g = Inr ()"
    "\<forall>(nm, m) \<in> set us. \<exists>g. updateGoal F sv t f initPs nm m = Inr (g, initPs) \<and> proveGoal sv g = Inr ()"
proof -
  from P obtain f st gs st1 st2 where f: "evalFn F sv [] initPs fn 2 = Inr (f, st)"
    and gs: "mergeGoals F sv t f st = Inr (gs, st1)" "\<forall>g \<in> set gs. proveGoal sv g = Inr ()"
    and us: "foldR (proveUpdate F sv t f) st1 us = Inr st2"
    by (auto simp: Prove_def allR_iff)
  from evalFn_plain [OF f] have p: "plainC f" "st = initPs" by simp_all
  from mergeGoals_plain [OF gs(1) p(1)] p have st1: "st1 = initPs" by simp
  have "\<forall>(nm, m) \<in> set us. \<exists>g. updateGoal F sv t f initPs nm m = Inr (g, initPs) \<and> proveGoal sv g = Inr ()"
    using us [unfolded st1] l
  proof (induction us)
    case (Cons u us)
    obtain nm m where u: "u = (nm, m)" by (cases u)
    from Cons.prems(2) u obtain h where h: "mt_Body m = ELocal (Some h)" "local_updates us"
      by (auto simp: local_updates_def split: expr.splits option.splits)
    from Cons.prems(1) u obtain st3 where st3: "proveUpdate F sv t f initPs (nm, m) = Inr st3"
      "foldR (proveUpdate F sv t f) st3 us = Inr st2" by auto
    then obtain g where g: "updateGoal F sv t f initPs nm m = Inr (g, st3)" "proveGoal sv g = Inr ()"
      by (auto simp: proveUpdate_def)
    from g(1) h(1) p(1) have "st3 = initPs" by (rule updateGoal_local)
    with Cons.IH st3(2) h(2) g u show ?case by auto
  qed simp
  with f gs p st1 that show ?thesis by simp
qed

lemma conforms_vars:
  assumes "conforms t v" "smtable v" "\<And>nm x. (nm, x) \<in> set (leaves p t v) \<Longrightarrow> r nm = Some x"
  shows "denotes r (fst (symVarOf p t)) v" "\<forall>d \<in> set (snd (symVarOf p t)). decl_ok r d"
proof -
  show "denotes r (fst (symVarOf p t)) v"
    by (rule symVar_den [OF assms(1)]) (fact assms(3))
  show "\<forall>d \<in> set (snd (symVarOf p t)). decl_ok r d"
    by (rule symVar_decls [OF assms(1,2)]) (fact assms(3))
qed

lemma merge_laws:
  assumes sv: "solver_sound sv" and P: "Prove sv t (EZip (Some fn)) us F = Inr ()" "local_updates us"
    and sh: "shaped_goals F sv t fn us" and src: "source_ok fn" "funcs_ok F"
    and fv: "evalFuncVal F ord [] fn 2 = Inr fv"
    and tot: "\<And>a b. conforms t a \<Longrightarrow> conforms t b \<Longrightarrow> applyTop F ord fv [a, b] = Inr (J a b) \<and> conforms t (J a b)"
    and m: "conforms t a" "conforms t b" "conforms t c" "smtable a" "smtable b" "smtable c"
  shows "J a b = J b a \<and> J a (J b c) = J (J a b) c \<and> J a a = a"
proof -
  from P obtain f gs where f: "evalFn F sv [] initPs fn 2 = Inr (f, initPs)"
    and gs: "mergeGoals F sv t f initPs = Inr (gs, initPs)" "\<forall>g \<in> set gs. proveGoal sv g = Inr ()"
    by (rule Prove_goals)
  let ?r = "assign3 t a b c"
  obtain c' where c': "fv = VFunc 2 c'" "relC ?r f c'"
    using evalFn_sound [OF f fv src(2,1), of ?r] by auto
  have V: "denotes ?r (fst (symVarOf ''a'' t)) a" "denotes ?r (fst (symVarOf ''b'' t)) b" "denotes ?r (fst (symVarOf ''c'' t)) c"
    "\<forall>d \<in> set (snd (symVarOf ''a'' t)). decl_ok ?r d" "\<forall>d \<in> set (snd (symVarOf ''b'' t)). decl_ok ?r d"
    "\<forall>d \<in> set (snd (symVarOf ''c'' t)). decl_ok ?r d"
    by (rule conforms_vars, fact, fact, erule assign3_lookup)+
  from sh f gs(1) have shg: "\<forall>g \<in> set gs. shaped t (g_lhs g)"
    by (auto simp: shaped_goals_def typeGoals_def list_all_iff split: sum.splits)
  have call: "denotes ?r s (J x y) \<and> conforms t (J x y)"
    if "symCall F sv n st f [p, q] = Inr (s, st')" "denotes ?r p x" "denotes ?r q y" "conforms t x" "conforms t y" for n st p q s st' x y
    using applied_sound [OF that(1) c'(2) src(2), of "[x, y]" ord "J x y"] tot [of x y] that c'(1)
    by (simp add: numeral_2_eq_2)
  from gs(1) show ?thesis
  proof (rule mergeGoals_Inr, goal_cases)
    case (1 fab fba fbc l fab2 u faa s1 s2 s3 s4 s5 s6)
    note ab = call [OF 1(1) V(1,2) m(1,2)] and ba = call [OF 1(2) V(2,1) m(2,1)]
      and bc = call [OF 1(3) V(2,3) m(2,3)] and ab2 = call [OF 1(5) V(1,2) m(1,2)] and aa = call [OF 1(7) V(1,1) m(1,1)]
    note l = call [OF 1(4) V(1) _ m(1)] and u = call [OF 1(6) _ V(3) _ m(3)]
    have pg: "\<forall>g \<in> set gs. proveGoal sv g = Inr () \<and> shaped t (g_lhs g)" using gs(2) shg by blast
    from pg [unfolded 1(8)] have
      "proveGoal sv (eqGoal ''commutativity'' (snd (symVarOf ''a'' t) @ snd (symVarOf ''b'' t)) fab fba []) = Inr ()"
      "proveGoal sv (eqGoal ''associativity'' (snd (symVarOf ''a'' t) @ snd (symVarOf ''b'' t) @ snd (symVarOf ''c'' t)) l u []) = Inr ()"
      "proveGoal sv (eqGoal ''idempotence'' (snd (symVarOf ''a'' t)) faa (fst (symVarOf ''a'' t)) []) = Inr ()"
      by simp_all
    note G = this [THEN proved_goal [where r = ?r, OF sv _ _ assign3_lookup(4)]]
    from pg [unfolded 1(8)] have shs: "shaped t fab" "shaped t l" "shaped t faa" by (simp_all add: eqGoal_def)
    have "J a b = J b a"
      by (rule G(1)) (use V shs ab ba in auto)
    moreover have "J a (J b c) = J (J a b) c"
      by (rule G(2)) (use V shs l u bc ab2 in auto)
    moreover have "J a a = a"
      by (rule G(3)) (use V shs aa m in auto)
    ultimately show ?case by blast
  qed
qed

subsection \<open>Updates are inflationary\<close>

fun paramLeaves :: "nat \<Rightarrow> rtVal list \<Rightarrow> (string \<times> rtVal) list" where
  "paramLeaves i [] = []"
| "paramLeaves i (v # vs) = (''p'' @ nat_String i, v) # paramLeaves (i + 1) vs"

text \<open>The arguments of string parameters have code points the solver knows.\<close>

definition payload_ok :: "paramSpec list \<Rightarrow> goAny list \<Rightarrow> bool" where
  "payload_ok ps vals \<longleftrightarrow> list_all (\<lambda>(p, x). p_Type p \<noteq> ''string'' \<or>
     (case x of GString s \<Rightarrow> smt_runes (go_runes s) | _ \<Rightarrow> True)) (zip ps vals)"

lemma paramLeaves_names: "(nm, x) \<in> set (paramLeaves i vs) \<Longrightarrow> \<exists>j \<ge> i. nm = ''p'' @ nat_String j"
  by (induction i vs rule: paramLeaves.induct) (auto dest: Suc_leD)

lemma paramLeaves_map_of: "(nm, x) \<in> set (paramLeaves i vs) \<Longrightarrow> map_of (paramLeaves i vs) nm = Some x"
proof (induction i vs rule: paramLeaves.induct)
  case (2 i v vs)
  from "2.prems" consider "nm = ''p'' @ nat_String i" "x = v" | "(nm, x) \<in> set (paramLeaves (i + 1) vs)" by auto
  then show ?case
  proof cases
    case 2
    from paramLeaves_names [OF this] obtain j where "j \<ge> i + 1" "nm = ''p'' @ nat_String j" by blast
    then have "nm \<noteq> ''p'' @ nat_String i" using nat_String_inj [of j i] by auto
    with "2.IH" 2 show ?thesis by simp
  qed simp
qed simp

definition assignU :: "elemT \<Rightarrow> rtVal \<Rightarrow> rtVal list \<Rightarrow> string \<Rightarrow> rtVal option" where
  "assignU t x vs = map_of (leaves ''slot'' t x @ paramLeaves 0 vs)"

lemma assignU_lookup:
  "(nm, y) \<in> set (leaves ''slot'' t x) \<Longrightarrow> assignU t x vs nm = Some y"
  "(nm, y) \<in> set (paramLeaves 0 vs) \<Longrightarrow> assignU t x vs nm = Some y"
  "assignU t x vs ''|struct-not-flattened|'' = None"
proof -
  assume n: "(nm, y) \<in> set (leaves ''slot'' t x)"
  show "assignU t x vs nm = Some y"
    using leaves_map_of [OF n] by (simp add: assignU_def map_add_Some_iff)
next
  assume n: "(nm, y) \<in> set (paramLeaves 0 vs)"
  then have "map_of (leaves ''slot'' t x) nm = None"
    using paramLeaves_names [OF n] by (auto intro: leaves_other)
  with paramLeaves_map_of [OF n] show "assignU t x vs nm = Some y" by (simp add: assignU_def map_add_Some_iff)
next
  have "map_of (paramLeaves 0 vs) ''|struct-not-flattened|'' = None"
    using paramLeaves_names by (fastforce simp: map_of_eq_None_iff)
  then show "assignU t x vs ''|struct-not-flattened|'' = None"
    by (simp add: assignU_def leaves_other map_add_def)
qed

text \<open>The symbolic and the runtime binding of an update's parameters correspond.\<close>

lemma bindParam_den:
  assumes "bindParam (p_Type p) val = Inr v" "payload_ok [p] [val]" "r nm = Some v"
  shows "p_Type p = ''string'' \<Longrightarrow> denotes r (SymVar SortStr nm) v \<and> decl_ok r (DeclStr nm)"
    and "p_Type p \<noteq> ''string'' \<Longrightarrow> nt_Parse (p_Type p) = Some nt \<Longrightarrow> denotes r (SymVar SortNum nm) v \<and> decl_ok r (DeclNum nm nt)"
  using assms
  by (auto simp: bindParam_def decl_ok_def lit_ok_def payload_ok_def intro: den_var split: goAny.splits if_splits)

lemma bindUpdateParams_sound:
  "bindUpdateParams i ps env = Inr (env', ds) \<Longrightarrow> bindParams_from ps vals renv = Inr renv' \<Longrightarrow> payload_ok ps vals \<Longrightarrow>
    \<exists>vs. \<forall>r. (\<forall>(nm, x) \<in> set (paramLeaves i vs). r nm = Some x) \<longrightarrow> relE r env renv \<longrightarrow>
      relE r env' renv' \<and> (\<forall>d \<in> set ds. decl_ok r d)"
proof (induction i ps env arbitrary: env' ds vals renv rule: bindUpdateParams.induct)
  case (1 i env)
  then show ?case by auto
next
  case (2 i p ps env)
  define nm where "nm = ''p'' @ nat_String i"
  from "2.prems"(2) obtain val vals' v where val: "vals = val # vals'" "bindParam (p_Type p) val = Inr v"
    "bindParams_from ps vals' (mput (p_Name p) v renv) = Inr renv'"
    by (cases vals) auto
  from "2.prems"(1) obtain s d ds' where s:
    "(if p_Type p = ''string'' then Inr (SymVar SortStr nm, DeclStr nm)
      else case nt_Parse (p_Type p) of None \<Rightarrow> Inl (PvParamType (p_Type p))
        | Some nt \<Rightarrow> Inr (SymVar SortNum nm, DeclNum nm nt)) = Inr (s, d)"
    "bindUpdateParams (i + 1) ps (mput (p_Name p) s env) = Inr (env', ds')" "ds = d # ds'"
    using that unfolding bindUpdateParams.simps Let_def nm_def [symmetric] rbind_eq_Inr by auto
  have pay: "payload_ok [p] [val]" "payload_ok ps vals'" using "2.prems"(3) val(1) by (auto simp: payload_ok_def)
  from "2.IH" [OF refl s(1) [unfolded nm_def] refl s(2) val(3) pay(2)] obtain vs where vs:
    "\<forall>r. (\<forall>(nm, x) \<in> set (paramLeaves (i + 1) vs). r nm = Some x) \<longrightarrow>
      relE r (mput (p_Name p) s env) (mput (p_Name p) v renv) \<longrightarrow> relE r env' renv' \<and> (\<forall>d \<in> set ds'. decl_ok r d)"
    by blast
  have "relE r env' renv' \<and> (\<forall>d \<in> set ds. decl_ok r d)"
    if r: "\<forall>(nm, x) \<in> set (paramLeaves i (v # vs)). r nm = Some x" "relE r env renv" for r
  proof -
    from r(1) have rv: "r nm = Some v" by (simp add: nm_def)
    have "denotes r s v \<and> decl_ok r d"
      using s(1) bindParam_den [where r = r and nm = nm, OF val(2) pay(1) rv] by (auto split: if_splits option.splits)
    with vs r s(3) show ?thesis by (simp add: relE_mput)
  qed
  then show ?case by blast
qed

lemma update_law:
  assumes sv: "solver_sound sv" and P: "Prove sv t (EZip (Some fn)) us F = Inr ()" "local_updates us"
    and sh: "shaped_goals F sv t fn us" and src: "source_ok fn" "funcs_ok F"
    and fv: "evalFuncVal F ord [] fn 2 = Inr fv"
    and u: "(nm, m) \<in> set us" "mt_Body m = ELocal (Some h)"
    and env: "bindParams (mt_Params m) payload = Inr env" "payload_ok (mt_Params m) payload"
    and hv: "evalFuncVal F ord env h 1 = Inr hv" "applyTop F ord hv [x] = Inr y"
    and z: "applyTop F ord fv [x, y] = Inr z" "conforms t z"
    and x: "conforms t x" "smtable x" "conforms t y"
  shows "z = y"
proof -
  from P obtain f gs where f: "evalFn F sv [] initPs fn 2 = Inr (f, initPs)" "plainC f"
    and gs: "mergeGoals F sv t f initPs = Inr (gs, initPs)"
    and us: "\<forall>(nm, m) \<in> set us. \<exists>g. updateGoal F sv t f initPs nm m = Inr (g, initPs) \<and> proveGoal sv g = Inr ()"
    by (rule Prove_goals)
  from us u(1) obtain g where g: "updateGoal F sv t f initPs nm m = Inr (g, initPs)" "proveGoal sv g = Inr ()" by auto
  from sh f(1) gs obtain hs where hs: "mapR (\<lambda>(nm, m). rmap fst (updateGoal F sv t f initPs nm m)) us = Inr hs"
    "\<forall>g \<in> set hs. shaped t (g_lhs g)"
    by (auto simp: shaped_goals_def typeGoals_def list_all_iff split: sum.splits)
  have "g \<in> set hs"
    using hs(1) u(1) g(1) by (induction us arbitrary: hs) auto
  with hs(2) have shg: "shaped t (g_lhs g)" by blast
  have srch: "source_ok h" using P(2) u by (auto simp: local_updates_def list_all_iff)
  from g(1) u(2) f(2) show ?thesis
  proof (rule updateGoal_local)
    fix senv dp hc hx fxhx
    assume b: "bindUpdateParams 0 (mt_Params m) [] = Inr (senv, dp)"
      and hc: "evalFn F sv senv initPs h 1 = Inr (hc, initPs)"
      and hx: "symCall F sv (lowerFuel F) initPs hc [fst (symVarOf ''slot'' t)] = Inr (hx, initPs)"
      and fx: "symCall F sv (lowerFuel F) initPs f [fst (symVarOf ''slot'' t), hx] = Inr (fxhx, initPs)"
      and gd: "g = eqGoal ''inflationary'' (snd (symVarOf ''slot'' t) @ dp) fxhx hx []"
    from bindUpdateParams_sound [OF b env(1) [unfolded bindParams_def] env(2)] obtain vs where
      vs: "\<And>r. \<forall>(nm, x) \<in> set (paramLeaves 0 vs). r nm = Some x \<Longrightarrow> relE r senv env \<and> (\<forall>d \<in> set dp. decl_ok r d)"
      by auto
    let ?r = "assignU t x vs"
    have "\<forall>(nm, y) \<in> set (paramLeaves 0 vs). ?r nm = Some y"
      by (clarify, rule assignU_lookup)
    from vs [OF this] have R: "relE ?r senv env" "\<forall>d \<in> set dp. decl_ok ?r d" by blast+
    have X: "denotes ?r (fst (symVarOf ''slot'' t)) x" "\<forall>d \<in> set (snd (symVarOf ''slot'' t)). decl_ok ?r d"
      by (rule conforms_vars, fact, fact, erule assignU_lookup)+
    obtain c' where c': "fv = VFunc 2 c'" "relC ?r f c'"
      using evalFn_sound [OF f(1) fv src(2,1), of ?r] by auto
    obtain k' where k': "hv = VFunc 1 k'" "relC ?r hc k'"
      using evalFn_sound [OF hc hv(1) src(2) srch R(1)] by auto
    have y: "denotes ?r hx y"
      using applied_sound [OF hx k'(2) src(2), of "[x]" ord y] X hv(2) k'(1) by simp
    have zz: "denotes ?r fxhx z"
      using applied_sound [OF fx c'(2) src(2), of "[x, y]" ord z] X y z(1) c'(1) by (simp add: numeral_2_eq_2)
    show "z = y"
      by (rule proved_goal [where r = ?r, OF sv g(2) [unfolded gd] _ assignU_lookup(3) zz y z(2) x(3)])
        (use X R shg gd in \<open>auto simp: eqGoal_def\<close>)
  qed
qed

end
