(* ===== verification/Proved.thy ===== *)
theory Proved
  imports ProverSound BuilderProps
begin

text \<open>
  From the prover to the cluster: \<open>Prove_contract\<close> derives the contract of Convergence.thy from a
  successful \<open>Prove\<close> with a sound solver, for models in the fragment \<open>in_fragment\<close> (numeric leaves
  and parameters, local updates). What the type checker is to ensure is the hypothesis \<open>typed_ops\<close>;
  the prover does not look at it.
\<close>

subsection \<open>The contract of a proved type\<close>




















subsection \<open>The counter, proved\<close>

text \<open>A solver that answers \<open>unsat\<close> exactly on the refuted scripts.\<close>

definition exact_solver :: solver where
  "exact_solver = \<lparr> sv_found = True, sv_output = (\<lambda>cs. if refuted cs then ''unsat'' else ''unknown''),
     sv_timeout = (\<lambda>cs. False) \<rparr>"




abbreviation "maxT a b \<equiv> SymBin ''max'' a b"
abbreviation "numV nm \<equiv> SymVar SortNum nm"
abbreviation "declV nm \<equiv> DeclNum nm (NumType DRat SNonNeg)"











subsection \<open>The counter's operations are typed\<close>











subsection \<open>Theorems\<close>








text \<open>
  C4: Symbolic execution is sound. Whenever evaluation of an expression yields a value, the
  expression's lowering means that value, under any values of the symbolic variables for which the
  two environments correspond: calls are inlined, guards become conditionals distributed over
  structs, partial applications are saturated, and nothing of it changes the result.
\<close>

theorem lowering_sound:
  assumes "lower F sv n vis env st e = Inr (LVal s, st')" and "funcs_ok F" "source_ok e"
    and "relE r env renv" and "eval F ord k d renv e = Inr v"
  shows "denotes r s v"
  using lower_sound [OF assms] by simp

lemma lowering_sound_witness:
  "denotes (\<lambda>nm. Some (VNum 4)) (SymIte (SymCmp ''>'' (SymVar SortNum ''v'') (SymConst 1)) (SymVar SortNum ''v'') (SymConst 1)) (VNum 4)"
  by (rule lowering_sound [of "[]" exact_solver 1 "[]" "[(''x'', SymVar SortNum ''v'')]" initPs
      "EGuards [GuardCase (Some (EApp (Some (ERef ''>'' 2 RefPrimitive)) [EVar ''x'', ENumLit 1])) (Some (EVar ''x'')) False,
         GuardCase None (Some (ENumLit 1)) True]" _ initPs _ "[(''x'', VNum 4)]" "\<lambda>m. m" 1 0])
    (simp_all add: primSym_def cmpOpNames_def iteSym.simps isStruct_def funcs_ok_def relE_def den_SymVar at_depth_def
      refVal_def primOp_def)



end
