(* ===== verification/ProverTotal.thy ===== *)
theory ProverTotal
  imports SymSound
begin

text \<open>
  The prover always returns: lowering inlines every function at most once on a call chain, so the
  fuel of one more than the number of functions is enough, and no closure is called with too few
  arguments. \<open>room\<close> is the invariant: fuel exceeds the number of functions not yet being inlined.
\<close>

fun stuck :: "proveErr \<Rightarrow> bool" where
  "stuck PvFuel = True"
| "stuck PvPanic = True"
| "stuck (PvUpdate nm e) = stuck e"
| "stuck e = False"

fun clo_at :: "func gomap \<Rightarrow> string list \<Rightarrow> symClo \<Rightarrow> nat \<Rightarrow> bool" where
  "clo_at F vis (CSPrim nm) k = (k = 2)"
| "clo_at F vis (CSUser nm vis') k =
     (vis' = vis \<and> (case map_of F nm of None \<Rightarrow> False | Some def \<Rightarrow> k = length (f_Params def)))"
| "clo_at F vis (CSPartial c b) k = clo_at F vis c (length b + k)"

definition room :: "func gomap \<Rightarrow> nat \<Rightarrow> string list \<Rightarrow> bool" where
  "room F n vis \<longleftrightarrow> card (fst ` set F - set vis) < n"

definition fine :: "('a \<Rightarrow> bool) \<Rightarrow> proveErr + 'a \<Rightarrow> bool" where
  "fine P r = (case r of Inl e \<Rightarrow> \<not> stuck e | Inr x \<Rightarrow> P x)"

lemma fine_simps [simp]: "fine P (Inl e) \<longleftrightarrow> \<not> stuck e" "fine P (Inr x) \<longleftrightarrow> P x"
  by (simp_all add: fine_def)

lemma fine_rbind: "fine P r \<Longrightarrow> (\<And>x. r = Inr x \<Longrightarrow> P x \<Longrightarrow> fine Q (f x)) \<Longrightarrow> fine Q (rbind r f)"
  by (cases r) auto

lemma fine_mono: "fine P r \<Longrightarrow> (\<And>x. P x \<Longrightarrow> Q x) \<Longrightarrow> fine Q r"
  by (cases r) auto

fun lowered_at :: "func gomap \<Rightarrow> string list \<Rightarrow> lowered \<times> pstate \<Rightarrow> bool" where
  "lowered_at F vis (LVal s, st) = True"
| "lowered_at F vis (LFn k c, st) = clo_at F vis c k"

lemma fine_wantVal: "\<not> stuck e \<Longrightarrow> fine (\<lambda>x. True) (wantVal e r)"
  by (cases r; cases "fst r") (auto simp: wantVal_def)

lemma room_call:
  assumes "room F n vis" "map_of F nm = Some def" "nm \<notin> set vis"
  shows "room F (n - 1) (nm # vis)" "0 < n"
proof -
  have "nm \<in> fst ` set F - set vis" using assms(2,3) by (force dest: map_of_SomeD)
  then have "card (fst ` set F - set (nm # vis)) < card (fst ` set F - set vis)"
    by (intro psubset_card_mono) auto
  with assms(1) show "room F (n - 1) (nm # vis)" "0 < n" by (auto simp: room_def)
qed

lemma fine_proveGoal: "fine (\<lambda>x. True) (proveGoal sv g)"
  by (cases "checkGoal sv g") (auto simp: proveGoal_def)

lemma fine_projectSym: "fine (\<lambda>x. True) (projectSym s path)"
  by (induction s path rule: projectSym.induct) (auto split: sym.split option.split)

lemma fine_boundReduce: "fine (\<lambda>r. \<exists>s st. r = (LVal s, st)) (boundReduce sv op path self t iv body st)"
  unfolding boundReduce_def foldLemmas_def Let_def
  by (auto split: prod.split intro!: fine_rbind [OF fine_projectSym] fine_rbind [OF fine_proveGoal]
      fine_rbind [OF fine_rbind [OF fine_proveGoal fine_proveGoal]])

text \<open>The body of a recognised fold: an application of a primitive to a variable and a projection.\<close>

lemma fine_projection:
  "projectionPath e v = Inr p \<Longrightarrow> fine (\<lambda>r. \<exists>s. r = (LVal s, st)) (lower F sv n vis env st e)"
proof (induction e v arbitrary: p rule: projectionPath.induct)
  case (1 e v)
  note P = "1.prems" [unfolded projectionPath.simps [of e v]]
  show ?case
  proof (cases e)
    case (EField t f)
    with P obtain t' q where t: "t = Some t'" "projectionPath t' v = Inr q"
      by (cases t) auto
    from "1.IH" [OF EField t(1) t(2)] EField t(1) show ?thesis
      by (cases "lower F sv n vis env st t'") (auto simp: wantVal_def split: sym.split option.split)
  next
    case (EVar x)
    then show ?thesis by (simp split: option.split)
  qed (use P in simp_all)
qed

lemma fine_var: "isVarNamed e x \<Longrightarrow> fine (\<lambda>r. \<exists>s. r = (LVal s, st)) (lower F sv n vis env st e)"
  by (cases e) (auto simp: isVarNamed_def split: option.split)

lemma fine_fold_args:
  assumes "fine (\<lambda>r. \<exists>s. r = (LVal s, st)) (lower F sv n vis env st a0)"
    "fine (\<lambda>r. \<exists>s. r = (LVal s, st)) (lower F sv n vis env st a1)"
  shows "fine (\<lambda>x. True) (rbind (lower F sv n vis env st (EApp (Some (ERef op k RefPrimitive)) [a0, a1])) (wantVal e))"
  using assms
  by (cases "lower F sv n vis env st a0"; cases "lower F sv n vis env st a1") (auto simp: wantVal_def)

lemma foldBody_shape:
  assumes "foldBody def = Inr (op, path)"
  obtains pa pe a0 a1 op' k where "f_Params def = [pa, pe]" "f_Body def = EApp (Some (ERef op' k RefPrimitive)) [a0, a1]"
    "isVarNamed a0 (p_Name pa) \<and> projectionPath a1 (p_Name pe) = Inr path \<or>
     isVarNamed a1 (p_Name pa) \<and> projectionPath a0 (p_Name pe) = Inr path"
  using assms that unfolding foldBody_def
  by (auto split: list.splits expr.splits option.splits refKind.splits if_splits)

lemma fine_True_pair: "fine (\<lambda>r. True) r \<Longrightarrow> (\<And>x y. r = Inr (x, y) \<Longrightarrow> fine Q (f x y)) \<Longrightarrow> fine Q (rbind r (\<lambda>(x, y). f x y))"
  by (cases r) auto

lemma fine_fold:
  assumes "foldProjection F fn = Inr (op, path)" "0 < n"
  shows "fine (lowered_at F vis) (rbind (lower F sv n [] [] st fn) (\<lambda>(fr, st3).
      case fr of
        LVal s \<Rightarrow> Inl (PvWantFn 2 0)
      | LFn k c \<Rightarrow>
          if k \<noteq> 2 then Inl (PvWantFn 2 k)
          else rbind (symCall F sv n st3 c [x, y]) (\<lambda>(body, st4). boundReduce sv op path self t iv body st4)))"
proof -
  have b: "fine (lowered_at F vis) (boundReduce sv op path self t iv body st4)" for body st4
    by (rule fine_mono [OF fine_boundReduce]) auto
  from assms(1) consider nm k where "fn = ERef nm k RefPrimitive"
    | nm k def where "fn = ERef nm k RefFunction" "map_of F nm = Some def" "foldBody def = Inr (op, path)"
    by (auto simp: foldProjection_def split: expr.splits refKind.splits option.splits)
  then show ?thesis
  proof cases
    case 1
    with b show ?thesis by simp
  next
    case 2
    from foldBody_shape [OF 2(3)] obtain pa pe a0 a1 op' k' where s: "f_Params def = [pa, pe]"
      "f_Body def = EApp (Some (ERef op' k' RefPrimitive)) [a0, a1]"
      "isVarNamed a0 (p_Name pa) \<and> projectionPath a1 (p_Name pe) = Inr path \<or>
       isVarNamed a1 (p_Name pa) \<and> projectionPath a0 (p_Name pe) = Inr path" .
    have a: "fine (\<lambda>r. \<exists>s. r = (LVal s, st)) (lower F sv m vis env st a0)"
      "fine (\<lambda>r. \<exists>s. r = (LVal s, st)) (lower F sv m vis env st a1)" for m vis env
      using s(3) fine_var fine_projection by blast+
    have c: "fine (\<lambda>x. True) (symCall F sv n st (CSUser nm []) [x, y])"
      using fine_fold_args [OF a] 2(2) assms(2) s(1,2) by (simp del: lower.simps)
    have l: "lower F sv n [] [] st fn = Inr (LFn 2 (CSUser nm []), st)" using 2 s(1) by simp
    have "fine (lowered_at F vis) (rbind (symCall F sv n st (CSUser nm []) [x, y])
        (\<lambda>(body, st4). boundReduce sv op path self t iv body st4))"
      by (rule fine_True_pair [OF c b])
    then show ?thesis unfolding l by (simp del: symCall.simps)
  qed
qed

lemma fine_projectionPath: "fine (\<lambda>x. True) (projectionPath e v)"
proof (induction e v rule: projectionPath.induct)
  case (1 e v)
  then show ?case
    unfolding projectionPath.simps [of e v] by (auto split: expr.split option.split intro!: fine_rbind)
qed

lemma fine_foldProjection: "fine (\<lambda>x. True) (foldProjection F fn)"
proof -
  have p: "fine (\<lambda>x. True) (rbind (projectionPath e v) (\<lambda>p. Inr (f p)))" for e v and f :: "string list \<Rightarrow> string \<times> string list"
    by (rule fine_rbind [OF fine_projectionPath]) simp
  have "fine (\<lambda>x. True) (foldBody def)" for def
    unfolding foldBody_def by (auto split: list.split expr.split option.split refKind.split intro: p)
  then show ?thesis
    unfolding foldProjection_def by (auto split: expr.split refKind.split option.split)
qed

lemma fine_iteSym:
  "fine (\<lambda>x. True) (iteSym c a b)"
  "fine (\<lambda>x. True) (iteFields c fs gs)"
proof (induction c a b and c fs gs rule: iteSym_iteFields.induct)
  case (1 c a b)
  then show ?case by (auto simp: iteSym.simps split: sym.split intro!: fine_rbind)
next
  case (3 c k a fs gs)
  show ?case
  proof (cases "map_of gs k")
    case (Some b)
    have "fine (\<lambda>x. True) (rbind (iteSym c a b) (\<lambda>t. rbind (iteFields c fs gs) (\<lambda>hs. Inr ((k, t) # hs))))"
      by (rule fine_rbind [OF "3.IH"(1) [OF Some]], rule fine_rbind [OF "3.IH"(2) [OF Some]]) auto
    with Some show ?thesis by simp
  qed simp
qed simp

lemma lower_total_all:
  "room F n vis \<Longrightarrow> fine (lowered_at F vis) (lower F sv n vis env st e)"
  "room F n vis \<Longrightarrow> fine (\<lambda>r. True) (lowerArgs F sv n vis env st es)"
  "room F n vis \<Longrightarrow> fine (\<lambda>r. True) (lowerCases F sv n vis env st cs)"
  "room F n vis \<Longrightarrow> fine (\<lambda>r. True) (lowerFields F sv n vis env st sfs m)"
  "\<And>vis. room F n vis \<Longrightarrow> clo_at F vis c (length args) \<Longrightarrow> fine (\<lambda>r. True) (symCall F sv n st c args)"
proof (induction F sv n vis env st e and F sv n vis env st es and F sv n vis env st cs
    and F sv n vis env st sfs m and F sv n st c args
    rule: lower_lowerArgs_lowerCases_lowerFields_symCall.induct)
  case (3 F sv n vis env st x)
  then show ?case by (simp split: option.split)
next
  case (4 F sv n vis env st nm a rk)
  then show ?case by (simp split: option.split refKind.split)
next
  case (5 F sv n vis env st h as)
  show ?case
  proof (cases h)
    case (Some h')
    have "fine (lowered_at F vis) (rbind (lower F sv n vis env st h') (\<lambda>(hr, st1).
        case hr of
          LVal s \<Rightarrow> Inl PvNotFn
        | LFn k c \<Rightarrow>
            rbind (lowerArgs F sv n vis env st1 as) (\<lambda>(args, st2).
            if length args = k then rbind (symCall F sv n st2 c args) (\<lambda>(s, st3). Inr (LVal s, st3))
            else if length args < k then Inr (LFn (k - length args) (CSPartial c args), st2)
            else Inl (PvTooMany k (length args)))))"
    proof (rule fine_rbind [OF "5.IH"(1) [OF Some "5.prems"]], clarify)
      fix hr st1 assume h: "lower F sv n vis env st h' = Inr (hr, st1)" "lowered_at F vis (hr, st1)"
      show "fine (lowered_at F vis) (case hr of
          LVal s \<Rightarrow> Inl PvNotFn
        | LFn k c \<Rightarrow>
            rbind (lowerArgs F sv n vis env st1 as) (\<lambda>(args, st2).
            if length args = k then rbind (symCall F sv n st2 c args) (\<lambda>(s, st3). Inr (LVal s, st3))
            else if length args < k then Inr (LFn (k - length args) (CSPartial c args), st2)
            else Inl (PvTooMany k (length args))))"
      proof (cases hr)
        case (LFn k c)
        have "fine (lowered_at F vis) (if length args = k then rbind (symCall F sv n st2 c args) (\<lambda>(s, st3). Inr (LVal s, st3))
            else if length args < k then Inr (LFn (k - length args) (CSPartial c args), st2)
            else Inl (PvTooMany k (length args)))" if a: "lowerArgs F sv n vis env st1 as = Inr (args, st2)" for args st2
        proof (cases "length args = k")
          case True
          from "5.IH"(3) [OF Some h(1) refl LFn a refl True "5.prems"] h(2) LFn True
          show ?thesis by (auto intro!: fine_rbind [where P = "\<lambda>r. True"])
        next
          case False
          with h(2) LFn show ?thesis by simp
        qed
        with "5.IH"(2) [OF Some h(1) refl LFn "5.prems"] LFn show ?thesis
          by (auto intro!: fine_rbind [where P = "\<lambda>r. True"])
      qed simp
    qed
    with Some show ?thesis by simp
  qed simp
next
  case (6 F sv n vis env st cs)
  then show ?case by (auto intro!: fine_rbind [where P = "\<lambda>r. True"])
next
  case (7 F sv n vis env st sfs)
  then show ?case by (auto intro!: fine_rbind [where P = "\<lambda>r. True"])
next
  case (8 F sv n vis env st t fld)
  show ?case
  proof (cases t)
    case (Some t')
    have "fine (lowered_at F vis) (rbind (lower F sv n vis env st t') (\<lambda>r.
          rbind (wantVal PvFieldOfFn r) (\<lambda>(s, st').
          case s of
            SymStruct fs \<Rightarrow>
              (case map_of fs fld of None \<Rightarrow> Inl (PvNoField fld) | Some v \<Rightarrow> Inr (LVal v, st'))
          | _ \<Rightarrow> Inl (PvNonStruct fld))))"
      by (rule fine_rbind [OF "8.IH" [OF Some "8.prems"]], rule fine_rbind [OF fine_wantVal])
        (auto split: sym.split option.split)
    with Some show ?thesis by simp
  qed simp
next
  case (9 F sv n vis env st fn i v)
  have n: "0 < n" using "9.prems" by (simp add: room_def)
  show ?case
  proof (cases "fn = None \<or> i = None \<or> v = None")
    case False
    then obtain fn' i' v' where fiv: "fn = Some fn'" "i = Some i'" "v = Some v'" by auto
    have "fine (lowered_at F vis) (rbind (lower F sv n vis env st v') (\<lambda>r1.
        rbind (wantVal PvReduceVector r1) (\<lambda>(vs, st1).
        case vs of
          SymVector self t \<Rightarrow>
            rbind (lower F sv n vis env st1 i') (\<lambda>r2.
            rbind (wantVal PvReduceInit r2) (\<lambda>(iv, st2).
            rbind (foldProjection F fn') (\<lambda>(op, path).
            rbind (lower F sv n [] [] st2 fn') (\<lambda>(fr, st3).
            case fr of
              LVal s \<Rightarrow> Inl (PvWantFn 2 0)
            | LFn k c \<Rightarrow>
                if k \<noteq> 2 then Inl (PvWantFn 2 k)
                else
                  rbind (symCall F sv n st3 c [SymVar SortNum ''acc'', fst (symVarOf ''e'' t)]) (\<lambda>(body, st4).
                  boundReduce sv op path self t iv body st4)))))
        | _ \<Rightarrow> Inl PvReduceVector)))"
    proof (rule fine_rbind [OF "9.IH"(1) [OF fiv "9.prems"]], rule fine_True_pair [OF fine_wantVal], simp)
      fix r1 vs st1
      assume r1: "lower F sv n vis env st v' = Inr r1" "wantVal PvReduceVector r1 = Inr (vs, st1)"
      show "fine (lowered_at F vis) (case vs of
          SymVector self t \<Rightarrow>
            rbind (lower F sv n vis env st1 i') (\<lambda>r2.
            rbind (wantVal PvReduceInit r2) (\<lambda>(iv, st2).
            rbind (foldProjection F fn') (\<lambda>(op, path).
            rbind (lower F sv n [] [] st2 fn') (\<lambda>(fr, st3).
            case fr of
              LVal s \<Rightarrow> Inl (PvWantFn 2 0)
            | LFn k c \<Rightarrow>
                if k \<noteq> 2 then Inl (PvWantFn 2 k)
                else
                  rbind (symCall F sv n st3 c [SymVar SortNum ''acc'', fst (symVarOf ''e'' t)]) (\<lambda>(body, st4).
                  boundReduce sv op path self t iv body st4)))))
        | _ \<Rightarrow> Inl PvReduceVector)"
      proof (cases vs)
        case (SymVector self t)
        show ?thesis
          unfolding SymVector sym.case
        proof (rule fine_rbind [OF "9.IH"(2) [OF fiv r1 refl SymVector "9.prems"]],
            rule fine_True_pair [OF fine_wantVal], simp, rule fine_True_pair [OF fine_foldProjection])
          fix r2 iv st2 op path
          assume "foldProjection F fn' = Inr (op, path)"
          then show "fine (lowered_at F vis) (rbind (lower F sv n [] [] st2 fn') (\<lambda>(fr, st3).
            case fr of
              LVal s \<Rightarrow> Inl (PvWantFn 2 0)
            | LFn k c \<Rightarrow>
                if k \<noteq> 2 then Inl (PvWantFn 2 k)
                else
                  rbind (symCall F sv n st3 c [SymVar SortNum ''acc'', fst (symVarOf ''e'' t)]) (\<lambda>(body, st4).
                  boundReduce sv op path self t iv body st4)))"
            by (rule fine_fold) (rule n)
        qed
      qed simp_all
    qed
    with fiv show ?thesis by simp
  qed (auto split: option.split)
next
  case (15 F sv n vis env st e es)
  have "fine (\<lambda>r. True) (rbind (lower F sv n vis env st e) (\<lambda>r.
     rbind (wantVal PvFnArg r) (\<lambda>(s, st1).
     rbind (lowerArgs F sv n vis env st1 es) (\<lambda>(ss, st2). Inr (s # ss, st2)))))"
  proof (rule fine_rbind [OF "15.IH"(1) [OF "15.prems"]], rule fine_True_pair [OF fine_wantVal], simp)
    fix r s st1 assume r: "lower F sv n vis env st e = Inr r" "wantVal PvFnArg r = Inr (s, st1)"
    show "fine (\<lambda>r. True) (rbind (lowerArgs F sv n vis env st1 es) (\<lambda>(ss, st2). Inr (s # ss, st2)))"
      by (rule fine_True_pair [OF "15.IH"(2) [OF r refl "15.prems"]]) simp
  qed
  then show ?case by simp
next
  case (17 F sv n vis env st cond res ow cs)
  show ?case
  proof (cases "cs = []")
    case True
    show ?thesis
    proof (cases "ow \<and> res \<noteq> None")
      case w: True
      then obtain r' where r': "res = Some r'" by auto
      from "17.IH"(1) [OF True _ r' "17.prems"] w have "fine (\<lambda>r. True) (rbind (lower F sv n vis env st r') (wantVal PvGuard))"
        by (intro fine_rbind [OF _ fine_wantVal]) simp_all
      with True w r' show ?thesis by simp
    next
      case False
      with True show ?thesis by (auto split: option.split)
    qed
  next
    case False
    have "fine (\<lambda>r. True) (rbind (lowerCases F sv n vis env st cs) (\<lambda>(acc, st1).
        case cond of None \<Rightarrow> Inl PvGuard | Some c' \<Rightarrow>
        case res of None \<Rightarrow> Inl PvGuard | Some r' \<Rightarrow>
          rbind (lower F sv n vis env st1 c') (\<lambda>(cl, st2).
          rbind (lower F sv n vis env st2 r') (\<lambda>(rl, st3).
          rbind (wantVal PvGuard (cl, st3)) (\<lambda>(cv, _).
          rbind (wantVal PvGuard (rl, st3)) (\<lambda>(rv, _).
          rbind (iteSym cv rv acc) (\<lambda>s. Inr (s, st3))))))))"
    proof (rule fine_True_pair [OF "17.IH"(2) [OF False "17.prems"]])
      fix acc st1 assume a: "lowerCases F sv n vis env st cs = Inr (acc, st1)"
      show "fine (\<lambda>r. True) (case cond of None \<Rightarrow> Inl PvGuard | Some c' \<Rightarrow>
        case res of None \<Rightarrow> Inl PvGuard | Some r' \<Rightarrow>
          rbind (lower F sv n vis env st1 c') (\<lambda>(cl, st2).
          rbind (lower F sv n vis env st2 r') (\<lambda>(rl, st3).
          rbind (wantVal PvGuard (cl, st3)) (\<lambda>(cv, _).
          rbind (wantVal PvGuard (rl, st3)) (\<lambda>(rv, _).
          rbind (iteSym cv rv acc) (\<lambda>s. Inr (s, st3)))))))"
      proof (cases "cond = None \<or> res = None")
        case sm: False
        then obtain c' r' where c': "cond = Some c'" "res = Some r'" by auto
        have "fine (\<lambda>r. True) (rbind (lower F sv n vis env st1 c') (\<lambda>(cl, st2).
          rbind (lower F sv n vis env st2 r') (\<lambda>(rl, st3).
          rbind (wantVal PvGuard (cl, st3)) (\<lambda>(cv, _).
          rbind (wantVal PvGuard (rl, st3)) (\<lambda>(rv, _).
          rbind (iteSym cv rv acc) (\<lambda>s. Inr (s, st3)))))))"
        proof (rule fine_True_pair [OF fine_mono [OF "17.IH"(3) [OF False a refl c' "17.prems"] TrueI]])
          fix cl st2 assume c: "lower F sv n vis env st1 c' = Inr (cl, st2)"
          show "fine (\<lambda>r. True) (rbind (lower F sv n vis env st2 r') (\<lambda>(rl, st3).
          rbind (wantVal PvGuard (cl, st3)) (\<lambda>(cv, _).
          rbind (wantVal PvGuard (rl, st3)) (\<lambda>(rv, _).
          rbind (iteSym cv rv acc) (\<lambda>s. Inr (s, st3))))))"
            by (rule fine_True_pair [OF fine_mono [OF "17.IH"(4) [OF False a refl c' c refl "17.prems"] TrueI]],
                rule fine_True_pair [OF fine_wantVal], simp, rule fine_True_pair [OF fine_wantVal], simp)
              (auto intro!: fine_rbind [OF fine_iteSym(1)])
        qed
        with c' show ?thesis by simp
      qed (auto split: option.split)
    qed
    with False show ?thesis by simp
  qed
next
  case (19 F sv n vis env st nm val sfs m)
  show ?case
  proof (cases val)
    case (Some e)
    have "fine (\<lambda>r. True) (rbind (lower F sv n vis env st e) (\<lambda>r.
        rbind (wantVal (PvFieldNotValue nm) r) (\<lambda>(s, st1). lowerFields F sv n vis env st1 sfs (mput nm s m))))"
      by (rule fine_rbind [OF "19.IH"(1) [OF Some "19.prems"]], rule fine_True_pair [OF fine_wantVal], simp)
        (rule "19.IH"(2) [OF Some _ _ refl "19.prems"])
    with Some show ?thesis by simp
  qed simp
next
  case (20 F sv n st op args)
  then show ?case by (auto split: list.split simp: length_Suc_conv numeral_2_eq_2)
next
  case (21 F sv n st nm vis' args)
  show ?case
  proof (cases "map_of F nm")
    case (Some def)
    show ?thesis
    proof (cases "nm \<in> set vis'")
      case False
      from "21.prems"(2) Some have v: "vis' = vis" "length args = length (f_Params def)" by auto
      note r = room_call [OF "21.prems"(1) Some False [unfolded v(1)]]
      have "fine (lowered_at F (nm # vis')) (lower F sv (n - 1) (nm # vis') (symEnv (f_Params def) args) st (f_Body def))"
        by (rule "21.IH" [OF Some False]) (use v r in simp_all)
      then have "fine (\<lambda>r. True) (rbind (lower F sv (n - 1) (nm # vis') (symEnv (f_Params def) args) st (f_Body def))
          (wantVal (PvNoValueFn nm)))"
        by (rule fine_rbind [OF _ fine_wantVal]) simp
      with Some False v r show ?thesis by simp
    qed (use Some in simp)
  qed (use "21.prems"(2) in simp)
next
  case (22 F sv n st c bound rest)
  then show ?case by simp
qed auto

text \<open>The whole run: the closures come from \<^const>\<open>evalFn\<close> and are called at their arity.\<close>

lemma room_start: "room F (lowerFuel F) []"
  using card_length [of "map fst F"] by (simp add: room_def lowerFuel_def)

lemma fine_symCall: "clo_at F [] c (length args) \<Longrightarrow> fine (\<lambda>r. True) (symCall F sv (lowerFuel F) st c args)"
  by (rule lower_total_all(5) [OF room_start])

lemma fine_evalFn: "fine (\<lambda>(c, st'). clo_at F [] c k) (evalFn F sv env st e k)"
  unfolding evalFn_def
  by (rule fine_rbind [OF lower_total_all(1) [OF room_start]]) (auto split: lowered.split)

lemma fine_bindUpdateParams: "fine (\<lambda>x. True) (bindUpdateParams i ps env)"
proof (induction ps arbitrary: i env)
  case (Cons p ps)
  show ?case
    unfolding bindUpdateParams.simps Let_def
    by (rule fine_rbind [where P = "\<lambda>r. True"])
      (auto split: option.split intro!: fine_True_pair [OF Cons.IH])
qed simp

lemma fine_rwrap: "fine P r \<Longrightarrow> (\<And>e. \<not> stuck e \<Longrightarrow> \<not> stuck (w e)) \<Longrightarrow> fine P (rwrap w r)"
  by (cases r) (auto simp: rwrap_def)

lemma fine_mergeGoals: "clo_at F [] f 2 \<Longrightarrow> fine (\<lambda>r. True) (mergeGoals F sv t f st)"
  unfolding mergeGoals_def
  by (auto split: prod.split intro!: fine_rbind [OF fine_symCall, where Q = "\<lambda>r. True"] simp: numeral_2_eq_2)

lemma fine_updateGoal: "clo_at F [] f 2 \<Longrightarrow> fine (\<lambda>r. True) (updateGoal F sv t f st nm m)"
  unfolding updateGoal_def Let_def
  by (auto split: prod.split option.split simp: numeral_2_eq_2
      intro!: fine_rwrap fine_True_pair [OF fine_bindUpdateParams] fine_rbind [OF fine_evalFn]
        fine_rbind [OF fine_symCall, where Q = "\<lambda>r. True"])

lemma fine_proveUpdate: "clo_at F [] f 2 \<Longrightarrow> fine (\<lambda>r. True) (proveUpdate F sv t f st m)"
  unfolding proveUpdate_def
  by (rule fine_True_pair [OF fine_updateGoal]) (auto intro!: fine_rbind [OF fine_rwrap [OF fine_proveGoal]])

lemma fine_allR: "(\<And>x. fine (\<lambda>r. True) (h x)) \<Longrightarrow> fine (\<lambda>r. True) (allR h xs)"
  by (induction xs) (auto intro!: fine_rbind [where P = "\<lambda>r. True"])

lemma fine_foldR: "(\<And>s x. fine (\<lambda>r. True) (h s x)) \<Longrightarrow> fine (\<lambda>r. True) (foldR h s xs)"
  by (induction xs arbitrary: s) (auto intro!: fine_rbind [where P = "\<lambda>r. True"])

lemma fine_Prove: "fine (\<lambda>r. True) (Prove sv t m us F)"
  unfolding Prove_def
  by (auto split: expr.split option.split intro!: fine_rbind [OF fine_evalFn]
      fine_True_pair [OF fine_mergeGoals] fine_rbind [OF fine_allR [OF fine_proveGoal]]
      fine_rbind [OF fine_foldR [OF fine_proveUpdate]])

text \<open>
  C6: the prover returns on every input, whatever the solver says. With the fuel of one more than the
  number of functions of the plan it never runs out of fuel, and it never applies a function to too
  few arguments: its result is success, or an error other than those two.
\<close>

theorem Prove_total:
  "case Prove sv t m us F of Inl e \<Rightarrow> \<not> stuck e | Inr u \<Rightarrow> True"
  using fine_Prove [of sv t m us F] by (cases "Prove sv t m us F") simp_all

end
