(* ===== verification/DocKey.thy ===== *)
theory DocKey
  imports GoText Syntax
begin

text \<open>
  node/node.go: the keys of documents. A keyed collection holds one CRDT per document; the key
  comes from a URL, and \<open>normalizeDocumentKey\<close> checks it against the declared type of the key and
  puts a number in canonical decimal form, so that every spelling of a number names one document
  (\<open>canonicalDecimal\<close>).

  The lemmas show that a canonical form has the value of the number it comes from, and that two
  canonical forms of one value are equal: the key of a document is its value.
\<close>

datatype keyErr =
    KeyEmpty
  | KeySlash
  | KeyNotUtf8
  | KeyNotDecimal string
  | KeyNumber string
  | KeyType string
  | KeyOffDomain string

text \<open>The regular expression \<open>decimalDocumentKey\<close>: an optional minus, digits, and an optional point with digits.\<close>

definition drop_minus :: "string \<Rightarrow> string" where
  "drop_minus s = (case s of [] \<Rightarrow> [] | c # r \<Rightarrow> if c = CHR ''-'' then r else s)"

definition decimalDocumentKey :: "string \<Rightarrow> bool" where
  "decimalDocumentKey s =
     (let r = drop_minus s; w = takeWhile is_digit_char r; t = dropWhile is_digit_char r in
      w \<noteq> [] \<and>
      (case t of [] \<Rightarrow> True | c # f \<Rightarrow> c = CHR ''.'' \<and> f \<noteq> [] \<and> list_all is_digit_char f))"

text \<open>\<open>strings.Cut\<close> at a point, \<open>strings.TrimLeft\<close> and \<open>strings.TrimRight\<close> of zeros.\<close>

definition cut_dot :: "string \<Rightarrow> string \<times> string \<times> bool" where
  "cut_dot s =
     (if CHR ''.'' \<in> set s
      then (takeWhile (\<lambda>c. c \<noteq> CHR ''.'') s, tl (dropWhile (\<lambda>c. c \<noteq> CHR ''.'') s), True)
      else (s, [], False))"

definition trim_left0 :: "string \<Rightarrow> string" where
  "trim_left0 s = dropWhile (\<lambda>c. c = CHR ''0'') s"

definition trim_right0 :: "string \<Rightarrow> string" where
  "trim_right0 s = rev (trim_left0 (rev s))"

definition canonicalDecimal :: "string \<Rightarrow> string" where
  "canonicalDecimal raw =
     (let neg = (raw \<noteq> [] \<and> hd raw = CHR ''-'');
          r = (if neg then tl raw else raw)
      in case cut_dot r of
        (whole, fr, hasFrac) \<Rightarrow>
          (let whole = trim_left0 whole;
               whole = (if whole = [] then ''0'' else whole);
               fr = (if hasFrac then trim_right0 fr else fr);
               out = (if fr \<noteq> [] then whole @ CHR ''.'' # fr else whole)
           in if neg \<and> out \<noteq> ''0'' then CHR ''-'' # out else out))"

definition normalizeDocumentKey :: "paramSpec \<Rightarrow> string \<Rightarrow> keyErr + string" where
  "normalizeDocumentKey spec raw =
     (if raw = [] then Inl KeyEmpty
      else if CHR ''/'' \<in> set raw then Inl KeySlash
      else if \<not> utf8_ValidString raw then Inl KeyNotUtf8
      else if p_Type spec = ''string'' then Inr raw
      else if \<not> decimalDocumentKey raw then Inl (KeyNotDecimal raw)
      else case Rat_SetString raw of
        None \<Rightarrow> Inl (KeyNumber raw)
      | Some q \<Rightarrow>
          (case nt_Parse (p_Type spec) of
             None \<Rightarrow> Inl (KeyType (p_Type spec))
           | Some nt \<Rightarrow>
               if \<not> nt_Allows nt q then Inl (KeyOffDomain (canonicalDecimal raw))
               else Inr (canonicalDecimal raw)))"

subsection \<open>The parts of a decimal\<close>

text \<open>Every decimal is written from a sign, its digits, and optionally a point and more digits.\<close>

definition spell :: "bool \<Rightarrow> string \<Rightarrow> string option \<Rightarrow> string" where
  "spell neg w f =
     (if neg then ''-'' else []) @ w @ (case f of None \<Rightarrow> [] | Some f \<Rightarrow> CHR ''.'' # f)"

definition frac_digits :: "string option \<Rightarrow> string" where
  "frac_digits f = (case f of None \<Rightarrow> [] | Some f \<Rightarrow> f)"

definition spelling :: "string \<Rightarrow> string option \<Rightarrow> bool" where
  "spelling w f \<longleftrightarrow> w \<noteq> [] \<and> list_all is_digit_char w \<and> list_all is_digit_char (frac_digits f) \<and> f \<noteq> Some []"

lemma digit_hd_minus: "w \<noteq> [] \<Longrightarrow> list_all is_digit_char w \<Longrightarrow> hd w \<noteq> CHR ''-''"
  by (cases w) (auto simp: is_digit_char_simps)

lemma takeWhile_digits:
  assumes "list_all is_digit_char w" "t = [] \<or> \<not> is_digit_char (hd t)"
  shows "takeWhile is_digit_char (w @ t) = w" "dropWhile is_digit_char (w @ t) = t"
  using assms by (induction w) (cases t; auto)+

lemma takeWhile_all_digits: "list_all is_digit_char w \<Longrightarrow> takeWhile is_digit_char w = w \<and> dropWhile is_digit_char w = []"
  using takeWhile_digits [of w "[]"] by simp

lemma not_digit_dot [simp]: "\<not> is_digit_char CHR ''.''"
  by (simp add: is_digit_char_def)

lemma drop_minus_spell:
  assumes "spelling w f"
  shows "drop_minus (spell neg w f) = w @ (case f of None \<Rightarrow> [] | Some f \<Rightarrow> CHR ''.'' # f)"
  using assms by (cases w) (auto simp: spelling_def spell_def drop_minus_def is_digit_char_simps)

lemma decimal_spell: "spelling w f \<Longrightarrow> decimalDocumentKey (spell neg w f)"
  by (cases f)
    (auto simp: decimalDocumentKey_def drop_minus_spell takeWhile_digits Let_def spelling_def frac_digits_def
      takeWhile_all_digits)

lemma decimal_spelled:
  assumes "decimalDocumentKey s"
  obtains neg w f where "s = spell neg w f" "spelling w f"
proof -
  define r w t where d: "r = drop_minus s" "w = takeWhile is_digit_char r" "t = dropWhile is_digit_char r"
  have s: "s = (if s \<noteq> [] \<and> hd s = CHR ''-'' then ''-'' else []) @ r"
    by (auto simp: d drop_minus_def split: list.splits)
  have r: "r = w @ t" by (simp add: d)
  have w: "w \<noteq> []" "list_all is_digit_char w" and
    t: "case t of [] \<Rightarrow> True | c # f \<Rightarrow> c = CHR ''.'' \<and> f \<noteq> [] \<and> list_all is_digit_char f"
    using assms by (auto simp: decimalDocumentKey_def Let_def d list_all_iff dest: set_takeWhileD)
  show ?thesis
  proof (cases t)
    case Nil
    have "s = spell (s \<noteq> [] \<and> hd s = CHR ''-'') w None"
      by (subst s) (simp add: spell_def r Nil)
    with w that [of "s \<noteq> [] \<and> hd s = CHR ''-''" w None] show ?thesis
      by (simp add: spelling_def frac_digits_def)
  next
    case (Cons c f)
    have "s = spell (s \<noteq> [] \<and> hd s = CHR ''-'') w (Some f)"
      using t by (subst s) (simp add: spell_def r Cons)
    with w t Cons that [of "s \<noteq> [] \<and> hd s = CHR ''-''" w "Some f"] show ?thesis
      by (simp add: spelling_def frac_digits_def)
  qed
qed

subsection \<open>The value of a decimal\<close>

definition digits_value :: "string \<Rightarrow> nat" where
  "digits_value ds = foldl (\<lambda>a c. a * 10 + digit_val c) 0 ds"

definition spelled_value :: "bool \<Rightarrow> string \<Rightarrow> string option \<Rightarrow> rat" where
  "spelled_value neg w f =
     (let m = rat_of_nat (digits_value (w @ frac_digits f)) / 10 ^ length (frac_digits f) in if neg then - m else m)"

lemma scan_loop_append:
  assumes "list_all is_digit_char ds"
  shows "scan_loop 10 st (ds @ r) =
    scan_loop 10 (if ds = [] then st
      else st\<lparr>s_prev := PDigit, s_count := s_count st + length ds,
             s_acc := foldl (\<lambda>a c. a * 10 + digit_val c) (s_acc st) ds\<rparr>) r"
  using assms
proof (induction ds arbitrary: st)
  case (Cons d ds)
  then have "\<not> 10 \<le> digit_val d" using is_digit_char_simps(6) [of d] by simp
  with Cons show ?case by (simp add: is_digit_char_simps)
qed simp

abbreviation tail_of :: "string option \<Rightarrow> string" where
  "tail_of f \<equiv> (case f of None \<Rightarrow> [] | Some f \<Rightarrow> CHR ''.'' # f)"

lemma scan_prefix_spell:
  assumes "spelling w f"
  shows "scan_prefix True (w @ tail_of f) =
    (if hd w = CHR ''0'' then (10, NoPrefix, PDigit, 1, tl w @ tail_of f)
     else (10, NoPrefix, POther, 0, w @ tail_of f))"
proof -
  obtain c w' where w: "w = c # w'" using assms by (cases w) (auto simp: spelling_def)
  have letter: "c1 \<noteq> CHR ''b'' \<and> c1 \<noteq> CHR ''B'' \<and> c1 \<noteq> CHR ''o'' \<and> c1 \<noteq> CHR ''O'' \<and> c1 \<noteq> CHR ''x'' \<and> c1 \<noteq> CHR ''X''"
    if "w' @ tail_of f = c1 # r" for c1 r
    using that assms w
    by (cases w'; cases f) (auto simp: spelling_def is_digit_char_def)
  show ?thesis
    using letter by (auto simp: scan_prefix_def w split: list.split)
qed

lemma scan_tail:
  assumes "spelling w f" "s_frac st" "\<not> s_inval st" "s_prev st = PDigit" "s_dp st = None"
  shows "\<exists>st'. scan_loop 10 st (tail_of f) = (st', []) \<and> \<not> s_inval st' \<and> s_prev st' \<noteq> PSep \<and>
    s_count st' = s_count st + length (frac_digits f) \<and>
    s_dp st' = map_option (\<lambda>_. s_count st) f \<and>
    s_acc st' = foldl (\<lambda>a c. a * 10 + digit_val c) (s_acc st) (frac_digits f)"
  using assms
  by (cases f) (auto simp: spelling_def frac_digits_def scan_loop_digits)

lemma nat_scan_spell:
  assumes "spelling w f"
  shows "nat_scan True (w @ tail_of f) =
    Some (digits_value (w @ frac_digits f), 10,
      (case f of None \<Rightarrow> int (length w) | Some f \<Rightarrow> - int (length f)), [])"
proof -
  obtain c w' where w: "w = c # w'" using assms by (cases w) (auto simp: spelling_def)
  have d: "list_all is_digit_char w" "list_all is_digit_char w'" using assms w by (auto simp: spelling_def)
  define st where "st = \<lparr>s_frac = True, s_prev = PDigit, s_inval = False, s_count = length w,
    s_dp = None, s_acc = digits_value w\<rparr>"
  have "scan_loop 10 \<lparr>s_frac = True, s_prev = pv, s_inval = False, s_count = cnt, s_dp = None, s_acc = 0\<rparr> r =
      scan_loop 10 st (tail_of f)"
    if "scan_prefix True (w @ tail_of f) = (10, NoPrefix, pv, cnt, r)" for pv cnt r
  proof (cases "c = CHR ''0''")
    case True
    with that scan_prefix_spell [OF assms] w have "pv = PDigit" "cnt = 1" "r = w' @ tail_of f" by simp_all
    moreover have "digit_val c = 0" using True by (simp add: digit_val_def)
    ultimately show ?thesis
      using scan_loop_append [OF d(2)] by (simp add: st_def w digits_value_def)
  next
    case False
    with that scan_prefix_spell [OF assms] w have "pv = POther" "cnt = 0" "r = w @ tail_of f" by simp_all
    moreover have "scan_loop 10 \<lparr>s_frac = True, s_prev = POther, s_inval = False, s_count = 0, s_dp = None, s_acc = 0\<rparr>
        (w @ tail_of f) = scan_loop 10 st (tail_of f)"
      by (subst scan_loop_append [OF d(1)]) (simp add: st_def digits_value_def w del: append_Cons)
    ultimately show ?thesis by simp
  qed
  moreover obtain pv cnt r where p: "scan_prefix True (w @ tail_of f) = (10, NoPrefix, pv, cnt, r)"
    by (cases "hd w = CHR ''0''") (simp_all add: scan_prefix_spell [OF assms])
  ultimately have l: "scan_loop 10 \<lparr>s_frac = True, s_prev = pv, s_inval = False, s_count = cnt, s_dp = None, s_acc = 0\<rparr> r =
      scan_loop 10 st (tail_of f)" by blast
  have st: "s_frac st" "\<not> s_inval st" "s_prev st = PDigit" "s_dp st = None" "s_count st = length w"
    "s_acc st = digits_value w" by (simp_all add: st_def)
  from scan_tail [OF assms st(1-4)] st(5-) obtain st' where
    "scan_loop 10 st (tail_of f) = (st', [])" "\<not> s_inval st'" "s_prev st' \<noteq> PSep"
    "s_count st' = length w + length (frac_digits f)"
    "s_dp st' = map_option (\<lambda>_. length w) f"
    "s_acc st' = digits_value (w @ frac_digits f)"
    by (auto simp: digits_value_def)
  moreover have "0 < length w" using w by simp
  ultimately have "nat_scan True (w @ tail_of f) = Some (digits_value (w @ frac_digits f), 10,
      (case map_option (\<lambda>_. length w) f of None \<Rightarrow> int (length w + length (frac_digits f))
       | Some dp \<Rightarrow> int dp - int (length w + length (frac_digits f))), [])"
    using l by (simp add: nat_scan_def p cong: option.case_cong)
  then show ?thesis by (simp add: frac_digits_def split: option.split)
qed

text \<open>\<open>big.Rat\<close> reads a decimal as the number it spells, unless it has more than a million places.\<close>

definition short :: "bool \<Rightarrow> string \<Rightarrow> string option \<Rightarrow> bool" where
  "short neg w f \<longleftrightarrow> length (frac_digits f) \<le> 10 ^ 6 \<or> spelled_value neg w f = 0"

lemma SetString_spell:
  assumes "spelling w f"
  shows "Rat_SetString (spell neg w f) = (if short neg w f then Some (spelled_value neg w f) else None)"
proof -
  obtain c w' where w: "w = c # w'" using assms by (cases w) (auto simp: spelling_def)
  have c: "c \<noteq> CHR ''-''" "c \<noteq> CHR ''+''" using assms w by (auto simp: spelling_def is_digit_char_simps)
  have "\<not> is_digit_char CHR ''/''" by (simp add: is_digit_char_def)
  then have "CHR ''/'' \<notin> set w \<and> CHR ''/'' \<notin> set (tail_of f)"
    using assms by (cases f) (auto simp: spelling_def list_all_iff frac_digits_def)
  then have sl: "split_slash (spell neg w f) = None" by (auto simp: split_slash_def spell_def)
  have sg: "scanSign (spell neg w f) = Some (neg, w @ tail_of f)"
    using c by (auto simp: spell_def scanSign_def w)
  have ne: "spell neg w f \<noteq> []" by (simp add: spell_def w)
  have p: "x * rat_pow 5 (- int n) * rat_pow 2 (- int n) = x / 10 ^ n" for x n
  proof -
    have "(10 :: rat) ^ n = 5 ^ n * 2 ^ n" by (simp flip: power_mult_distrib)
    then show ?thesis by (cases "n = 0") (auto simp: rat_pow_def)
  qed
  let ?n = "digits_value (w @ frac_digits f)" and ?k = "length (frac_digits f)"
  have "Rat_SetString (spell neg w f) =
      (if ?n = 0 then Some 0 else if ?k > 10 ^ 6 then None
       else Some (if neg then - (rat_of_nat ?n / 10 ^ ?k) else rat_of_nat ?n / 10 ^ ?k))"
  proof -
    have "Rat_SetString (spell neg w f) =
       (let d = (if f = None then 0 else - int ?k) in
        if ?n = 0 then Some 0 else if \<bar>d\<bar> > 10 ^ 6 then None else if d < - (10 ^ 7) \<or> d > 10 ^ 7 then None
        else (let m = rat_of_nat ?n * rat_pow 5 d * rat_pow 2 d in Some (if neg then - m else m)))"
      by (simp add: Rat_SetString_def ne sl sg nat_scan_spell [OF assms] scanExponent_def Let_def)
        (auto simp: frac_digits_def split: option.split)
    moreover have "rat_of_nat ?n * rat_pow 5 (- int ?k) * rat_pow 2 (- int ?k) = rat_of_nat ?n / 10 ^ ?k" by (rule p)
    moreover have "f = None \<Longrightarrow> ?k = 0" by (simp add: frac_digits_def)
    ultimately show ?thesis by (auto simp: Let_def rat_pow_def [of _ 0])
  qed
  then show ?thesis by (auto simp: spelled_value_def short_def Let_def)
qed

subsection \<open>Canonical form\<close>

text \<open>Trimmed digits, and the canonical form in terms of the parts.\<close>

definition trim_whole :: "string \<Rightarrow> string" where
  "trim_whole w = (if trim_left0 w = [] then ''0'' else trim_left0 w)"

definition trim_frac :: "string option \<Rightarrow> string option" where
  "trim_frac f = (if trim_right0 (frac_digits f) = [] then None else Some (trim_right0 (frac_digits f)))"

definition canon_neg :: "bool \<Rightarrow> string \<Rightarrow> string option \<Rightarrow> bool" where
  "canon_neg neg w f \<longleftrightarrow> neg \<and> (trim_whole w \<noteq> ''0'' \<or> trim_frac f \<noteq> None)"

lemma canonical_spell:
  assumes "spelling w f"
  shows "canonicalDecimal (spell neg w f) = spell (canon_neg neg w f) (trim_whole w) (trim_frac f)"
proof -
  obtain c w' where w: "w = c # w'" using assms by (cases w) (auto simp: spelling_def)
  have c: "c \<noteq> CHR ''-''" using assms w by (auto simp: spelling_def is_digit_char_simps)
  have dot: "CHR ''.'' \<notin> set w" using assms by (auto simp: spelling_def list_all_iff is_digit_char_simps)
  then have "\<forall>x \<in> set w. x \<noteq> CHR ''.''" by auto
  then have cut: "cut_dot (w @ tail_of f) = (w, frac_digits f, f \<noteq> None)"
    using dot by (cases f) (simp_all add: cut_dot_def frac_digits_def)
  have "canonicalDecimal (spell neg w f) =
      (let out = trim_whole w @ tail_of (trim_frac f) in if neg \<and> out \<noteq> ''0'' then CHR ''-'' # out else out)"
    using c cut
    by (cases f; cases neg)
      (auto simp: canonicalDecimal_def spell_def Let_def trim_whole_def trim_frac_def w frac_digits_def trim_right0_def trim_left0_def)
  moreover have "trim_whole w @ tail_of (trim_frac f) = ''0'' \<longleftrightarrow> trim_whole w = ''0'' \<and> trim_frac f = None"
    by (cases "trim_frac f") (auto simp: trim_whole_def append_eq_Cons_conv)
  ultimately show ?thesis by (auto simp: spell_def canon_neg_def)
qed

lemma trim_left0_digits: "list_all P w \<Longrightarrow> list_all P (trim_left0 w)"
  by (auto simp: list_all_iff trim_left0_def dest: set_dropWhileD)

lemma trim_right0_digits: "list_all P w \<Longrightarrow> list_all P (trim_right0 w)"
  using trim_left0_digits [of P "rev w"] by (simp add: trim_right0_def list_all_iff)

lemma trimmed_spelling:
  assumes "spelling w f"
  shows "spelling (trim_whole w) (trim_frac f)"
  using assms trim_left0_digits [of is_digit_char w] trim_right0_digits [of is_digit_char "frac_digits f"]
  by (auto simp: spelling_def trim_whole_def trim_frac_def frac_digits_def is_digit_char_def)

subsection \<open>Trimming keeps the value\<close>

definition frac_value :: "string \<Rightarrow> rat" where
  "frac_value f = rat_of_nat (digits_value f) / 10 ^ length f"

lemma foldl_digits: "foldl (\<lambda>a c. a * 10 + digit_val c) n ds = n * 10 ^ length ds + digits_value ds"
  unfolding digits_value_def
proof (induction ds arbitrary: n)
  case (Cons d ds)
  show ?case
    using Cons.IH [of "n * 10 + digit_val d"] Cons.IH [of "digit_val d"] by (simp add: algebra_simps)
qed simp

lemma digits_value_append: "digits_value (u @ v) = digits_value u * 10 ^ length v + digits_value v"
  using foldl_digits [of "digits_value u" v] by (simp add: digits_value_def)

lemma digits_value_Cons: "digits_value (d # v) = digit_val d * 10 ^ length v + digits_value v"
  using digits_value_append [of "[d]" v] by (simp add: digits_value_def)

lemma digits_value_Nil [simp]: "digits_value [] = 0"
  by (simp add: digits_value_def)

lemma digit_val_zero [simp]: "digit_val CHR ''0'' = 0"
  by (simp add: digit_val_def)

lemma digit_char_val: "is_digit_char c \<Longrightarrow> digit_char (digit_val c) = c"
  by (auto simp: is_digit_char_def digit_val_def digit_char_def)

lemma digit_val_eq_0: "is_digit_char c \<Longrightarrow> digit_val c = 0 \<longleftrightarrow> c = CHR ''0''"
proof
  assume "is_digit_char c" "digit_val c = 0"
  then have "byte c = byte CHR ''0''" by (simp add: is_digit_char_def digit_val_def split: if_splits)
  then show "c = CHR ''0''" by (simp only: of_char_eq_iff)
qed simp

lemma frac_value_Nil [simp]: "frac_value [] = 0"
  by (simp add: frac_value_def)

lemma frac_value_Cons: "frac_value (d # f) = (rat_of_nat (digit_val d) + frac_value f) / 10"
  by (simp add: frac_value_def digits_value_Cons field_simps)

lemma frac_value_range: "list_all is_digit_char f \<Longrightarrow> 0 \<le> frac_value f \<and> frac_value f < 1"
proof (induction f)
  case (Cons d f)
  then have "digit_val d < 10" by (simp add: is_digit_char_simps)
  then have "rat_of_nat (digit_val d) \<le> 9" using of_nat_le_iff [of "digit_val d" 9, where ?'a = rat] by simp
  with Cons show ?case by (simp add: frac_value_Cons)
qed simp

lemma spelled_value_parts:
  "spelled_value neg w f =
    (let m = rat_of_nat (digits_value w) + frac_value (frac_digits f) in if neg then - m else m)"
  by (simp add: spelled_value_def digits_value_append frac_value_def field_simps)

lemma digits_value_trim: "digits_value (trim_left0 w) = digits_value w"
  by (induction w) (auto simp: trim_left0_def digits_value_Cons)

lemma frac_value_trim: "frac_value (trim_right0 f) = frac_value f"
proof (induction f rule: rev_induct)
  case (snoc c f)
  then show ?case
    by (auto simp: trim_right0_def trim_left0_def) (simp add: frac_value_def digits_value_append digits_value_Cons)
qed (simp add: trim_right0_def trim_left0_def)

lemma trimmed_values:
  "digits_value (trim_whole w) = digits_value w" "frac_value (frac_digits (trim_frac f)) = frac_value (frac_digits f)"
proof -
  show "digits_value (trim_whole w) = digits_value w"
    using digits_value_trim [of w] by (auto simp: trim_whole_def digits_value_Cons)
  show "frac_value (frac_digits (trim_frac f)) = frac_value (frac_digits f)"
    using frac_value_trim [of "frac_digits f"] by (auto simp: trim_frac_def frac_digits_def)
qed

subsection \<open>A canonical form is determined by its value\<close>

definition canonical :: "bool \<Rightarrow> string \<Rightarrow> string option \<Rightarrow> bool" where
  "canonical neg w f \<longleftrightarrow>
     spelling w f \<and> (hd w = CHR ''0'' \<longrightarrow> w = ''0'') \<and> (f \<noteq> None \<longrightarrow> last (frac_digits f) \<noteq> CHR ''0'') \<and>
     (neg \<longrightarrow> w \<noteq> ''0'' \<or> f \<noteq> None)"

lemma trim_left0_hd: "trim_left0 w \<noteq> [] \<Longrightarrow> hd (trim_left0 w) \<noteq> CHR ''0''"
  unfolding trim_left0_def by (rule hd_dropWhile)

lemma canonical_trimmed: "spelling w f \<Longrightarrow> canonical (canon_neg neg w f) (trim_whole w) (trim_frac f)"
  using trimmed_spelling [of w f] trim_left0_hd [of w] trim_left0_hd [of "rev (frac_digits f)"]
  by (auto simp: canonical_def canon_neg_def trim_whole_def trim_frac_def frac_digits_def trim_right0_def last_rev)

lemma nat_String_digits_value:
  assumes "list_all is_digit_char w" "w \<noteq> []" "hd w = CHR ''0'' \<longrightarrow> w = ''0''"
  shows "nat_String (digits_value w) = w"
  using assms
proof (induction w rule: rev_induct)
  case (snoc c u)
  have c: "digit_char (digit_val c) = c" "digit_val c < 10"
    using snoc.prems(1) by (auto simp: digit_char_val is_digit_char_simps)
  show ?case
  proof (cases "u = []")
    case True
    with c show ?thesis by (subst nat_String.simps) (simp add: digits_value_Cons)
  next
    case False
    then have "hd u \<noteq> CHR ''0''" using snoc.prems(3) by (cases u) auto
    with snoc False have u: "nat_String (digits_value u) = u" by simp
    have "digits_value u \<noteq> 0"
    proof
      assume "digits_value u = 0"
      with u have "u = ''0''" by (simp add: nat_String_0)
      with \<open>hd u \<noteq> _\<close> show False by simp
    qed
    with u c show ?thesis
      by (subst nat_String.simps) (simp add: digits_value_append digits_value_Cons)
  qed
qed simp

lemma frac_value_inj:
  assumes "list_all is_digit_char f" "list_all is_digit_char g"
    and "f \<noteq> [] \<Longrightarrow> last f \<noteq> CHR ''0''" "g \<noteq> [] \<Longrightarrow> last g \<noteq> CHR ''0''" "frac_value f = frac_value g"
  shows "f = g"
proof -
  have pos: "0 < frac_value h" if "list_all is_digit_char h" "h \<noteq> []" "last h \<noteq> CHR ''0''" for h
    using that
  proof (induction h)
    case (Cons d h)
    show ?case
    proof (cases "h = []")
      case True
      with Cons.prems digit_val_eq_0 [of d] show ?thesis by (simp add: frac_value_Cons)
    next
      case False
      with Cons have "0 < frac_value h" by simp
      then show ?thesis by (simp add: frac_value_Cons add_nonneg_pos)
    qed
  qed simp
  show ?thesis
    using assms
  proof (induction f arbitrary: g)
    case Nil
    with pos [of g] show ?case by (cases "g = []") auto
  next
    case (Cons d f)
    show ?case
    proof (cases g)
      case Nil
      with pos [of "d # f"] Cons.prems show ?thesis by simp
    next
      case g: (Cons e h)
      from Cons.prems g have eq: "rat_of_nat (digit_val d) + frac_value f = rat_of_nat (digit_val e) + frac_value h"
        by (simp add: frac_value_Cons)
      have r: "0 \<le> frac_value f" "frac_value f < 1" "0 \<le> frac_value h" "frac_value h < 1"
        using Cons.prems(1,2) g frac_value_range [of f] frac_value_range [of h] by auto
      have "\<lfloor>rat_of_nat (digit_val d) + frac_value f\<rfloor> = int (digit_val d)"
        "\<lfloor>rat_of_nat (digit_val e) + frac_value h\<rfloor> = int (digit_val e)"
        using r by (simp_all add: floor_eq_iff)
      with eq have v: "digit_val d = digit_val e" by simp
      have "is_digit_char d" "is_digit_char e" using Cons.prems(1,2) g by simp_all
      with v have "d = e" by (metis digit_char_val)
      moreover have "f = h"
      proof (rule Cons.IH)
        show "last f \<noteq> CHR ''0''" if "f \<noteq> []" using Cons.prems(3) that by simp
        show "last h \<noteq> CHR ''0''" if "h \<noteq> []" using Cons.prems(4) g that by simp
      qed (use Cons.prems(1,2) g eq v in simp_all)
      ultimately show ?thesis by (simp add: g)
    qed
  qed
qed

lemma canonical_unique:
  assumes "canonical neg w f" "canonical neg' w' f'" "spelled_value neg w f = spelled_value neg' w' f'"
  shows "neg = neg' \<and> w = w' \<and> f = f'"
proof -
  have fr: "list_all is_digit_char (frac_digits f)" "list_all is_digit_char (frac_digits f')"
    "list_all is_digit_char w" "list_all is_digit_char w'" "w \<noteq> []" "w' \<noteq> []"
    using assms(1,2) by (auto simp: canonical_def spelling_def)
  have zero: "neg \<Longrightarrow> digits_value w = 0 \<Longrightarrow> frac_value (frac_digits f) = 0 \<Longrightarrow> False"
    if "canonical neg w f" for neg w f
  proof -
    assume n: neg "digits_value w = 0" "frac_value (frac_digits f) = 0"
    have "nat_String (digits_value w) = w" using that by (intro nat_String_digits_value) (auto simp: canonical_def spelling_def)
    with n have "w = ''0''" by (simp add: nat_String_0)
    moreover have "frac_digits f = []"
      using that n by (intro frac_value_inj) (auto simp: canonical_def spelling_def frac_digits_def split: option.splits)
    with that have "f = None" by (auto simp: canonical_def spelling_def frac_digits_def split: option.splits)
    ultimately show False using n that by (simp add: canonical_def)
  qed
  define m m' where m: "m = rat_of_nat (digits_value w) + frac_value (frac_digits f)"
    "m' = rat_of_nat (digits_value w') + frac_value (frac_digits f')"
  note range = frac_value_range [OF fr(1)] frac_value_range [OF fr(2)]
  then have ge: "0 \<le> m" "0 \<le> m'" by (simp_all add: m)
  have nz: "neg \<Longrightarrow> m \<noteq> 0" "neg' \<Longrightarrow> m' \<noteq> 0"
    using zero [OF assms(1)] zero [OF assms(2)] range by (auto simp: m add_nonneg_eq_0_iff)
  have "(if neg then - m else m) = (if neg' then - m' else m')"
    using assms(3) by (simp only: spelled_value_parts m Let_def)
  with ge nz have n: "neg = neg'" "m = m'" by (auto split: if_splits)
  have "\<lfloor>m\<rfloor> = int (digits_value w)" "\<lfloor>m'\<rfloor> = int (digits_value w')"
    using range by (simp_all add: m floor_eq_iff)
  with n have d: "digits_value w = digits_value w'" by simp
  have "nat_String (digits_value w) = w" "nat_String (digits_value w') = w'"
    using fr assms(1,2) by (auto intro!: nat_String_digits_value simp: canonical_def)
  with d have "w = w'" by metis
  moreover have "frac_digits f = frac_digits f'"
  proof (rule frac_value_inj [OF fr(1,2)])
    show "last (frac_digits f) \<noteq> CHR ''0''" if "frac_digits f \<noteq> []"
      using assms(1) that by (auto simp: canonical_def frac_digits_def)
    show "last (frac_digits f') \<noteq> CHR ''0''" if "frac_digits f' \<noteq> []"
      using assms(2) that by (auto simp: canonical_def frac_digits_def)
    show "frac_value (frac_digits f) = frac_value (frac_digits f')" using n(2) d by (simp add: m)
  qed
  then have "f = f'" using assms(1,2) by (auto simp: canonical_def spelling_def frac_digits_def split: option.splits)
  ultimately show ?thesis using n by simp
qed

lemma canonical_value:
  assumes "spelling w f"
  shows "spelled_value (canon_neg neg w f) (trim_whole w) (trim_frac f) = spelled_value neg w f"
proof -
  have "digits_value w = 0 \<and> frac_value (frac_digits f) = 0" if "trim_whole w = ''0''" "trim_frac f = None"
    using trimmed_values(1) [of w] trimmed_values(2) [of f] that by (simp add: digits_value_Cons frac_digits_def)
  then show ?thesis by (auto simp: spelled_value_parts trimmed_values canon_neg_def Let_def)
qed

subsection \<open>Normalized keys\<close>

lemma ascii_valid: "list_all (\<lambda>c. byte c < 128) s \<Longrightarrow> utf8_ValidString s"
proof (induction s)
  case (Cons c s)
  then show ?case by (subst utf8_ValidString.simps) (simp add: decode1.simps)
qed simp

lemma char_ascii: "is_digit_char c \<or> c = CHR ''-'' \<or> c = CHR ''.'' \<Longrightarrow> byte c < 128 \<and> c \<noteq> CHR ''/''"
  by (elim disjE) (auto simp: is_digit_char_def is_digit_char_simps)

lemma spelling_chars:
  assumes "spelling w f"
  shows "utf8_ValidString (spell neg w f)" "CHR ''/'' \<notin> set (spell neg w f)" "spell neg w f \<noteq> []"
proof -
  have "\<forall>c \<in> set (spell neg w f). is_digit_char c \<or> c = CHR ''-'' \<or> c = CHR ''.''"
    using assms by (cases f) (auto simp: spelling_def spell_def frac_digits_def list_all_iff)
  then have *: "byte c < 128 \<and> c \<noteq> CHR ''/''" if "c \<in> set (spell neg w f)" for c
    using char_ascii that by blast
  show "utf8_ValidString (spell neg w f)" by (rule ascii_valid) (simp add: list_all_iff *)
  show "CHR ''/'' \<notin> set (spell neg w f)" using * by blast
  show "spell neg w f \<noteq> []" using assms by (auto simp: spelling_def spell_def)
qed

lemma normalize_spell:
  assumes "p_Type spec \<noteq> ''string''" "spelling w f"
  shows "normalizeDocumentKey spec (spell neg w f) = Inr k \<longleftrightarrow>
    short neg w f \<and> k = canonicalDecimal (spell neg w f) \<and>
    (\<exists>nt. nt_Parse (p_Type spec) = Some nt \<and> nt_Allows nt (spelled_value neg w f))"
  using assms
  by (auto simp: normalizeDocumentKey_def spelling_chars decimal_spell SetString_spell split: option.split)

lemma trim_right0_length: "length (trim_right0 f) \<le> length f"
  using length_dropWhile_le [of "\<lambda>c. c = CHR ''0''" "rev f"] by (simp add: trim_right0_def trim_left0_def)

lemma short_trimmed:
  assumes "spelling w f" "short neg w f"
  shows "short (canon_neg neg w f) (trim_whole w) (trim_frac f)"
proof -
  have "length (frac_digits (trim_frac f)) \<le> length (frac_digits f)"
    using trim_right0_length [of "frac_digits f"] by (auto simp: trim_frac_def frac_digits_def [of "Some _"] frac_digits_def [of None])
  with assms canonical_value [OF assms(1), of neg] show ?thesis by (auto simp: short_def)
qed

lemma canonical_fixed:
  assumes "spelling w f"
  shows "canonicalDecimal (canonicalDecimal (spell neg w f)) = canonicalDecimal (spell neg w f)"
proof -
  let ?n = "canon_neg neg w f" and ?w = "trim_whole w" and ?f = "trim_frac f"
  note t = trimmed_spelling [OF assms]
  have "spelled_value (canon_neg ?n ?w ?f) (trim_whole ?w) (trim_frac ?f) = spelled_value ?n ?w ?f"
    by (rule canonical_value [OF t])
  from canonical_unique [OF canonical_trimmed [OF t] canonical_trimmed [OF assms] this]
  have "canon_neg ?n ?w ?f = ?n" "trim_whole ?w = ?w" "trim_frac ?f = ?f" by simp_all
  then show ?thesis by (simp add: canonical_spell [OF assms] canonical_spell [OF t])
qed

lemma normalize_fixed:
  assumes "normalizeDocumentKey spec raw = Inr k"
  shows "normalizeDocumentKey spec k = Inr k"
proof (cases "p_Type spec = ''string''")
  case True
  with assms show ?thesis by (auto simp: normalizeDocumentKey_def split: if_splits)
next
  case False
  with assms have "decimalDocumentKey raw" by (auto simp: normalizeDocumentKey_def split: if_splits)
  then obtain neg w f where s: "raw = spell neg w f" "spelling w f" by (rule decimal_spelled)
  from assms [unfolded s(1)] normalize_spell [OF False s(2)] show ?thesis
    by (auto simp: canonical_spell [OF s(2)] normalize_spell [OF False trimmed_spelling [OF s(2)]]
        short_trimmed [OF s(2)] canonical_value [OF s(2)] canonical_fixed [OF s(2), of neg, unfolded canonical_spell [OF s(2)]])
qed

lemma normalize_chars: "normalizeDocumentKey spec raw = Inr k \<Longrightarrow> k \<noteq> [] \<and> CHR ''/'' \<notin> set k \<and> utf8_ValidString k"
  using normalize_fixed [of spec raw k] by (auto simp: normalizeDocumentKey_def split: if_splits)

lemma normalize_same:
  assumes "normalizeDocumentKey spec a = Inr k" "normalizeDocumentKey spec b = Inr l"
  shows "k = l \<longleftrightarrow> (if p_Type spec = ''string'' then a = b else Rat_SetString a = Rat_SetString b)"
proof (cases "p_Type spec = ''string''")
  case True
  with assms show ?thesis by (auto simp: normalizeDocumentKey_def split: if_splits)
next
  case False
  with assms have "decimalDocumentKey a" "decimalDocumentKey b"
    by (auto simp: normalizeDocumentKey_def split: if_splits)
  then obtain n w f n' w' f' where s: "a = spell n w f" "spelling w f" "b = spell n' w' f'" "spelling w' f'"
    by (metis decimal_spelled)
  from assms [unfolded s(1,3)] normalize_spell [OF False s(2)] normalize_spell [OF False s(4)]
  have k: "k = canonicalDecimal a" "l = canonicalDecimal b" "short n w f" "short n' w' f'" by (auto simp: s)
  have "Rat_SetString a = Rat_SetString b \<longleftrightarrow> spelled_value n w f = spelled_value n' w' f'"
    using k by (simp add: s SetString_spell)
  also have "\<dots> \<longleftrightarrow> k = l"
  proof
    assume "spelled_value n w f = spelled_value n' w' f'"
    with canonical_unique [OF canonical_trimmed [OF s(2), of n] canonical_trimmed [OF s(4), of n']]
    show "k = l" by (simp add: k s canonical_spell canonical_value)
  next
    assume "k = l"
    then have "Rat_SetString (canonicalDecimal a) = Rat_SetString (canonicalDecimal b)" by (simp add: k)
    then show "spelled_value n w f = spelled_value n' w' f'"
      using k(3,4) s by (simp add: canonical_spell SetString_spell trimmed_spelling short_trimmed canonical_value)
  qed
  finally show ?thesis using False by simp
qed

text \<open>
  C25: A document's identity is the value of its key. Two keys a collection accepts name the same
  document exactly when they are the same string (for a string key) or spell the same number (for a
  numeric one, however they pad it); the canonical key names itself, so normalizing again at a peer
  changes nothing, and it is never empty and has no slash, so it fits in a URL path.
\<close>

theorem document_identity:
  assumes "normalizeDocumentKey spec a = Inr k" and "normalizeDocumentKey spec b = Inr l"
  shows "(k = l \<longleftrightarrow> (if p_Type spec = ''string'' then a = b else Rat_SetString a = Rat_SetString b)) \<and>
    normalizeDocumentKey spec k = Inr k \<and> k \<noteq> [] \<and> CHR ''/'' \<notin> set k"
  using normalize_same [OF assms] normalize_fixed [OF assms(1)] normalize_chars [OF assms(1)] by simp

lemma document_identity_witness:
  "Rat_SetString ''-007'' = Rat_SetString ''-7.00'' \<and>
   normalizeDocumentKey \<lparr> p_Name = ''k'', p_Type = ''int'' \<rparr> ''-7'' = Inr ''-7''"
proof -
  have k: "normalizeDocumentKey \<lparr> p_Name = ''k'', p_Type = ''int'' \<rparr> ''-007'' = Inr ''-7''"
    "normalizeDocumentKey \<lparr> p_Name = ''k'', p_Type = ''int'' \<rparr> ''-7.00'' = Inr ''-7''"
    by code_simp+
  show ?thesis using document_identity [OF k] by simp
qed

end
