(* ===== verification/Quorum.thy ===== *)
theory Quorum
  imports Complex_Main Prelude
begin

text \<open>
  node/node.go: the sync predicate \<open>reached\<close>. The share of the cluster that holds a state is computed
  in \<open>float64\<close> arithmetic; \<open>fl64\<close> is IEEE rounding to nearest, ties to even, on the positive numbers
  between 0 and 2^63 the predicate meets (all in the normal range). A ratio is a finite \<open>float64\<close>, here the
  rational it stands for.

  Rounding is monotone and keeps 1/2, so a ratio of at least 1/2 demands a true majority whatever the
  rounding does; that two majorities meet is the contract \<open>quorum_system\<close>, which the protocol's
  correctness rests on.
\<close>

subsection \<open>float64 rounding\<close>

text \<open>The exponent of the power of two at or below a positive number.\<close>

lemma half_smaller: "(1::rat) < x \<Longrightarrow> nat \<lceil>x / 2\<rceil> < nat \<lceil>x\<rceil>"
proof -
  assume x: "1 < x"
  then have "1 < \<lceil>x\<rceil>" by (simp add: less_ceiling_iff)
  then have "2 \<le> \<lceil>x\<rceil>" by linarith
  then have "(2 :: rat) \<le> of_int \<lceil>x\<rceil>" by (metis of_int_le_iff of_int_numeral)
  moreover have "x \<le> of_int \<lceil>x\<rceil>" by simp
  ultimately have "x / 2 \<le> of_int \<lceil>x\<rceil> - 1" by linarith
  then have "x / 2 \<le> of_int (\<lceil>x\<rceil> - 1)" by simp
  then have "\<lceil>x / 2\<rceil> \<le> \<lceil>x\<rceil> - 1" by (rule ceiling_le)
  moreover have "0 < \<lceil>x\<rceil>" using x by simp
  ultimately show ?thesis by simp
qed

function binade :: "rat \<Rightarrow> int" where
  "binade q =
     (if q \<le> 0 then 0
      else if q < 1 then binade (2 * q) - 1
      else if 2 \<le> q then binade (q / 2) + 1
      else 0)"
  by pat_completeness auto
termination
proof (relation "measure (\<lambda>q. if q < 1 then nat \<lceil>1 / q\<rceil> else nat \<lfloor>q\<rfloor>)", goal_cases)
  case (2 q)
  then have "1 < 1 / q" by simp
  from half_smaller [OF this] have "nat \<lceil>1 / (2 * q)\<rceil> < nat \<lceil>1 / q\<rceil>" by (simp add: mult.commute)
  moreover have "1 < \<lceil>1 / q\<rceil>" using \<open>1 < 1 / q\<close> by (simp add: less_ceiling_iff)
  moreover have "\<lfloor>2 * q\<rfloor> < 2" using 2 by (simp add: floor_less_iff)
  then have "nat \<lfloor>2 * q\<rfloor> < nat \<lceil>1 / q\<rceil>" using \<open>1 < \<lceil>1 / q\<rceil>\<close> by linarith
  ultimately show ?case using 2 by auto
next
  case (3 q)
  then have "\<lfloor>q / 2\<rfloor> < \<lfloor>q\<rfloor>" by (simp add: floor_less_iff) linarith
  moreover have "0 < \<lfloor>q\<rfloor>" using 3 by simp
  ultimately show ?case using 3 by auto
qed simp

declare binade.simps [simp del]

definition round_even :: "rat \<Rightarrow> int" where
  "round_even x =
     (let f = \<lfloor>x\<rfloor>; r = x - of_int f in
      if r < 1 / 2 then f else if r > 1 / 2 then f + 1 else if even f then f else f + 1)"

definition fl64 :: "rat \<Rightarrow> rat" where
  "fl64 q =
     (if q \<le> 0 then 0
      else let u = 2 powi (binade q - 52) in of_int (round_even (q / u)) * u)"

lemma two_powi: "(2::rat) powi (e + 1) = 2 * 2 powi e" "(2::rat) powi (e - 1) * 2 = 2 powi e" "0 < (2::rat) powi e"
  using power_int_add_1 [of "2 :: rat" "e - 1"] by (simp_all add: power_int_add)

lemma powi_less: "(2::rat) powi m < 2 powi n \<Longrightarrow> m < n"
  using power_int_increasing [of n m "2 :: rat"] by (cases "m < n") auto

lemma binade_bounds: "0 < q \<Longrightarrow> 2 powi binade q \<le> q \<and> q < 2 powi (binade q + 1)"
proof (induction q rule: binade.induct)
  case (1 q)
  show ?case
  proof (cases "q < 1")
    case True
    with 1 have "2 powi binade (2 * q) \<le> 2 * q \<and> 2 * q < 2 powi (binade (2 * q) + 1)" by simp
    moreover have "binade q = binade (2 * q) - 1" using 1 True by (subst binade.simps) simp
    ultimately show ?thesis using two_powi(2) [of "binade (2 * q)"] by (simp add: two_powi(1))
  next
    case False
    show ?thesis
    proof (cases "2 \<le> q")
      case True
      with 1 False have "2 powi binade (q / 2) \<le> q / 2 \<and> q / 2 < 2 powi (binade (q / 2) + 1)" by simp
      moreover have "binade q = binade (q / 2) + 1" using 1 False True by (subst binade.simps) simp
      ultimately show ?thesis
        using two_powi(1) [of "binade (q / 2)"] two_powi(1) [of "binade (q / 2) + 1"] by simp
    next
      case small: False
      then have "binade q = 0" using False 1 by (subst binade.simps) simp
      with False small show ?thesis by simp
    qed
  qed
qed

lemma binade_unique:
  assumes "2 powi e \<le> q" "q < 2 powi (e + 1)"
  shows "binade q = e"
proof -
  have q: "0 < q" using assms(1) two_powi(3) [of e] by linarith
  note b = binade_bounds [OF q]
  have "(2::rat) powi e < 2 powi (binade q + 1)" "(2::rat) powi binade q < 2 powi (e + 1)"
    using b assms by linarith+
  then have "e < binade q + 1" "binade q < e + 1" by (auto dest: powi_less)
  then show ?thesis by simp
qed

lemma round_even_int [simp]: "round_even (of_int i) = i"
  by (simp add: round_even_def)

lemma round_even_near: "\<lfloor>x\<rfloor> \<le> round_even x \<and> round_even x \<le> \<lceil>x\<rceil>"
proof (cases "x = of_int \<lfloor>x\<rfloor>")
  case True
  then show ?thesis by (metis ceiling_of_int order_refl round_even_int)
next
  case False
  then have "\<lceil>x\<rceil> = \<lfloor>x\<rfloor> + 1" by (simp add: ceiling_altdef)
  then show ?thesis by (simp add: round_even_def Let_def)
qed

lemma round_even_mono: "x \<le> y \<Longrightarrow> round_even x \<le> round_even y"
proof -
  assume xy: "x \<le> y"
  show ?thesis
  proof (cases "\<lfloor>x\<rfloor> = \<lfloor>y\<rfloor>")
    case True
    with xy show ?thesis by (auto simp: round_even_def Let_def)
  next
    case False
    with floor_mono [OF xy] have "\<lfloor>x\<rfloor> + 1 \<le> \<lfloor>y\<rfloor>" by simp
    moreover have "\<lceil>x\<rceil> \<le> \<lfloor>x\<rfloor> + 1" by (simp add: ceiling_altdef)
    ultimately show ?thesis using round_even_near [of x] round_even_near [of y] by linarith
  qed
qed

lemma fl64_scaled:
  assumes "2 powi e \<le> q" "q < 2 powi (e + 1)"
  shows "fl64 q = of_int (round_even (q / 2 powi (e - 52))) * 2 powi (e - 52)"
proof -
  have "0 < q" using assms(1) two_powi(3) [of e] by linarith
  then show ?thesis by (simp add: fl64_def binade_unique [OF assms] Let_def)
qed

lemma fl64_exact:
  assumes "2 powi e \<le> q" "q < 2 powi (e + 1)" "q = of_int m * 2 powi (e - 52)"
  shows "fl64 q = q"
  unfolding fl64_scaled [OF assms(1,2)] using assms(3) by simp

lemma fl64_power: "fl64 (2 powi e) = 2 powi e"
  by (rule fl64_exact [of e _ "2 ^ 52"]) (simp_all add: power_int_add power_int_diff)

lemma fl64_binade:
  assumes "2 powi e \<le> q" "q < 2 powi (e + 1)"
  shows "2 powi e \<le> fl64 q \<and> fl64 q \<le> 2 powi (e + 1)"
proof -
  let ?u = "(2::rat) powi (e - 52)"
  have u: "0 < ?u" "2 powi e = 2 ^ 52 * ?u" "2 powi (e + 1) = 2 ^ 53 * ?u"
    by (simp_all add: power_int_add power_int_diff)
  have "of_int (2 ^ 52) \<le> q / ?u" "q / ?u \<le> of_int (2 ^ 53)"
    using assms u by (simp_all add: field_simps)
  then have "2 ^ 52 \<le> round_even (q / ?u)" "round_even (q / ?u) \<le> 2 ^ 53"
    using round_even_mono round_even_int by metis+
  then have "(2 ^ 52 :: rat) \<le> of_int (round_even (q / ?u))" "of_int (round_even (q / ?u)) \<le> (2 ^ 53 :: rat)"
    by (metis of_int_le_iff of_int_numeral of_int_power)+
  with u show ?thesis unfolding fl64_scaled [OF assms] by (simp add: mult_right_mono)
qed

lemma fl64_mono: "0 < p \<Longrightarrow> p \<le> q \<Longrightarrow> fl64 p \<le> fl64 q"
proof -
  assume p: "0 < p" and pq: "p \<le> q"
  then have q: "0 < q" by linarith
  note bp = binade_bounds [OF p] and bq = binade_bounds [OF q]
  show ?thesis
  proof (cases "binade p = binade q")
    case True
    with bp bq pq show ?thesis
      by (auto simp: fl64_scaled [of "binade q"] intro!: mult_right_mono round_even_mono divide_right_mono)
  next
    case False
    have "(2::rat) powi binade p < 2 powi (binade q + 1)" using bp bq pq by linarith
    then have "binade p < binade q + 1" by (rule powi_less)
    with False have "binade p + 1 \<le> binade q" by simp
    then have "(2::rat) powi (binade p + 1) \<le> 2 powi binade q" by (simp add: power_int_increasing)
    with fl64_binade [of "binade p" p] fl64_binade [of "binade q" q] bp bq show ?thesis by linarith
  qed
qed

subsection \<open>The predicate\<close>

text \<open>
  The cluster has N = peers + 1 nodes and the coordinator holds the state itself. Both counts are
  converted to \<open>float64\<close> before the division.
\<close>

definition AllRatio :: rat where
  "AllRatio = 1"

definition reached :: "nat \<Rightarrow> nat \<Rightarrow> rat \<Rightarrow> bool" where
  "reached N acks ratio =
     (let holders = 1 + acks in
      if ratio \<ge> AllRatio then N \<le> holders
      else fl64 (fl64 (of_nat holders) / fl64 (of_nat N)) > ratio)"

lemma fl64_nat: "n < 2 ^ 53 \<Longrightarrow> fl64 (of_nat n) = of_nat n"
proof (cases "n = 0")
  case False
  assume n: "n < 2 ^ 53"
  define e where "e = binade (of_nat n)"
  have b: "2 powi e \<le> rat_of_nat n \<and> rat_of_nat n < 2 powi (e + 1)"
    unfolding e_def using False by (intro binade_bounds) simp
  have "(2::rat) powi 0 < 2 powi (e + 1)"
  proof -
    have "1 \<le> rat_of_nat n" using False by simp
    with b show ?thesis by simp
  qed
  then have e0: "0 \<le> e" using powi_less [of 0 "e + 1"] by simp
  have "rat_of_nat n < 2 ^ 53" using n by (metis of_nat_less_iff of_nat_numeral of_nat_power)
  with b have "(2::rat) powi e < 2 powi 53" by simp
  then have e52: "e \<le> 52" using powi_less [of e 53] by simp
  have "(2::rat) ^ nat (52 - e) * 2 powi (e - 52) = 2 powi (52 - e) * 2 powi (e - 52)"
    using e52 by (simp add: power_int_def)
  also have "\<dots> = 1" by (simp flip: power_int_add)
  finally have "rat_of_nat n = of_int (int n * 2 ^ nat (52 - e)) * 2 powi (e - 52)"
    by (simp add: mult.assoc)
  with b show ?thesis using fl64_exact by blast
qed (simp add: fl64_def)

lemma fl64_half: "fl64 (1 / 2) = 1 / 2" and fl64_one: "fl64 1 = 1"
  using fl64_power [of "-1"] fl64_power [of 0] by (simp_all add: power_int_minus field_simps)

text \<open>A ratio of one half or more demands a majority.\<close>

lemma reached_majority:
  assumes "reached N d r" "1 / 2 \<le> r" "1 + d \<le> N" "N < 2 ^ 53"
  shows "N < 2 * (1 + d)"
proof (cases "r \<ge> AllRatio")
  case True
  with assms show ?thesis by (simp add: reached_def Let_def)
next
  case False
  have f: "fl64 (of_nat (1 + d)) = of_nat (1 + d)" "fl64 (of_nat N) = of_nat N"
    using assms(3,4) by (intro fl64_nat; linarith)+
  let ?q = "rat_of_nat (1 + d) / rat_of_nat N"
  have q: "0 < ?q" using assms(3) by (simp add: field_simps)
  from False assms(1) f have r: "r < fl64 ?q" by (simp add: reached_def Let_def)
  show ?thesis
  proof (rule ccontr)
    assume "\<not> N < 2 * (1 + d)"
    then have "rat_of_nat (2 * (1 + d)) \<le> of_nat N" by (simp only: of_nat_le_iff not_less)
    then have "?q \<le> 1 / 2" using assms(3) by (simp add: field_simps)
    from fl64_mono [OF q this] r assms(2) fl64_half show False by simp
  qed
qed

text \<open>Once everybody has acknowledged, every ratio is met; a ratio of 0 is met at once.\<close>

lemma reached_all: "N < 2 ^ 53 \<Longrightarrow> 0 < N \<Longrightarrow> reached N (N - 1) r"
  by (cases "r \<ge> AllRatio") (auto simp: reached_def Let_def fl64_nat fl64_one AllRatio_def)

lemma reached_zero: "0 < N \<Longrightarrow> N < 2 ^ 53 \<Longrightarrow> reached N 0 0"
proof -
  assume N: "0 < N" "N < 2 ^ 53"
  have "0 < rat_of_nat 1 / rat_of_nat N" using N by simp
  from binade_bounds [OF this] have "0 < fl64 (rat_of_nat 1 / rat_of_nat N)"
    using fl64_binade [of "binade (1 / rat_of_nat N)"] two_powi(3) by (metis (no_types) less_le_trans of_nat_1)
  with N show ?thesis by (simp add: reached_def Let_def AllRatio_def fl64_nat fl64_one)
qed

lemma reached_mono: "reached N d r \<Longrightarrow> d \<le> e \<Longrightarrow> 1 + e \<le> N \<Longrightarrow> N < 2 ^ 53 \<Longrightarrow> reached N e r"
proof (cases "r \<ge> AllRatio")
  case False
  assume a: "reached N d r" "d \<le> e" "1 + e \<le> N" "N < 2 ^ 53"
  then have f: "fl64 (of_nat (1 + d)) = of_nat (1 + d)" "fl64 (of_nat (1 + e)) = of_nat (1 + e)"
    "fl64 (of_nat N) = of_nat N" by (intro fl64_nat; linarith)+
  have "fl64 (rat_of_nat (1 + d) / of_nat N) \<le> fl64 (rat_of_nat (1 + e) / of_nat N)"
    using a by (intro fl64_mono divide_right_mono) (auto simp: field_simps)
  with a False f show ?thesis by (simp add: reached_def Let_def)
qed (simp add: reached_def Let_def)

text \<open>At 1/2 the predicate is the exact majority test: rounding never rejects one either.\<close>

lemma reached_half_iff:
  assumes "1 + d \<le> N" "N \<le> 2 ^ 52"
  shows "reached N d (1 / 2) \<longleftrightarrow> N < 2 * (1 + d)"
proof
  assume "reached N d (1 / 2)"
  with reached_majority [of N d "1 / 2"] assms show "N < 2 * (1 + d)" by simp
next
  assume m: "N < 2 * (1 + d)"
  have "1 + d < 2 ^ 53" "N < 2 ^ 53" using assms by simp_all
  then have f: "fl64 (of_nat (1 + d)) = of_nat (1 + d)" "fl64 (of_nat N) = of_nat N"
    using fl64_nat by blast+
  define x :: rat where "x = 1 / 2 + 1 / 2 ^ 53"
  have "fl64 x = x"
    by (rule fl64_exact [of "-1" _ "2 ^ 52 + 1"]) (simp_all add: x_def power_int_minus field_simps)
  moreover have "x \<le> rat_of_nat (1 + d) / rat_of_nat N"
  proof -
    have n: "rat_of_nat N \<le> 2 ^ 52" using assms(2) by (metis of_nat_le_iff of_nat_numeral of_nat_power)
    have "rat_of_nat (N + 1) \<le> rat_of_nat (2 * (1 + d))" using m by (simp only: of_nat_le_iff)
    then have "rat_of_nat N / 2 + 1 / 2 \<le> of_nat (1 + d)" by simp
    moreover have "x * rat_of_nat N \<le> rat_of_nat N / 2 + 1 / 2"
      using n by (simp add: x_def field_simps)
    ultimately show ?thesis using assms(1) by (simp add: field_simps)
  qed
  moreover have "0 < x" by (simp add: x_def)
  ultimately have "x \<le> fl64 (rat_of_nat (1 + d) / rat_of_nat N)"
    using fl64_mono by metis
  then show "reached N d (1 / 2)"
    unfolding reached_def Let_def f by (simp add: x_def AllRatio_def)
qed

subsection \<open>Quorum systems\<close>

text \<open>Quorums over the nodes of a cluster: any two of them share a node.\<close>

locale quorum_system =
  fixes nodes :: "'a set" and quorum :: "'a set \<Rightarrow> bool"
  assumes quorum_nodes: "quorum Q \<Longrightarrow> Q \<subseteq> nodes"
    and quorum_meet: "quorum Q \<Longrightarrow> quorum R \<Longrightarrow> Q \<inter> R \<noteq> {}"
begin

text \<open>What every node of a quorum has stored, every later quorum finds at one of its nodes.\<close>

lemma quorum_reads:
  assumes "quorum W" "quorum R" "\<And>n. n \<in> W \<Longrightarrow> stored n"
  shows "\<exists>n \<in> R. stored n"
  using quorum_meet [OF assms(1,2)] assms(3) by blast

lemma quorum_nonempty: "quorum Q \<Longrightarrow> Q \<noteq> {}"
  using quorum_meet by blast

end

definition holders_quorum :: "'a set \<Rightarrow> 'a set \<Rightarrow> bool" where
  "holders_quorum U Q \<longleftrightarrow>
     finite U \<and> Q \<subseteq> U \<and> Q \<noteq> {} \<and> card U < 2 ^ 53 \<and>
     (\<exists>r \<ge> 1 / 2. reached (card U) (card Q - 1) r)"

interpretation sync: quorum_system U "holders_quorum U" for U :: "'a set"
proof
  fix Q R :: "'a set"
  assume "holders_quorum U Q" and "holders_quorum U R"
  then have f: "finite U" "Q \<subseteq> U" "R \<subseteq> U" "Q \<noteq> {}" "R \<noteq> {}" "card U < 2 ^ 53"
    and r: "\<exists>r \<ge> 1 / 2. reached (card U) (card Q - 1) r" "\<exists>r \<ge> 1 / 2. reached (card U) (card R - 1) r"
    by (auto simp: holders_quorum_def)
  have maj: "card U < 2 * card S" if "S \<subseteq> U" "S \<noteq> {}" "reached (card U) (card S - 1) r" "1 / 2 \<le> r" for S r
  proof -
    have "finite S" using that(1) f(1) by (rule finite_subset)
    with that(2) have "0 < card S" by (simp add: card_gt_0_iff)
    with reached_majority [OF that(3,4)] card_mono [OF f(1) that(1)] f(6) show ?thesis by simp
  qed
  have "card U < 2 * card Q" "card U < 2 * card R" using r maj [of Q] maj [of R] f by blast+
  moreover have "finite Q" "finite R" using f finite_subset by blast+
  moreover have "card (Q \<union> R) \<le> card U" using f by (intro card_mono) auto
  ultimately show "Q \<inter> R \<noteq> {}" using card_Un_disjoint [of Q R] by auto
qed (auto simp: holders_quorum_def)

text \<open>
  C26: Two quorums meet. If two sets of nodes of one cluster each satisfy the sync predicate at ratios
  of one half or more (or \<open>all\<close>), whatever the rounding of the floating-point division, they have
  a node in common: a read at such a ratio always asks a node that took part in the write.
\<close>

theorem sync_quorums_meet:
  assumes "finite U" "A \<subseteq> U" "B \<subseteq> U" "A \<noteq> {}" "B \<noteq> {}" "card U < 2 ^ 53" "1 / 2 \<le> r" "1 / 2 \<le> s"
    and "reached (card U) (card A - 1) r" and "reached (card U) (card B - 1) s"
  shows "A \<inter> B \<noteq> {}"
  using assms sync.quorum_meet [of U A B] by (auto simp: holders_quorum_def)

lemma sync_quorums_meet_witness: "{1, 2} \<inter> {2, 3 :: nat} \<noteq> {}"
proof -
  have "reached 3 1 (1 / 2)" using reached_half_iff [of 1 3] by simp
  then show ?thesis
    using sync_quorums_meet [of "{1, 2, 3 :: nat}" "{1, 2}" "{2, 3}" "1 / 2" "1 / 2"] by simp
qed

text \<open>
  C27: The threshold at one half is exact. In a cluster of up to 2^52 nodes the predicate at ratio 0.5
  holds for just the counts that are a true majority: rounding neither admits a half nor rejects a
  majority.
\<close>

theorem half_is_majority:
  assumes "1 + d \<le> N" and "N \<le> 2 ^ 52"
  shows "reached N d (1 / 2) \<longleftrightarrow> N < 2 * (1 + d)"
  using assms by (rule reached_half_iff)

lemma half_is_majority_witness: "reached 4 2 (1 / 2) \<and> \<not> reached 4 1 (1 / 2)"
  using half_is_majority [of 2 4] half_is_majority [of 1 4] by simp

end
