(* ===== verification/Node.thy ===== *)
theory Node
  imports DocKey Quorum Builder "HOL-Library.Word"
begin

text \<open>
  node/node.go: one node of a cluster. A node holds one document table per deployed collection,
  receives messages in its loop, gossips snapshots, and coordinates synchronous operations through
  a registry of pending requests.

  A peer is a handle of type \<open>'p\<close>: what is behind it (a channel, a simulated link) is not node code.
  An operation that sends returns the messages with the handles they go to; a goroutine that only
  sends is the message it sends. A Go panic of a snapshot is the \<open>rtErr\<close> of the operation. Each
  definition is the operation without interference; NodeRun.thy has the steps in which the document
  operations interleave. \<open>ord\<close> and \<open>lord\<close> are the iteration orders of Vector.thy.
\<close>

record colState =
  cs_spec :: model
  cs_key :: "paramSpec option"
  cs_docs :: "vectorCRDT gomap"

record documentRef =
  dr_collection :: string
  dr_document :: string

record syncPushMsg =
  pu_FromID :: string
  pu_ReqID :: string
  pu_Collection :: string
  pu_Document :: string
  pu_Fingerprint :: string
  pu_Snapshot :: "slotWire gomap"

record syncPullMsg =
  pq_FromID :: string
  pq_ReqID :: string
  pq_Collection :: string
  pq_Document :: string
  pq_Fingerprint :: string

record syncAckMsg =
  ak_FromID :: string
  ak_ReqID :: string
  ak_Document :: string
  ak_Snapshot :: "slotWire gomap"

type_synonym nodeSnapshot = "rtVal gomap gomap gomap"

datatype nodeMsg =
    GossipMsg string nodeSnapshot
  | DeployMsg builtPlan
  | SyncPush syncPushMsg
  | SyncPull syncPullMsg
  | SyncAck syncAckMsg
  | OtherMsg

definition MessageKind :: "nodeMsg \<Rightarrow> string" where
  "MessageKind msg =
     (case msg of
        GossipMsg sid snap \<Rightarrow> ''gossip''
      | DeployMsg plan \<Rightarrow> ''deploy''
      | SyncPush m \<Rightarrow> ''sync-push''
      | SyncPull m \<Rightarrow> ''sync-pull''
      | SyncAck m \<Rightarrow> ''sync-ack''
      | OtherMsg \<Rightarrow> ''unknown'')"

text \<open>One in-flight phase: the acks not yet taken from the channel, its capacity, who has acked.\<close>

record pendingReq =
  pr_ch :: "syncAckMsg list"
  pr_cap :: nat
  pr_seen :: "unit gomap"
  pr_document :: string

record 'p node =
  n_id :: string
  n_ready :: bool
  n_fingerprint :: string
  n_peers :: "'p list"
  n_peerByID :: "'p gomap"
  n_collections :: "colState gomap"
  n_reqSeq :: "64 word"
  n_pending :: "pendingReq gomap"

type_synonym 'p sends = "('p \<times> nodeMsg) list"

datatype nodeErr =
    NoCollection string
  | SingletonKey string
  | KeyRequired string
  | BadKey string string keyErr
  | NodeCrdt vecErr
  | QuorumUnreached nat nat
  | NilCollection

subsection \<open>Construction and deployment\<close>

definition node_New :: "string \<Rightarrow> 'p node" where
  "node_New i =
     \<lparr> n_id = i, n_ready = False, n_fingerprint = [], n_peers = [], n_peerByID = [],
       n_collections = [], n_reqSeq = 0, n_pending = [] \<rparr>"

definition AddPeer :: "'p node \<Rightarrow> string \<Rightarrow> 'p \<Rightarrow> 'p node" where
  "AddPeer n i p = n\<lparr> n_peers := n_peers n @ [p], n_peerByID := mput i p (n_peerByID n) \<rparr>"

definition newCol :: "string \<Rightarrow> builtCollection \<Rightarrow> colState" where
  "newCol nid bc =
     \<lparr> cs_spec = bc_Spec bc, cs_key = bc_Key bc,
       cs_docs = (if bc_Key bc = None then mput [] (New (bc_Spec bc) nid) [] else []) \<rparr>"

definition Initialize :: "'p node \<Rightarrow> builtPlan \<Rightarrow> 'p node" where
  "Initialize n plan =
     (if n_ready n then n
      else n\<lparr> n_collections := fold (\<lambda>bc cols. mput (bc_Name bc) (newCol (n_id n) bc) cols)
                                 (bp_Collections plan) (n_collections n),
              n_fingerprint := bp_Fingerprint plan, n_ready := True \<rparr>)"

definition PropagatePlan :: "'p node \<Rightarrow> builtPlan \<Rightarrow> 'p sends" where
  "PropagatePlan n plan = map (\<lambda>p. (p, DeployMsg plan)) (n_peers n)"

subsection \<open>Documents\<close>

definition resolveDocument :: "'p node \<Rightarrow> string \<Rightarrow> string \<Rightarrow> nodeErr + documentRef" where
  "resolveDocument n collection raw =
     (case map_of (n_collections n) collection of
        None \<Rightarrow> Inl (NoCollection collection)
      | Some cs \<Rightarrow>
          (case cs_key cs of
             None \<Rightarrow>
               if raw \<noteq> [] then Inl (SingletonKey collection)
               else Inr \<lparr> dr_collection = collection, dr_document = [] \<rparr>
           | Some key \<Rightarrow>
               if raw = [] then Inl (KeyRequired collection)
               else rbind (rwrap (BadKey collection (p_Name key)) (normalizeDocumentKey key raw)) (\<lambda>k.
                    Inr \<lparr> dr_collection = collection, dr_document = k \<rparr>)))"

text \<open>The table of the collection and the entry of the document a reference names.\<close>

definition colOf :: "'p node \<Rightarrow> documentRef \<Rightarrow> colState option" where
  "colOf n ref = map_of (n_collections n) (dr_collection ref)"

definition docOf :: "'p node \<Rightarrow> documentRef \<Rightarrow> vectorCRDT option" where
  "docOf n ref = (case colOf n ref of None \<Rightarrow> None | Some cs \<Rightarrow> map_of (cs_docs cs) (dr_document ref))"

definition putDoc :: "documentRef \<Rightarrow> vectorCRDT \<Rightarrow> 'p node \<Rightarrow> 'p node" where
  "putDoc ref c n =
     (case colOf n ref of
        None \<Rightarrow> n
      | Some cs \<Rightarrow>
          n\<lparr> n_collections := mput (dr_collection ref) (cs\<lparr>cs_docs := mput (dr_document ref) c (cs_docs cs)\<rparr>)
                                 (n_collections n) \<rparr>)"

definition document :: "'p node \<Rightarrow> documentRef \<Rightarrow> nodeErr + vectorCRDT \<times> bool" where
  "document n ref =
     (case colOf n ref of
        None \<Rightarrow> Inl NilCollection
      | Some cs \<Rightarrow>
          (case map_of (cs_docs cs) (dr_document ref) of
             Some c \<Rightarrow> Inr (c, True)
           | None \<Rightarrow> Inr (New (cs_spec cs) (n_id n), False)))"

text \<open>An operation on a stored document in place, and on a fresh one that is stored on success.\<close>

definition inPlace :: "documentRef \<Rightarrow> 'p node \<Rightarrow> vectorCRDT \<times> vecErr option \<Rightarrow> 'p node \<times> nodeErr option" where
  "inPlace ref n r = (putDoc ref (fst r) n, map_option NodeCrdt (snd r))"

definition publish :: "documentRef \<Rightarrow> 'p node \<Rightarrow> vectorCRDT \<times> vecErr option \<Rightarrow> 'p node \<times> nodeErr option" where
  "publish ref n r =
     (case snd r of
        Some e \<Rightarrow> (n, Some (NodeCrdt e))
      | None \<Rightarrow> (putDoc ref (fst r) n, None))"

definition onDocument ::
  "'p node \<Rightarrow> documentRef \<Rightarrow> (vectorCRDT \<Rightarrow> vectorCRDT \<times> vecErr option) \<Rightarrow> 'p node \<times> nodeErr option"
where
  "onDocument n ref f =
     (case colOf n ref of
        None \<Rightarrow> (n, Some NilCollection)
      | Some cs \<Rightarrow>
          (case map_of (cs_docs cs) (dr_document ref) of
             Some c \<Rightarrow> inPlace ref n (f c)
           | None \<Rightarrow> publish ref n (f (New (cs_spec cs) (n_id n)))))"

definition apply_ref ::
  "(rtVal gomap \<Rightarrow> rtVal gomap) \<Rightarrow> 'p node \<Rightarrow> documentRef \<Rightarrow> string \<Rightarrow> goAny list \<Rightarrow> 'p node \<times> nodeErr option"
where
  "apply_ref ord n ref action payload = onDocument n ref (\<lambda>c. Apply ord c action payload)"

definition query_ref ::
  "(rtVal gomap \<Rightarrow> rtVal gomap) \<Rightarrow> 'p node \<Rightarrow> documentRef \<Rightarrow> string \<Rightarrow> goAny list \<Rightarrow> nodeErr + goAny"
where
  "query_ref ord n ref name params =
     rbind (document n ref) (\<lambda>(c, _). rwrap NodeCrdt (Query ord c name params))"

definition ApplyDocument ::
  "(rtVal gomap \<Rightarrow> rtVal gomap) \<Rightarrow> 'p node \<Rightarrow> string \<Rightarrow> string \<Rightarrow> string \<Rightarrow> goAny list \<Rightarrow> 'p node \<times> nodeErr option"
where
  "ApplyDocument ord n collection doc action payload =
     (case resolveDocument n collection doc of
        Inl e \<Rightarrow> (n, Some e)
      | Inr ref \<Rightarrow> apply_ref ord n ref action payload)"

definition Apply_node ::
  "(rtVal gomap \<Rightarrow> rtVal gomap) \<Rightarrow> 'p node \<Rightarrow> string \<Rightarrow> string \<Rightarrow> goAny list \<Rightarrow> 'p node \<times> nodeErr option"
where
  "Apply_node ord n collection action payload =
     (case resolveDocument n collection [] of
        Inl e \<Rightarrow> (n, Some e)
      | Inr ref \<Rightarrow> apply_ref ord n ref action payload)"

definition QueryDocument ::
  "(rtVal gomap \<Rightarrow> rtVal gomap) \<Rightarrow> 'p node \<Rightarrow> string \<Rightarrow> string \<Rightarrow> string \<Rightarrow> goAny list \<Rightarrow> nodeErr + goAny"
where
  "QueryDocument ord n collection doc name params =
     rbind (resolveDocument n collection doc) (\<lambda>ref. query_ref ord n ref name params)"

definition Query_node ::
  "(rtVal gomap \<Rightarrow> rtVal gomap) \<Rightarrow> 'p node \<Rightarrow> string \<Rightarrow> string \<Rightarrow> goAny list \<Rightarrow> nodeErr + goAny"
where
  "Query_node ord n collection name params =
     rbind (resolveDocument n collection []) (\<lambda>ref. query_ref ord n ref name params)"

definition validate_ref :: "'p node \<Rightarrow> documentRef \<Rightarrow> string \<Rightarrow> goAny list \<Rightarrow> nodeErr + unit" where
  "validate_ref n ref query params =
     rbind (document n ref) (\<lambda>(c, _).
     case ValidateQuery c query params of Some e \<Rightarrow> Inl (NodeCrdt e) | None \<Rightarrow> Inr ())"

definition ValidateDocumentQuery :: "'p node \<Rightarrow> string \<Rightarrow> string \<Rightarrow> string \<Rightarrow> goAny list \<Rightarrow> nodeErr + unit" where
  "ValidateDocumentQuery n collection doc query params =
     rbind (resolveDocument n collection doc) (\<lambda>ref. validate_ref n ref query params)"

definition ValidateQuery_node :: "'p node \<Rightarrow> string \<Rightarrow> string \<Rightarrow> goAny list \<Rightarrow> nodeErr + unit" where
  "ValidateQuery_node n collection query params =
     rbind (resolveDocument n collection []) (\<lambda>ref. validate_ref n ref query params)"

subsection \<open>Snapshots\<close>

definition Snapshot_node :: "'p node \<Rightarrow> rtErr + nodeSnapshot" where
  "Snapshot_node n = mmapR (\<lambda>cs. mmapR Snapshot (cs_docs cs)) (n_collections n)"

definition SnapshotWireAll :: "'p node \<Rightarrow> rtErr + slotWire gomap gomap gomap" where
  "SnapshotWireAll n = mmapR (\<lambda>cs. mmapR SnapshotWire (cs_docs cs)) (n_collections n)"

definition snapshotCollection :: "'p node \<Rightarrow> documentRef \<Rightarrow> rtErr + slotWire gomap" where
  "snapshotCollection n ref =
     (case colOf n ref of
        None \<Rightarrow> Inl Panic
      | Some cs \<Rightarrow>
          (case map_of (cs_docs cs) (dr_document ref) of
             None \<Rightarrow> Inr []
           | Some c \<Rightarrow> SnapshotWire c))"

definition mergeSnapshot ::
  "(rtVal gomap \<Rightarrow> rtVal gomap) \<Rightarrow> (rtVal gomap \<Rightarrow> rtVal gomap) \<Rightarrow> 'p node \<Rightarrow> documentRef \<Rightarrow> rtVal gomap \<Rightarrow>
   'p node \<times> nodeErr option"
where
  "mergeSnapshot ord lord n ref snap = onDocument n ref (\<lambda>c. mergeRemote ord lord c snap)"

definition mergeCollection ::
  "(rtVal gomap \<Rightarrow> rtVal gomap) \<Rightarrow> (rtVal gomap \<Rightarrow> rtVal gomap) \<Rightarrow> 'p node \<Rightarrow> documentRef \<Rightarrow> slotWire gomap \<Rightarrow>
   'p node \<times> nodeErr option"
where
  "mergeCollection ord lord n ref snap =
     (if colOf n ref \<noteq> None \<and> docOf n ref = None \<and> snap = [] then (n, None)
      else onDocument n ref (\<lambda>c. MergeWire ord lord c snap))"

definition snapshotEmpty :: "rtVal gomap \<Rightarrow> bool" where
  "snapshotEmpty s \<longleftrightarrow> s = []"

text \<open>One document of a gossiped snapshot; an error is logged and the loop goes on.\<close>

definition mergeEntry ::
  "(rtVal gomap \<Rightarrow> rtVal gomap) \<Rightarrow> (rtVal gomap \<Rightarrow> rtVal gomap) \<Rightarrow> string \<Rightarrow> string \<times> rtVal gomap \<Rightarrow> 'p node \<Rightarrow> 'p node"
where
  "mergeEntry ord lord name ds n =
     (if snapshotEmpty (snd ds) then n
      else case resolveDocument n name (fst ds) of
        Inl e \<Rightarrow> n
      | Inr ref \<Rightarrow> fst (mergeSnapshot ord lord n ref (snd ds)))"

definition MergeSnapshot ::
  "(rtVal gomap \<Rightarrow> rtVal gomap) \<Rightarrow> (rtVal gomap \<Rightarrow> rtVal gomap) \<Rightarrow> (nodeSnapshot \<Rightarrow> nodeSnapshot) \<Rightarrow>
   (rtVal gomap gomap \<Rightarrow> rtVal gomap gomap) \<Rightarrow> 'p node \<Rightarrow> nodeSnapshot \<Rightarrow> 'p node"
where
  "MergeSnapshot ord lord cord dord n snap =
     fold (\<lambda>(name, docs). fold (mergeEntry ord lord name) (dord docs)) (cord snap) n"

subsection \<open>Pending requests\<close>

definition nextReqID :: "'p node \<Rightarrow> string \<times> 'p node" where
  "nextReqID n =
     (let s = n_reqSeq n + 1 in (n_id n @ ''-'' @ nat_String (unat s), n\<lparr>n_reqSeq := s\<rparr>))"

definition register_req :: "'p node \<Rightarrow> string \<Rightarrow> string \<Rightarrow> 'p node" where
  "register_req n reqID doc =
     n\<lparr> n_pending := mput reqID \<lparr> pr_ch = [], pr_cap = length (n_peers n), pr_seen = [], pr_document = doc \<rparr>
          (n_pending n) \<rparr>"

definition cancel :: "'p node \<Rightarrow> string \<Rightarrow> 'p node" where
  "cancel n reqID = n\<lparr> n_pending := mdel reqID (n_pending n) \<rparr>"

text \<open>The demultiplexer: checks and counts an ack; a full channel drops it (the \<open>default\<close> of the select).\<close>

definition handleSyncAck :: "'p node \<Rightarrow> syncAckMsg \<Rightarrow> 'p node" where
  "handleSyncAck n m =
     (case map_of (n_pending n) (ak_ReqID m) of
        None \<Rightarrow> n
      | Some pr \<Rightarrow>
          if map_of (n_peerByID n) (ak_FromID m) = None then n
          else if map_of (pr_seen pr) (ak_FromID m) \<noteq> None then n
          else if ak_Document m \<noteq> pr_document pr then n
          else
            (let ch = (if length (pr_ch pr) < pr_cap pr then pr_ch pr @ [m] else pr_ch pr) in
             n\<lparr> n_pending := mput (ak_ReqID m) (pr\<lparr> pr_ch := ch, pr_seen := mput (ak_FromID m) () (pr_seen pr) \<rparr>)
                  (n_pending n) \<rparr>))"

subsection \<open>Handlers\<close>

definition fingerprintMatches :: "'p node \<Rightarrow> string \<Rightarrow> bool" where
  "fingerprintMatches n fp \<longleftrightarrow> n_ready n \<and> n_fingerprint n = fp"

definition routeAck :: "'p node \<Rightarrow> string \<Rightarrow> syncAckMsg \<Rightarrow> 'p sends" where
  "routeAck n toID ack =
     (case map_of (n_peerByID n) toID of None \<Rightarrow> [] | Some p \<Rightarrow> [(p, SyncAck ack)])"

definition handleSyncPush ::
  "(rtVal gomap \<Rightarrow> rtVal gomap) \<Rightarrow> (rtVal gomap \<Rightarrow> rtVal gomap) \<Rightarrow> 'p node \<Rightarrow> syncPushMsg \<Rightarrow> 'p node \<times> 'p sends"
where
  "handleSyncPush ord lord n m =
     (if \<not> fingerprintMatches n (pu_Fingerprint m) then (n, [])
      else case resolveDocument n (pu_Collection m) (pu_Document m) of
        Inl e \<Rightarrow> (n, [])
      | Inr ref \<Rightarrow>
          if dr_document ref \<noteq> pu_Document m then (n, [])
          else (case mergeCollection ord lord n ref (pu_Snapshot m) of
              (n', Some e) \<Rightarrow> (n', [])
            | (n', None) \<Rightarrow>
                (n', routeAck n' (pu_FromID m)
                   \<lparr> ak_FromID = n_id n', ak_ReqID = pu_ReqID m, ak_Document = dr_document ref, ak_Snapshot = [] \<rparr>)))"

definition handleSyncPull :: "'p node \<Rightarrow> syncPullMsg \<Rightarrow> rtErr + 'p sends" where
  "handleSyncPull n m =
     (if \<not> fingerprintMatches n (pq_Fingerprint m) then Inr []
      else case resolveDocument n (pq_Collection m) (pq_Document m) of
        Inl e \<Rightarrow> Inr []
      | Inr ref \<Rightarrow>
          if dr_document ref \<noteq> pq_Document m then Inr []
          else rbind (snapshotCollection n ref) (\<lambda>snap.
            Inr (routeAck n (pq_FromID m)
               \<lparr> ak_FromID = n_id n, ak_ReqID = pq_ReqID m, ak_Document = dr_document ref, ak_Snapshot = snap \<rparr>)))"

text \<open>One turn of the message loop.\<close>

definition handleMsg ::
  "(rtVal gomap \<Rightarrow> rtVal gomap) \<Rightarrow> (rtVal gomap \<Rightarrow> rtVal gomap) \<Rightarrow> (nodeSnapshot \<Rightarrow> nodeSnapshot) \<Rightarrow>
   (rtVal gomap gomap \<Rightarrow> rtVal gomap gomap) \<Rightarrow> 'p node \<Rightarrow> nodeMsg \<Rightarrow> rtErr + 'p node \<times> 'p sends"
where
  "handleMsg ord lord cord dord n msg =
     (case msg of
        GossipMsg sid snap \<Rightarrow> Inr (if n_ready n then MergeSnapshot ord lord cord dord n snap else n, [])
      | DeployMsg plan \<Rightarrow> Inr (Initialize n plan, [])
      | SyncPush m \<Rightarrow> Inr (handleSyncPush ord lord n m)
      | SyncPull m \<Rightarrow> rbind (handleSyncPull n m) (\<lambda>out. Inr (n, out))
      | SyncAck m \<Rightarrow> Inr (handleSyncAck n m, [])
      | OtherMsg \<Rightarrow> Inr (n, []))"

text \<open>A tick of the gossip loop; \<open>i\<close> is the random index of the peer.\<close>

definition gossipTick :: "'p node \<Rightarrow> nat \<Rightarrow> rtErr + 'p sends" where
  "gossipTick n i =
     (if \<not> n_ready n \<or> length (n_peers n) = 0 then Inr []
      else rbind (Snapshot_node n) (\<lambda>snap. Inr [(n_peers n ! i, GossipMsg (n_id n) snap)]))"

subsection \<open>The coordinator\<close>

definition clusterSize :: "'p node \<Rightarrow> nat" where
  "clusterSize n = length (n_peers n) + 1"

definition broadcast :: "'p node \<Rightarrow> nodeMsg \<Rightarrow> 'p sends" where
  "broadcast n msg = map (\<lambda>p. (p, msg)) (n_peers n)"

text \<open>
  The start of a phase, up to the wait for acks: nothing to do when the node itself is enough,
  otherwise the request is registered and broadcast.
\<close>

definition pushStart :: "'p node \<Rightarrow> documentRef \<Rightarrow> rat \<Rightarrow> rtErr + 'p node \<times> 'p sends \<times> string option" where
  "pushStart n ref ratio =
     (if reached (clusterSize n) 0 ratio then Inr (n, [], None)
      else
        rbind (snapshotCollection n ref) (\<lambda>snap.
        case nextReqID n of (rid, n1) \<Rightarrow>
          (let n2 = register_req n1 rid (dr_document ref) in
           Inr (n2, broadcast n2 (SyncPush
             \<lparr> pu_FromID = n_id n2, pu_ReqID = rid, pu_Collection = dr_collection ref,
               pu_Document = dr_document ref, pu_Fingerprint = n_fingerprint n2, pu_Snapshot = snap \<rparr>), Some rid))))"

definition pullStart :: "'p node \<Rightarrow> documentRef \<Rightarrow> rat \<Rightarrow> 'p node \<times> 'p sends \<times> string option" where
  "pullStart n ref ratio =
     (if reached (clusterSize n) 0 ratio then (n, [], None)
      else
        (case nextReqID n of (rid, n1) \<Rightarrow>
          (let n2 = register_req n1 rid (dr_document ref) in
           (n2, broadcast n2 (SyncPull
             \<lparr> pq_FromID = n_id n2, pq_ReqID = rid, pq_Collection = dr_collection ref,
               pq_Document = dr_document ref, pq_Fingerprint = n_fingerprint n2 \<rparr>), Some rid))))"

text \<open>One turn of the wait: an ack is taken from the channel, incorporated, counted and tested.\<close>

definition popAck :: "'p node \<Rightarrow> string \<Rightarrow> (syncAckMsg \<times> 'p node) option" where
  "popAck n rid =
     (case map_of (n_pending n) rid of
        None \<Rightarrow> None
      | Some pr \<Rightarrow>
          (case pr_ch pr of
             [] \<Rightarrow> None
           | m # ms \<Rightarrow> Some (m, n\<lparr> n_pending := mput rid (pr\<lparr>pr_ch := ms\<rparr>) (n_pending n) \<rparr>)))"

datatype turn = Waiting | Finished | Failed nodeErr

definition collectAck ::
  "('p node \<Rightarrow> syncAckMsg \<Rightarrow> 'p node \<times> nodeErr option) \<Rightarrow> 'p node \<Rightarrow> string \<Rightarrow> rat \<Rightarrow> nat \<Rightarrow>
   ('p node \<times> nat \<times> turn) option"
where
  "collectAck onAck n rid ratio cnt =
     (case popAck n rid of
        None \<Rightarrow> None
      | Some (m, n1) \<Rightarrow>
          Some (case onAck n1 m of
            (n2, Some e) \<Rightarrow> (n2, cnt, Waiting)
          | (n2, None) \<Rightarrow> (n2, cnt + 1, if reached (clusterSize n2) (cnt + 1) ratio then Finished else Waiting)))"

definition collectTimeout :: "'p node \<Rightarrow> nat \<Rightarrow> turn" where
  "collectTimeout n cnt = Failed (QuorumUnreached (1 + cnt) (clusterSize n))"

definition pushAck :: "'p node \<Rightarrow> syncAckMsg \<Rightarrow> 'p node \<times> nodeErr option" where
  "pushAck n m = (n, None)"

definition pullAck ::
  "(rtVal gomap \<Rightarrow> rtVal gomap) \<Rightarrow> (rtVal gomap \<Rightarrow> rtVal gomap) \<Rightarrow> documentRef \<Rightarrow> 'p node \<Rightarrow> syncAckMsg \<Rightarrow>
   'p node \<times> nodeErr option"
where
  "pullAck ord lord ref n m = mergeCollection ord lord n ref (ak_Snapshot m)"

end
