(* ===== verification/NodeDocs.thy ===== *)
theory NodeDocs
  imports Node Convergence
begin

text \<open>
  What a node's operations do to the documents of one collection whose model is a proved type: they
  keep the collection well formed (\<open>node_ok\<close>), and the state of every document only grows. The
  frame lemmas say what an operation on documents leaves alone.
\<close>

definition plan_col :: "builtPlan \<Rightarrow> string \<Rightarrow> builtCollection option" where
  "plan_col bp c = map_of (rev (map (\<lambda>bc. (bc_Name bc, bc)) (bp_Collections bp))) c"

text \<open>The state of a document at a node; nothing stored is the empty state.\<close>

definition dstate :: "'p node \<Rightarrow> documentRef \<Rightarrow> rtVal gomap" where
  "dstate n ref = (case docOf n ref of None \<Rightarrow> [] | Some v \<Rightarrow> v_state v)"

text \<open>Nothing but the documents differs.\<close>

definition same_frame :: "'p node \<Rightarrow> 'p node \<Rightarrow> bool" where
  "same_frame n n' \<longleftrightarrow> n' = n\<lparr>n_collections := n_collections n'\<rparr>"

lemma same_frame_fields:
  assumes "same_frame n n'"
  shows "n_id n' = n_id n" "n_ready n' = n_ready n" "n_fingerprint n' = n_fingerprint n" "n_peers n' = n_peers n"
    "n_peerByID n' = n_peerByID n" "n_reqSeq n' = n_reqSeq n" "n_pending n' = n_pending n"
  using arg_cong [OF assms [unfolded same_frame_def], of n_id] arg_cong [OF assms [unfolded same_frame_def], of n_ready]
    arg_cong [OF assms [unfolded same_frame_def], of n_fingerprint] arg_cong [OF assms [unfolded same_frame_def], of n_peers]
    arg_cong [OF assms [unfolded same_frame_def], of n_peerByID] arg_cong [OF assms [unfolded same_frame_def], of n_reqSeq]
    arg_cong [OF assms [unfolded same_frame_def], of n_pending] by simp_all

lemma same_frame_refl [simp]: "same_frame n n"
  by (simp add: same_frame_def)

lemma same_frame_trans: "same_frame n n' \<Longrightarrow> same_frame n' n'' \<Longrightarrow> same_frame n n''"
  by (cases n, cases n', cases n'') (simp add: same_frame_def)

lemma same_frame_putDoc: "same_frame n (putDoc ref v n)"
  by (simp add: same_frame_def putDoc_def split: option.split)

lemma same_frame_onDocument: "same_frame n (fst (onDocument n ref f))"
  by (auto simp: onDocument_def inPlace_def publish_def same_frame_putDoc split: option.split)

lemma same_frame_mergeCollection: "same_frame n (fst (mergeCollection ord lord n ref w))"
  by (simp add: mergeCollection_def same_frame_onDocument)

lemma same_frame_mergeEntry: "same_frame n (mergeEntry ord lord nm ds n)"
  by (simp add: mergeEntry_def mergeSnapshot_def same_frame_onDocument split: sum.split)

lemma fold_invariant: "I n \<Longrightarrow> (\<And>x n. x \<in> set xs \<Longrightarrow> I n \<Longrightarrow> I (f x n)) \<Longrightarrow> I (fold f xs n)"
  by (induction xs arbitrary: n) auto

lemma same_frame_MergeSnapshot: "same_frame n (MergeSnapshot ord lord cord dord n snap)"
  unfolding MergeSnapshot_def
  by (rule fold_invariant [where I = "same_frame n"]; clarsimp?)
    (rule fold_invariant [where I = "same_frame n"], auto intro: same_frame_trans same_frame_mergeEntry)

text \<open>Looking up collections and documents after a document is stored.\<close>

lemma colOf_putDoc:
  "colOf n ref = Some cs \<Longrightarrow>
   map_of (n_collections (putDoc ref v n)) k =
     (if k = dr_collection ref then Some (cs\<lparr>cs_docs := mput (dr_document ref) v (cs_docs cs)\<rparr>)
      else map_of (n_collections n) k)"
  by (simp add: putDoc_def)

lemma docOf_putDoc:
  "colOf n ref \<noteq> None \<Longrightarrow> docOf (putDoc ref v n) r =
     (if r = ref then Some v else docOf n r)"
  by (cases r, cases ref) (auto simp: docOf_def colOf_def putDoc_def)

lemma docOf_colOf: "docOf n ref = Some v \<Longrightarrow> colOf n ref \<noteq> None"
  by (auto simp: docOf_def split: option.splits)

lemma docOf_key: "resolveDocument n c raw = Inr ref \<Longrightarrow> dr_collection ref = c \<and> colOf n ref \<noteq> None"
  by (auto simp: resolveDocument_def colOf_def split: option.splits if_splits)

context proved_type
begin

definition good_doc :: "string \<Rightarrow> vectorCRDT \<Rightarrow> bool" where
  "good_doc i v \<longleftrightarrow> replica_of P v \<and> v_nodeID v = i \<and> v_state v \<in> slots_in D"

definition node_ok :: "string \<Rightarrow> paramSpec option \<Rightarrow> 'p node \<Rightarrow> bool" where
  "node_ok c key n \<longleftrightarrow>
     (if n_ready n then
        \<exists>cs. map_of (n_collections n) c = Some cs \<and> cs_spec cs = P \<and> cs_key cs = key \<and>
          (\<forall>d v. map_of (cs_docs cs) d = Some v \<longrightarrow> good_doc (n_id n) v)
      else map_of (n_collections n) c = None)"

text \<open>An operation on a replica that keeps it good and only moves it up.\<close>

definition grows :: "(vectorCRDT \<Rightarrow> vectorCRDT \<times> vecErr option) \<Rightarrow> bool" where
  "grows f \<longleftrightarrow>
     (\<forall>i v. good_doc i v \<longrightarrow> good_doc i (fst (f v)) \<and> vec.le (v_state v) (v_state (fst (f v))))"

lemma empty_slots: "[] \<in> slots_in D"
  by (simp add: slots_in_def)

lemma le_empty: "s \<in> slots_in D \<Longrightarrow> vec.le [] s"
  by (simp add: vec_le_iff empty_slots)

lemma good_New: "good_doc i (New P i)"
  by (simp add: good_doc_def replica_of_New empty_slots)

lemma grows_Apply: "grows (\<lambda>v. Apply ord v action payload)"
  unfolding grows_def good_doc_def using Apply_good by (metis prod.collapse)

lemma grows_merge: "s \<in> slots_in D \<Longrightarrow> range_order lord \<Longrightarrow> grows (\<lambda>v. mergeRemote ord lord v s)"
  by (auto simp: grows_def good_doc_def merge_is_join vec.closed vec.le_join1 intro: replica_of_update)

text \<open>What a wire snapshot means: the slots it decodes to.\<close>

definition wire_means :: "slotWire gomap \<Rightarrow> rtVal gomap \<Rightarrow> bool" where
  "wire_means w s \<longleftrightarrow> decodeSlots (mo_Elem P) w = Inr s \<and> s \<in> slots_in D"

lemma wire_SnapshotWire:
  assumes "good_doc i v" "SnapshotWire v = Inr w"
  shows "wire_means w (v_state v)"
proof -
  have s: "v_state v \<in> slots_in D" using assms(1) by (simp add: good_doc_def)
  then have "\<forall>kv \<in> set (v_state v). conforms (mo_Elem P) (snd kv)"
    by (auto simp: slots_in_def wfm_map_of_iff)
  from encode_decode [OF elem_wf this] assms(2) s show ?thesis
    by (auto simp: wire_means_def SnapshotWire_def)
qed

lemma wire_empty: "wire_means [] []"
  by (simp add: wire_means_def empty_slots)

lemma MergeWire_means:
  assumes "good_doc i v" "wire_means w s" "range_order lord"
  shows "MergeWire ord lord v w = (v\<lparr>v_state := vjoin J (v_state v) s\<rparr>, None)"
proof -
  have "v_elem v = mo_Elem P" using assms(1) replica_of_fields by (simp add: good_doc_def)
  with assms show ?thesis
    by (simp add: MergeWire_def wire_means_def good_doc_def merge_is_join)
qed

lemma grows_MergeWire: "wire_means w s \<Longrightarrow> range_order lord \<Longrightarrow> grows (\<lambda>v. MergeWire ord lord v w)"
  unfolding grows_def by (auto simp: MergeWire_means)
    (auto simp: good_doc_def wire_means_def vec.closed vec.le_join1 intro: replica_of_update)

text \<open>The documents of a well-formed collection.\<close>

lemma node_ok_doc:
  "node_ok c key n \<Longrightarrow> dr_collection ref = c \<Longrightarrow> docOf n ref = Some v \<Longrightarrow> good_doc (n_id n) v"
  by (auto simp: node_ok_def docOf_def colOf_def split: if_splits option.splits)

lemma dstate_in: "node_ok c key n \<Longrightarrow> dr_collection ref = c \<Longrightarrow> dstate n ref \<in> slots_in D"
  using node_ok_doc [of c key n ref] by (auto simp: dstate_def good_doc_def empty_slots split: option.split)

lemma dstate_putDoc:
  "colOf n ref \<noteq> None \<Longrightarrow> dstate (putDoc ref v n) r = (if r = ref then v_state v else dstate n r)"
  by (simp add: dstate_def docOf_putDoc)

lemma node_ok_putDoc:
  assumes "node_ok c key n" "dr_collection ref = c \<Longrightarrow> good_doc (n_id n) v"
  shows "node_ok c key (putDoc ref v n)"
  using assms by (auto simp: node_ok_def putDoc_def colOf_def split: option.splits if_splits)

text \<open>Moving from one state of a node to a later one.\<close>

definition advances :: "string \<Rightarrow> paramSpec option \<Rightarrow> 'p node \<Rightarrow> 'p node \<Rightarrow> bool" where
  "advances c key n n' \<longleftrightarrow>
     node_ok c key n' \<and> (\<forall>ref. dr_collection ref = c \<longrightarrow> vec.le (dstate n ref) (dstate n' ref))"

lemma advances_refl: "node_ok c key n \<Longrightarrow> advances c key n n"
  by (auto simp: advances_def intro!: vec.le_refl dstate_in)

lemma advances_trans:
  "node_ok c key n \<Longrightarrow> advances c key n n' \<Longrightarrow> advances c key n' n'' \<Longrightarrow> advances c key n n''"
  unfolding advances_def using dstate_in vec.le_trans by metis

lemma advances_putDoc:
  assumes "node_ok c key n" "colOf n ref \<noteq> None"
    and "dr_collection ref = c \<Longrightarrow> good_doc (n_id n) v \<and> vec.le (dstate n ref) (v_state v)"
  shows "advances c key n (putDoc ref v n)"
  using assms dstate_in [OF assms(1)] node_ok_putDoc [OF assms(1)]
  by (auto simp: advances_def dstate_putDoc vec.le_refl)

lemma advances_onDocument:
  assumes ok: "node_ok c key n" and g: "dr_collection ref = c \<Longrightarrow> grows f"
  shows "advances c key n (fst (onDocument n ref f))"
proof (cases "colOf n ref")
  case None
  with ok show ?thesis by (simp add: onDocument_def advances_refl)
next
  case cs: (Some cs)
  show ?thesis
  proof (cases "map_of (cs_docs cs) (dr_document ref)")
    case (Some v)
    then have d: "docOf n ref = Some v" by (simp add: docOf_def cs)
    have "advances c key n (putDoc ref (fst (f v)) n)"
      by (rule advances_putDoc [OF ok]) (use cs node_ok_doc [OF ok _ d] g d in \<open>auto simp: grows_def dstate_def\<close>)
    with cs Some show ?thesis by (simp add: onDocument_def inPlace_def)
  next
    case None
    then have d: "docOf n ref = None" by (simp add: docOf_def cs)
    have "advances c key n (putDoc ref (fst (f (New (cs_spec cs) (n_id n)))) n)"
    proof (rule advances_putDoc [OF ok])
      assume c: "dr_collection ref = c"
      then have "cs_spec cs = P" using ok cs by (auto simp: node_ok_def colOf_def split: if_splits)
      moreover have "good_doc (n_id n) (fst (f (New P (n_id n)))) \<and>
          vec.le (v_state (New P (n_id n))) (v_state (fst (f (New P (n_id n)))))"
        using g [OF c] good_New unfolding grows_def by blast
      ultimately show "good_doc (n_id n) (fst (f (New (cs_spec cs) (n_id n)))) \<and>
          vec.le (dstate n ref) (v_state (fst (f (New (cs_spec cs) (n_id n)))))"
        by (simp add: dstate_def d)
    qed (simp add: cs)
    with cs None ok show ?thesis by (auto simp: onDocument_def publish_def advances_refl split: option.split)
  qed
qed

lemma advances_mergeCollection:
  assumes "node_ok c key n" "dr_collection ref = c \<Longrightarrow> wire_means w s" "range_order lord"
  shows "advances c key n (fst (mergeCollection ord lord n ref w))"
  using assms advances_onDocument [OF assms(1) grows_MergeWire]
  by (auto simp: mergeCollection_def advances_refl)

text \<open>A successful merge of a wire snapshot leaves the document above what was merged.\<close>

lemma mergeCollection_absorbs:
  assumes ok: "node_ok c key n" and c: "dr_collection ref = c" and w: "wire_means w s" and l: "range_order lord"
    and m: "mergeCollection ord lord n ref w = (n', None)"
  shows "vec.le s (dstate n' ref)"
proof -
  have s: "s \<in> slots_in D" using w by (simp add: wire_means_def)
  have up: "vec.le s (v_state (v\<lparr>v_state := vjoin J (v_state v) s\<rparr>))" if "good_doc i v" for i v
    using that s by (simp add: good_doc_def vec.le_join2)
  show ?thesis
  proof (cases "colOf n ref \<noteq> None \<and> docOf n ref = None \<and> w = []")
    case True
    with w have "s = []" by (simp add: wire_means_def)
    moreover have "advances c key n n'"
      using advances_mergeCollection [OF ok w l, of ref] m by simp
    then have "dstate n' ref \<in> slots_in D" using dstate_in c unfolding advances_def by blast
    ultimately show ?thesis using le_empty by simp
  next
    case False
    then have o: "onDocument n ref (\<lambda>v. MergeWire ord lord v w) = (n', None)"
      using m unfolding mergeCollection_def by (simp only: if_False)
    then obtain cs where cs: "colOf n ref = Some cs" by (auto simp: onDocument_def split: option.splits)
    then have P: "cs_spec cs = P" using ok c by (auto simp: node_ok_def colOf_def split: if_splits)
    have "\<exists>v. good_doc (n_id n) v \<and> n' = putDoc ref (fst (MergeWire ord lord v w)) n"
    proof (cases "map_of (cs_docs cs) (dr_document ref)")
      case None
      with o cs P good_New MergeWire_means [OF good_New w l] show ?thesis
        by (intro exI [of _ "New P (n_id n)"]) (simp add: onDocument_def publish_def)
    next
      case (Some v)
      then have "docOf n ref = Some v" by (simp add: docOf_def cs)
      with o cs Some node_ok_doc [OF ok c] show ?thesis
        by (intro exI [of _ v]) (simp add: onDocument_def inPlace_def)
    qed
    then obtain v where v: "good_doc (n_id n) v" "n' = putDoc ref (fst (MergeWire ord lord v w)) n" by blast
    with MergeWire_means [OF v(1) w l] up [OF v(1)] cs show ?thesis by (simp add: dstate_putDoc)
  qed
qed

lemma snapshotCollection_means:
  assumes "node_ok c key n" "dr_collection ref = c" "snapshotCollection n ref = Inr w"
  shows "wire_means w (dstate n ref)"
  using assms wire_SnapshotWire [OF node_ok_doc [OF assms(1,2)], of _ w] wire_empty
  by (auto simp: snapshotCollection_def dstate_def docOf_def split: option.splits)

text \<open>Gossip: the snapshots in flight for the collection are states of its documents.\<close>

definition gossip_ok :: "string \<Rightarrow> nodeSnapshot \<Rightarrow> bool" where
  "gossip_ok c snap \<longleftrightarrow> (\<forall>docs d s. (c, docs) \<in> set snap \<longrightarrow> (d, s) \<in> set docs \<longrightarrow> s \<in> slots_in D)"

lemma advances_mergeEntry:
  assumes "node_ok c key n" "nm = c \<Longrightarrow> snd ds \<in> slots_in D" "range_order lord"
  shows "advances c key n (mergeEntry ord lord nm ds n)"
proof (cases "resolveDocument n nm (fst ds)")
  case (Inr ref)
  have "advances c key n (fst (mergeSnapshot ord lord n ref (snd ds)))"
    unfolding mergeSnapshot_def
    using assms docOf_key [OF Inr] by (intro advances_onDocument grows_merge) auto
  with Inr assms(1) show ?thesis by (simp add: mergeEntry_def advances_refl)
qed (use assms(1) in \<open>simp add: mergeEntry_def advances_refl\<close>)

lemma advances_MergeSnapshot:
  assumes ok: "node_ok c key n" and g: "gossip_ok c snap" and o: "range_order lord" "range_order cord" "range_order dord"
  shows "advances c key n (MergeSnapshot ord lord cord dord n snap)"
  unfolding MergeSnapshot_def
proof (rule fold_invariant)
  show "advances c key n n" using ok by (rule advances_refl)
next
  fix x m assume x: "x \<in> set (cord snap)" and m: "advances c key n m"
  obtain nm docs where nd: "x = (nm, docs)" by (cases x)
  have "advances c key n (fold (mergeEntry ord lord nm) (dord docs) m)"
  proof (rule fold_invariant [where I = "advances c key n", OF m])
    fix ds k assume ds: "ds \<in> set (dord docs)" and k: "advances c key n k"
    have "nm = c \<Longrightarrow> snd ds \<in> slots_in D"
      using g x ds nd range_order_set [OF o(2)] range_order_set [OF o(3)]
      by (cases ds) (auto simp: gossip_ok_def)
    then have "advances c key k (mergeEntry ord lord nm ds k)"
      using k o(1) by (intro advances_mergeEntry) (auto simp: advances_def)
    with k ok show "advances c key n (mergeEntry ord lord nm ds k)" by (blast intro: advances_trans)
  qed
  with nd show "advances c key n ((\<lambda>(name, docs). fold (mergeEntry ord lord name) (dord docs)) x m)" by simp
qed

lemma Snapshot_node_ok:
  assumes "node_ok c key n" "wfm (n_collections n)" "Snapshot_node n = Inr snap"
    and "\<And>cs. map_of (n_collections n) c = Some cs \<Longrightarrow> wfm (cs_docs cs)"
  shows "gossip_ok c snap"
  unfolding gossip_ok_def
proof (intro allI impI)
  fix docs d s assume d: "(c, docs) \<in> set snap" "(d, s) \<in> set docs"
  have w: "wfm snap" using assms(2,3) mmapR_wfm unfolding Snapshot_node_def by blast
  then have md: "map_of snap c = Some docs" using d(1) by (simp add: wfm_map_of_iff)
  with assms(3) obtain cs where cs: "map_of (n_collections n) c = Some cs"
    unfolding Snapshot_node_def using mmapR_None by (metis not_None_eq)
  with mmapR_Some [OF assms(3) [unfolded Snapshot_node_def] cs] md
  have ms: "mmapR Snapshot (cs_docs cs) = Inr docs" by simp
  have "wfm docs" using mmapR_wfm [OF ms] assms(4) [OF cs] by simp
  then have ds: "map_of docs d = Some s" using d(2) by (simp add: wfm_map_of_iff)
  then obtain v where v: "map_of (cs_docs cs) d = Some v" using mmapR_None [OF ms] by (metis not_None_eq)
  with mmapR_Some [OF ms v] ds have "Snapshot v = Inr s" by simp
  moreover have "good_doc (n_id n) v" using assms(1) cs v by (auto simp: node_ok_def split: if_splits)
  ultimately show "s \<in> slots_in D" using Snapshot_good [of v s] by (simp add: good_doc_def)
qed

lemma node_ok_frame:
  "node_ok c key n \<Longrightarrow> n_collections n' = n_collections n \<Longrightarrow> n_ready n' = n_ready n \<Longrightarrow> n_id n' = n_id n \<Longrightarrow>
   node_ok c key n'"
  by (simp add: node_ok_def)

lemma Initialize_ok:
  assumes "node_ok c key n" "plan_col bp c = Some bc" "bc_Spec bc = P" "bc_Key bc = key"
  shows "advances c key n (Initialize n bp)"
proof (cases "n_ready n")
  case True
  with assms(1) show ?thesis by (simp add: Initialize_def advances_refl)
next
  case False
  then have none: "map_of (n_collections n) c = None" using assms(1) by (simp add: node_ok_def)
  have "map_of (fold (\<lambda>bc cols. mput (bc_Name bc) (newCol (n_id n) bc) cols) bcs m) c =
      (case map_of (rev (map (\<lambda>bc. (bc_Name bc, bc)) bcs)) c of None \<Rightarrow> map_of m c | Some bc \<Rightarrow> Some (newCol (n_id n) bc))"
    for bcs m
    by (induction bcs arbitrary: m) (auto simp: map_add_def split: option.splits)
  then have m: "map_of (n_collections (Initialize n bp)) c = Some (newCol (n_id n) bc)"
    using assms(2) False by (simp add: Initialize_def plan_col_def)
  have "good_doc (n_id n) v" if "map_of (cs_docs (newCol (n_id n) bc)) d = Some v" for d v
    using that assms(3) good_New by (auto simp: newCol_def split: if_splits)
  with m assms(3,4) False have ok: "node_ok c key (Initialize n bp)"
    by (auto simp: node_ok_def newCol_def Initialize_def)
  have "dstate n ref = []" if "dr_collection ref = c" for ref
    using none that by (simp add: dstate_def docOf_def colOf_def)
  with ok dstate_in [OF ok] le_empty show ?thesis by (simp add: advances_def)
qed

end

end
