(* ===== verification/NodeRun.thy ===== *)
theory NodeRun
  imports NodeDocs
begin

text \<open>
  node/node.go, the document operations as they interleave. An HTTP request and the message loop
  run \<open>apply\<close>, \<open>query\<close>, \<open>mergeSnapshot\<close>, \<open>mergeCollection\<close> and \<open>snapshotCollection\<close> in goroutines of
  their own. Each looks the document up under the node's read lock, leaves the lock and goes on: with
  the replica it found, whose mutex makes its operation one step; or, when there was none, with a
  replica of its own, which it stores under the write lock unless another goroutine was faster. The
  steps below are those critical sections; what a goroutine computes on a replica nobody else holds
  is part of the step before. A stored document is never replaced or removed, so a pointer to it is
  its reference.
\<close>

datatype docOp =
    OpApply string "goAny list"
  | OpQuery string "goAny list"
  | OpMerge "rtVal gomap"
  | OpMergeWire "slotWire gomap"
  | OpRead

datatype docRes =
    Ended "nodeErr option"
  | Answer "nodeErr + goAny"
  | Slots "rtErr + slotWire gomap"

text \<open>The operation without interference, and on a replica at hand.\<close>

definition atomicOp ::
  "(rtVal gomap \<Rightarrow> rtVal gomap) \<Rightarrow> (rtVal gomap \<Rightarrow> rtVal gomap) \<Rightarrow> 'p node \<Rightarrow> documentRef \<Rightarrow> docOp \<Rightarrow> 'p node \<times> docRes"
where
  "atomicOp ord lord n ref op =
     (case op of
        OpApply act ps \<Rightarrow> map_prod id Ended (apply_ref ord n ref act ps)
      | OpQuery q ps \<Rightarrow> (n, Answer (query_ref ord n ref q ps))
      | OpMerge s \<Rightarrow> map_prod id Ended (mergeSnapshot ord lord n ref s)
      | OpMergeWire w \<Rightarrow> map_prod id Ended (mergeCollection ord lord n ref w)
      | OpRead \<Rightarrow> (n, Slots (snapshotCollection n ref)))"

definition changes ::
  "(rtVal gomap \<Rightarrow> rtVal gomap) \<Rightarrow> (rtVal gomap \<Rightarrow> rtVal gomap) \<Rightarrow> docOp \<Rightarrow> vectorCRDT \<Rightarrow>
   (vectorCRDT \<times> vecErr option) option"
where
  "changes ord lord op c =
     (case op of
        OpApply act ps \<Rightarrow> Some (Apply ord c act ps)
      | OpMerge s \<Rightarrow> Some (mergeRemote ord lord c s)
      | OpMergeWire w \<Rightarrow> Some (MergeWire ord lord c w)
      | _ \<Rightarrow> None)"

definition reads :: "(rtVal gomap \<Rightarrow> rtVal gomap) \<Rightarrow> docOp \<Rightarrow> vectorCRDT \<Rightarrow> docRes option" where
  "reads ord op c =
     (case op of
        OpQuery q ps \<Rightarrow> Some (Answer (rwrap NodeCrdt (Query ord c q ps)))
      | OpRead \<Rightarrow> Some (Slots (SnapshotWire c))
      | _ \<Rightarrow> None)"

text \<open>
  Where a goroutine is: before its lookup, behind a hit, before the write lock of a first update,
  before the write lock with its own merged replica, behind a lost race, or back with its result.
\<close>

datatype pc =
    Idle
  | Ready documentRef docOp
  | Hit documentRef docOp
  | Locking documentRef docOp
  | Temp documentRef docOp vectorCRDT
  | Lost documentRef docOp vectorCRDT
  | Back documentRef docOp docRes

text \<open>A lookup that found nothing, up to the next critical section.\<close>

definition merged :: "documentRef \<Rightarrow> docOp \<Rightarrow> vectorCRDT \<times> vecErr option \<Rightarrow> pc" where
  "merged ref op r = (case snd r of Some e \<Rightarrow> Back ref op (Ended (Some (NodeCrdt e))) | None \<Rightarrow> Temp ref op (fst r))"

definition missed ::
  "(rtVal gomap \<Rightarrow> rtVal gomap) \<Rightarrow> (rtVal gomap \<Rightarrow> rtVal gomap) \<Rightarrow> documentRef \<Rightarrow> docOp \<Rightarrow> vectorCRDT \<Rightarrow> pc"
where
  "missed ord lord ref op new =
     (case op of
        OpApply act ps \<Rightarrow> Locking ref op
      | OpQuery q ps \<Rightarrow> Back ref op (Answer (rwrap NodeCrdt (Query ord new q ps)))
      | OpMerge s \<Rightarrow> merged ref op (mergeRemote ord lord new s)
      | OpMergeWire w \<Rightarrow> if w = [] then Back ref op (Ended None) else merged ref op (MergeWire ord lord new w)
      | OpRead \<Rightarrow> Back ref op (Slots (Inr [])))"

definition opMap :: "docOp \<Rightarrow> bool" where
  "opMap op = (case op of OpMerge s \<Rightarrow> wfm s | OpMergeWire w \<Rightarrow> wfm w | _ \<Rightarrow> True)"

inductive doc_step :: "'p node \<times> (nat \<Rightarrow> pc) \<Rightarrow> 'p node \<times> (nat \<Rightarrow> pc) \<Rightarrow> bool" where
  dc_call: "p t = Idle \<Longrightarrow> colOf n ref \<noteq> None \<Longrightarrow> opMap op \<Longrightarrow>
    doc_step (n, p) (n, p(t := Ready ref op))"
| dc_hit: "p t = Ready ref op \<Longrightarrow> docOf n ref \<noteq> None \<Longrightarrow>
    doc_step (n, p) (n, p(t := Hit ref op))"
| dc_miss: "p t = Ready ref op \<Longrightarrow> colOf n ref = Some cs \<Longrightarrow> docOf n ref = None \<Longrightarrow>
    range_order ord \<Longrightarrow> range_order lord \<Longrightarrow>
    doc_step (n, p) (n, p(t := missed ord lord ref op (New (cs_spec cs) (n_id n))))"
| dc_change: "p t = Hit ref op \<Longrightarrow> docOf n ref = Some c \<Longrightarrow> range_order ord \<Longrightarrow> range_order lord \<Longrightarrow>
    changes ord lord op c = Some r \<Longrightarrow> inPlace ref n r = (n', e) \<Longrightarrow>
    doc_step (n, p) (n', p(t := Back ref op (Ended e)))"
| dc_read: "p t = Hit ref op \<Longrightarrow> docOf n ref = Some c \<Longrightarrow> range_order ord \<Longrightarrow> reads ord op c = Some r \<Longrightarrow>
    doc_step (n, p) (n, p(t := Back ref op r))"
| dc_first: "p t = Locking ref (OpApply act ps) \<Longrightarrow> colOf n ref = Some cs \<Longrightarrow> range_order ord \<Longrightarrow>
    (case docOf n ref of
       Some c \<Rightarrow> inPlace ref n (Apply ord c act ps)
     | None \<Rightarrow> publish ref n (Apply ord (New (cs_spec cs) (n_id n)) act ps)) = (n', e) \<Longrightarrow>
    doc_step (n, p) (n', p(t := Back ref (OpApply act ps) (Ended e)))"
| dc_store: "p t = Temp ref op v \<Longrightarrow> docOf n ref = None \<Longrightarrow>
    doc_step (n, p) (putDoc ref v n, p(t := Back ref op (Ended None)))"
| dc_race: "p t = Temp ref op v \<Longrightarrow> docOf n ref \<noteq> None \<Longrightarrow>
    doc_step (n, p) (n, p(t := Lost ref op v))"
| dc_late: "p t = Lost ref (OpMerge s) v \<Longrightarrow> docOf n ref = Some c \<Longrightarrow> Snapshot v = Inr s' \<Longrightarrow>
    range_order ord \<Longrightarrow> range_order lord \<Longrightarrow> inPlace ref n (mergeRemote ord lord c s') = (n', e) \<Longrightarrow>
    doc_step (n, p) (n', p(t := Back ref (OpMerge s) (Ended e)))"
| dc_late_wire: "p t = Lost ref (OpMergeWire w) v \<Longrightarrow> docOf n ref = Some c \<Longrightarrow> SnapshotWire v = Inr w' \<Longrightarrow>
    range_order ord \<Longrightarrow> range_order lord \<Longrightarrow> inPlace ref n (MergeWire ord lord c w') = (n', e) \<Longrightarrow>
    doc_step (n, p) (n', p(t := Back ref (OpMergeWire w) (Ended e)))"

inductive doc_steps :: "'p node \<times> (nat \<Rightarrow> pc) \<Rightarrow> 'p node \<times> (nat \<Rightarrow> pc) \<Rightarrow> bool" where
  ds_none: "doc_steps s s"
| ds_more: "doc_steps s s' \<Longrightarrow> doc_step s' s'' \<Longrightarrow> doc_steps s s''"

text \<open>The specification: a log of calls, each run to its end before the next one.\<close>

type_synonym docLog = "(nat \<times> documentRef \<times> docOp \<times> docRes) list"

inductive runs :: "'p node \<Rightarrow> docLog \<Rightarrow> 'p node \<Rightarrow> bool" where
  rn_none: "runs n [] n"
| rn_more: "runs n L n' \<Longrightarrow> range_order ord \<Longrightarrow> range_order lord \<Longrightarrow>
    atomicOp ord lord n' ref op = (n'', r) \<Longrightarrow> runs n (L @ [(t, ref, op, r)]) n''"

definition logged :: "(nat \<Rightarrow> pc) \<Rightarrow> docLog \<Rightarrow> bool" where
  "logged p L \<longleftrightarrow> distinct (map fst L) \<and> (\<forall>t ref op r. p t = Back ref op r \<longleftrightarrow> (t, ref, op, r) \<in> set L)"

text \<open>A node whose stored documents are replicas of their collection's model.\<close>

definition specDocs :: "'p node \<Rightarrow> bool" where
  "specDocs n \<longleftrightarrow>
     (\<forall>ref cs. colOf n ref = Some cs \<longrightarrow>
        wf_elem (mo_Elem (cs_spec cs)) \<and> (\<forall>c. docOf n ref = Some c \<longrightarrow> v_elem c = mo_Elem (cs_spec cs)))"

subsection \<open>A replica merged on its own\<close>

lemma mset_mput_new: "map_of m k = None \<Longrightarrow> mset (mput k v m) = add_mset (k, v) (mset m)"
  by (induction k v m rule: mput.induct) (auto split: if_splits)

lemma mergeFold_fresh:
  assumes "foldR (mergeStep fn) m es = Inr m'" "distinct (map fst es)" "\<forall>k \<in> set (map fst es). map_of m k = None" "clonable m"
  shows "mset m' = mset m + mset es \<and> clonable m'"
  using assms
proof (induction es arbitrary: m)
  case (Cons e es)
  obtain k b where e: "e = (k, b)" by (cases e)
  with Cons.prems have n: "map_of m k = None" by simp
  with Cons.prems(1) e obtain b' where b: "cloneSlot b = Inr b'" "foldR (mergeStep fn) (mput k b' m) es = Inr m'"
    by (cases "cloneSlot b") (simp_all add: mergeStep_def [of fn m])
  from clone_Inr(1) [OF b(1)] have bb: "b' = b" .
  have c: "clonable (mput k b m)"
    using mset_mput_new [OF n, of b] b(1) bb Cons.prems(4) by (auto simp: clonable_def simp flip: set_mset_mset)
  have "\<forall>x \<in> set (map fst es). map_of (mput k b m) x = None" using Cons.prems(2,3) e by auto
  from Cons.IH [OF b(2) [unfolded bb] _ this c] Cons.prems(2) n e mset_mput_new [OF n, of b] show ?case by simp
qed simp

lemma merge_fresh:
  assumes "mergeRemote ord lord (New P i) s = (v, None)" "wfm s" "range_order lord"
  shows "v_elem v = mo_Elem P" "mset (v_state v) = mset s" "clonable (v_state v)"
proof -
  have o: "mset (lord s) = mset s" using assms(3) by (simp add: range_order_def)
  note d = order_perm(1) [OF assms(3,2)]
  from assms(1) obtain f m where m: "mergeSlots f lord [] s = Inr m" "v = (New P i)\<lparr>v_state := m\<rparr>"
    by (cases "mergeFn ord (New P i)") (auto simp: mergeRemote_def rwrap_def split: sum.splits)
  from m(1) have m1: "foldR (mergeStep f) [] (lord s) = Inr m" by (simp add: mergeSlots_def)
  from mergeFold_fresh [OF m1 d] m(2) o show "v_elem v = mo_Elem P" "mset (v_state v) = mset s" "clonable (v_state v)"
    by (simp_all add: clonable_def New_def NewVector_def)
qed

lemma reorder:
  assumes "mset s' = mset s" "range_order lord"
  shows "\<exists>lord'. range_order lord' \<and> (\<forall>ord c. mergeRemote ord lord' c s = mergeRemote ord lord c s')"
  using assms
  by (intro exI [of _ "\<lambda>m. if m = s then lord s' else lord m"])
    (simp add: range_order_def mergeRemote_def mergeSlots_def)

lemma decode_fresh:
  assumes "MergeWire ord lord (New P i) w = (v, None)" "wfm w" "range_order lord" "wf_elem (mo_Elem P)"
  shows "\<exists>r w'. decodeSlots (mo_Elem P) w = Inr r \<and> mset (v_state v) = mset r \<and> v_elem v = mo_Elem P \<and>
    SnapshotWire v = Inr w' \<and> decodeSlots (mo_Elem P) w' = Inr (v_state v)"
proof -
  have e: "v_elem (New P i) = mo_Elem P" by (simp add: New_def NewVector_def)
  from assms(1) obtain r where r: "decodeSlots (mo_Elem P) w = Inr r" "mergeRemote ord lord (New P i) r = (v, None)"
    by (auto simp: MergeWire_def e split: sum.splits)
  note c = decodeSlots_conforms [OF r(1) assms(4)]
  have "wfm r" using c assms(2) by (simp add: wfm_def)
  note f = merge_fresh [OF r(2) this assms(3)]
  have "\<forall>kv \<in> set (v_state v). conforms (mo_Elem P) (snd kv)"
    using c f(2) by (metis set_mset_mset)
  from encode_decode [OF assms(4) this] r(1) f show ?thesis by (auto simp: SnapshotWire_def)
qed

text \<open>A lost race: merging one's own replica into the winner is merging what was received.\<close>

lemma late_merge:
  assumes "mergeRemote ord0 lord0 (New P i) s = (v, None)" "wfm s" "range_order lord0"
    and "Snapshot v = Inr s'" "range_order lord"
  shows "\<exists>lord'. range_order lord' \<and> mergeRemote ord lord' c s = mergeRemote ord lord c s'"
proof -
  note f = merge_fresh [OF assms(1-3)]
  have "s' = v_state v" using clonable_id [OF f(3)] assms(4) by (simp add: Snapshot_def)
  with reorder [OF _ assms(5)] f(2) show ?thesis by metis
qed

lemma late_wire:
  assumes "MergeWire ord0 lord0 (New P i) w = (v, None)" "wfm w" "range_order lord0" "wf_elem (mo_Elem P)"
    and "SnapshotWire v = Inr w'" "range_order lord" "v_elem c = mo_Elem P"
  shows "\<exists>lord'. range_order lord' \<and> MergeWire ord lord' c w = MergeWire ord lord c w'"
proof -
  from decode_fresh [OF assms(1-4)] assms(5) obtain r where r: "decodeSlots (mo_Elem P) w = Inr r" "mset (v_state v) = mset r"
    "decodeSlots (mo_Elem P) w' = Inr (v_state v)" by auto
  with reorder [OF r(2) assms(6)] show ?thesis unfolding MergeWire_def assms(7) by (simp, blast)
qed

subsection \<open>The simulation\<close>

definition made :: "'p node \<Rightarrow> documentRef \<Rightarrow> docOp \<Rightarrow> vectorCRDT \<Rightarrow> bool" where
  "made n ref op v \<longleftrightarrow>
     (\<exists>cs ord lord. colOf n ref = Some cs \<and> opMap op \<and> range_order ord \<and> range_order lord \<and>
        missed ord lord ref op (New (cs_spec cs) (n_id n)) = Temp ref op v)"

definition pc_ok :: "'p node \<Rightarrow> pc \<Rightarrow> bool" where
  "pc_ok n c =
     (case c of
        Idle \<Rightarrow> True
      | Ready ref op \<Rightarrow> colOf n ref \<noteq> None \<and> opMap op
      | Hit ref op \<Rightarrow> docOf n ref \<noteq> None
      | Locking ref op \<Rightarrow> colOf n ref \<noteq> None \<and> (\<exists>act ps. op = OpApply act ps)
      | Temp ref op v \<Rightarrow> made n ref op v
      | Lost ref op v \<Rightarrow> docOf n ref \<noteq> None \<and> made n ref op v
      | Back ref op r \<Rightarrow> True)"

lemma made_cases:
  assumes "made n ref op v"
  obtains (merge) s cs ord lord where "op = OpMerge s" "colOf n ref = Some cs" "wfm s" "range_order ord" "range_order lord"
      "mergeRemote ord lord (New (cs_spec cs) (n_id n)) s = (v, None)"
    | (wire) w cs ord lord where "op = OpMergeWire w" "colOf n ref = Some cs" "wfm w" "w \<noteq> []" "range_order ord" "range_order lord"
      "MergeWire ord lord (New (cs_spec cs) (n_id n)) w = (v, None)"
proof -
  obtain cs ord lord where c: "colOf n ref = Some cs" "opMap op" "range_order ord" "range_order lord"
    "missed ord lord ref op (New (cs_spec cs) (n_id n)) = Temp ref op v" using assms by (auto simp: made_def)
  have m: "merged ref op r = Temp ref op v \<Longrightarrow> r = (v, None)" for r
    by (cases r) (auto simp: merged_def split: option.splits)
  show ?thesis
  proof (cases op)
    case (OpMerge s)
    with c m [of "mergeRemote ord lord (New (cs_spec cs) (n_id n)) s"] merge show ?thesis by (simp add: missed_def opMap_def)
  next
    case (OpMergeWire w)
    with c m [of "MergeWire ord lord (New (cs_spec cs) (n_id n)) w"] wire show ?thesis
      by (simp add: missed_def opMap_def split: if_splits)
  qed (use c in \<open>simp_all add: missed_def\<close>)
qed

text \<open>What storing a document leaves alone.\<close>

lemma putDoc_col:
  assumes "colOf n ref = Some cs"
  shows "\<exists>cs'. colOf (putDoc r v n) ref = Some cs' \<and> cs_spec cs' = cs_spec cs" "n_id (putDoc r v n) = n_id n"
  using assms by (auto simp: putDoc_def colOf_def split: option.split)

lemma colOf_putDoc_None [simp]: "colOf (putDoc r v n) ref = None \<longleftrightarrow> colOf n ref = None"
  by (auto simp: putDoc_def colOf_def split: option.split)

lemma docOf_putDoc_Some: "docOf n ref \<noteq> None \<Longrightarrow> docOf (putDoc r v n) ref \<noteq> None"
  by (cases "colOf n r = None") (simp_all add: docOf_putDoc, simp add: putDoc_def)

lemma made_putDoc:
  assumes "made n ref op v"
  shows "made (putDoc r c n) ref op v"
proof -
  obtain cs ord lord where c: "colOf n ref = Some cs" "opMap op" "range_order ord" "range_order lord"
    "missed ord lord ref op (New (cs_spec cs) (n_id n)) = Temp ref op v" using assms by (auto simp: made_def)
  obtain cs' where "colOf (putDoc r c n) ref = Some cs'" "cs_spec cs' = cs_spec cs"
    using putDoc_col(1) [OF c(1)] by blast
  with c putDoc_col(2) [OF c(1)] show ?thesis unfolding made_def by metis
qed

lemma pc_ok_putDoc: "pc_ok n c \<Longrightarrow> pc_ok (putDoc r v n) c"
  using made_putDoc [of n _ _ _ r v] docOf_putDoc_Some [of n _ r v]
  by (cases c) (simp_all add: pc_ok_def colOf_putDoc_None del: not_None_eq)

lemma specDocs_putDoc:
  assumes "specDocs n" "\<And>cs. colOf n r = Some cs \<Longrightarrow> v_elem v = mo_Elem (cs_spec cs)"
  shows "specDocs (putDoc r v n)"
  unfolding specDocs_def
proof (intro allI impI)
  fix ref cs assume c: "colOf (putDoc r v n) ref = Some cs"
  then obtain cs0 where c0: "colOf n ref = Some cs0" "cs_spec cs = cs_spec cs0"
    using colOf_putDoc_None [of r v n ref] putDoc_col(1) [of n ref _ r v] by (cases "colOf n ref") auto
  have "v_elem u = mo_Elem (cs_spec cs0)" if "docOf (putDoc r v n) ref = Some u" for u
  proof (cases "colOf n r")
    case None
    with that assms(1) c0 show ?thesis by (simp add: putDoc_def specDocs_def)
  next
    case (Some x)
    with that have "(if ref = r then Some v else docOf n ref) = Some u" by (simp add: docOf_putDoc)
    with assms c0 show ?thesis by (auto simp: specDocs_def split: if_splits)
  qed
  with assms(1) c0 show "wf_elem (mo_Elem (cs_spec cs)) \<and> (\<forall>c. docOf (putDoc r v n) ref = Some c \<longrightarrow> v_elem c = mo_Elem (cs_spec cs))"
    by (auto simp: specDocs_def)
qed

text \<open>
  Each step either only moves a goroutine along, or is the whole operation: the moment it takes
  effect, with its result.
\<close>

fun isBack :: "pc \<Rightarrow> bool" where
  "isBack (Back ref op r) = True"
| "isBack c = False"

definition effect :: "'p node \<Rightarrow> (nat \<Rightarrow> pc) \<Rightarrow> 'p node \<Rightarrow> (nat \<Rightarrow> pc) \<Rightarrow> bool" where
  "effect n p n' p' \<longleftrightarrow>
     (n' = n \<and> (\<exists>t c. p' = p(t := c) \<and> \<not> isBack (p t) \<and> \<not> isBack c)) \<or>
     (\<exists>t ref op r ord lord. p' = p(t := Back ref op r) \<and> \<not> isBack (p t) \<and>
        range_order ord \<and> range_order lord \<and> atomicOp ord lord n ref op = (n', r))"

lemma effect_move: "\<not> isBack (p t) \<Longrightarrow> \<not> isBack c \<Longrightarrow> effect n p n (p(t := c))"
  unfolding effect_def by blast

lemma effect_back:
  "\<not> isBack (p t) \<Longrightarrow> range_order ord \<Longrightarrow> range_order lord \<Longrightarrow> atomicOp ord lord n ref op = (n', r) \<Longrightarrow>
   effect n p n' (p(t := Back ref op r))"
  unfolding effect_def by blast

lemma missed_effect:
  assumes "p t = Ready ref op" "colOf n ref = Some cs" "docOf n ref = None" "opMap op" "range_order ord" "range_order lord"
    and "c = missed ord lord ref op (New (cs_spec cs) (n_id n))"
  shows "effect n p n (p(t := c)) \<and> pc_ok n c"
proof -
  have d: "map_of (cs_docs cs) (dr_document ref) = None" using assms(2,3) by (simp add: docOf_def)
  have mv: "effect n p n (p(t := c))" if "\<not> isBack c"
    by (rule effect_move [OF _ that]) (simp add: assms(1))
  have bk: "effect n p n (p(t := c))" if "c = Back ref op r" "atomicOp ord lord n ref op = (n, r)" for r
    unfolding that(1) by (rule effect_back [OF _ assms(5,6) that(2)]) (simp add: assms(1))
  have mg: "effect n p n (p(t := c)) \<and> pc_ok n c"
    if "c = merged ref op r" "\<And>e. snd r = Some e \<Longrightarrow> atomicOp ord lord n ref op = (n, Ended (Some (NodeCrdt e)))" for r
  proof (cases "snd r")
    case None
    then have "c = Temp ref op (fst r)" using that(1) by (simp add: merged_def)
    moreover from this have "made n ref op (fst r)" using assms(2,4-7) unfolding made_def by metis
    ultimately show ?thesis using mv by (simp add: pc_ok_def)
  next
    case (Some e)
    then have "c = Back ref op (Ended (Some (NodeCrdt e)))" using that(1) by (simp add: merged_def)
    with bk that(2) [OF Some] show ?thesis by (simp add: pc_ok_def)
  qed
  show ?thesis
  proof (cases op)
    case (OpApply act ps)
    then have "c = Locking ref op" using assms(7) by (simp add: missed_def)
    with mv OpApply assms(2) show ?thesis by (simp add: pc_ok_def)
  next
    case (OpQuery q ps)
    then have "c = Back ref op (Answer (rwrap NodeCrdt (Query ord (New (cs_spec cs) (n_id n)) q ps)))"
      using assms(7) by (simp add: missed_def)
    with bk OpQuery assms(2) d show ?thesis by (simp add: pc_ok_def atomicOp_def query_ref_def document_def)
  next
    case (OpMerge s)
    then have "c = merged ref op (mergeRemote ord lord (New (cs_spec cs) (n_id n)) s)"
      using assms(7) by (simp add: missed_def)
    from mg [OF this] OpMerge assms(2) d show ?thesis
      by (simp add: atomicOp_def mergeSnapshot_def onDocument_def publish_def)
  next
    case (OpMergeWire w)
    show ?thesis
    proof (cases "w = []")
      case True
      then have "c = Back ref op (Ended None)" using OpMergeWire assms(7) by (simp add: missed_def)
      with bk OpMergeWire True assms(2,3) show ?thesis by (simp add: pc_ok_def atomicOp_def mergeCollection_def)
    next
      case False
      then have "c = merged ref op (MergeWire ord lord (New (cs_spec cs) (n_id n)) w)"
        using OpMergeWire assms(7) by (simp add: missed_def)
      from mg [OF this] OpMergeWire False assms(2) d show ?thesis
        by (simp add: atomicOp_def mergeCollection_def onDocument_def publish_def)
    qed
  next
    case OpRead
    then have "c = Back ref op (Slots (Inr []))" using assms(7) by (simp add: missed_def)
    with bk OpRead assms(2) d show ?thesis by (simp add: pc_ok_def atomicOp_def snapshotCollection_def)
  qed
qed

lemma atomic_hit:
  assumes "docOf n ref = Some c"
  shows "changes ord lord op c = Some r \<Longrightarrow> inPlace ref n r = (n', e) \<Longrightarrow> atomicOp ord lord n ref op = (n', Ended e)"
    and "reads ord op c = Some a \<Longrightarrow> atomicOp ord lord n ref op = (n, a)"
  using assms
  by (cases op; auto simp: changes_def reads_def atomicOp_def apply_ref_def onDocument_def mergeSnapshot_def
      mergeCollection_def query_ref_def document_def snapshotCollection_def docOf_def split: option.splits)+

lemma inPlace_ok:
  assumes "inPlace ref n r = (n', e)" "specDocs n" "docOf n ref = Some c" "v_elem (fst r) = v_elem c"
  shows "specDocs n'" "pc_ok n d \<Longrightarrow> pc_ok n' d"
proof -
  have n: "n' = putDoc ref (fst r) n" using assms(1) by (simp add: inPlace_def)
  show "specDocs n'"
    unfolding n by (rule specDocs_putDoc [OF assms(2)]) (use assms(2-4) in \<open>auto simp: specDocs_def\<close>)
  show "pc_ok n d \<Longrightarrow> pc_ok n' d" unfolding n by (rule pc_ok_putDoc)
qed

lemma elem_kept:
  "v_elem (fst (Apply ord c act ps)) = v_elem c" "v_elem (fst (mergeRemote ord lord c s)) = v_elem c"
  "v_elem (fst (MergeWire ord lord c w)) = v_elem c" "changes ord lord op c = Some r \<Longrightarrow> v_elem (fst r) = v_elem c"
  by (auto simp: changes_def Apply_def mergeRemote_def MergeWire_def split: sum.splits docOp.splits)

lemma elem_New: "v_elem (New P i) = mo_Elem P"
  by (simp add: New_def NewVector_def)

definition good :: "'p node \<Rightarrow> (nat \<Rightarrow> pc) \<Rightarrow> bool" where
  "good n p \<longleftrightarrow> specDocs n \<and> (\<forall>t. pc_ok n (p t))"

lemma good_pc: "good n p \<Longrightarrow> p t = c \<Longrightarrow> pc_ok n c"
  by (auto simp: good_def)

lemma good_move: "good n p \<Longrightarrow> pc_ok n c \<Longrightarrow> good n (p(t := c))"
  by (simp add: good_def)

lemma good_back: "specDocs n' \<Longrightarrow> (\<And>d. pc_ok n d \<Longrightarrow> pc_ok n' d) \<Longrightarrow> good n p \<Longrightarrow> good n' (p(t := Back ref op r))"
  by (simp add: good_def pc_ok_def [of _ "Back ref op r"])

lemma first_effect:
  assumes "good n p" "p t = Locking ref (OpApply act ps)" "colOf n ref = Some cs" "range_order ord"
    and "(case docOf n ref of
       Some c \<Rightarrow> inPlace ref n (Apply ord c act ps)
     | None \<Rightarrow> publish ref n (Apply ord (New (cs_spec cs) (n_id n)) act ps)) = (n', e)"
  shows "effect n p n' (p(t := Back ref (OpApply act ps) (Ended e))) \<and> good n' (p(t := Back ref (OpApply act ps) (Ended e)))"
proof
  have sp: "specDocs n" using assms(1) by (simp add: good_def)
  have d: "docOf n ref = map_of (cs_docs cs) (dr_document ref)" using assms(3) by (simp add: docOf_def)
  have "atomicOp ord (\<lambda>m. m) n ref (OpApply act ps) = (n', Ended e)"
    using assms(3,5) d by (simp add: atomicOp_def apply_ref_def onDocument_def split: option.splits)
  then show "effect n p n' (p(t := Back ref (OpApply act ps) (Ended e)))"
    by (rule effect_back [rotated 3]) (simp_all add: assms(2,4) range_order_id)
  have "specDocs n' \<and> (\<forall>d. pc_ok n d \<longrightarrow> pc_ok n' d)"
  proof (cases "docOf n ref")
    case None
    have "specDocs (putDoc ref (fst (Apply ord (New (cs_spec cs) (n_id n)) act ps)) n)"
      by (rule specDocs_putDoc [OF sp]) (simp add: assms(3) elem_kept elem_New)
    with None assms(5) sp show ?thesis by (auto simp: publish_def pc_ok_putDoc split: option.splits)
  next
    case (Some c)
    with assms(5) have i: "inPlace ref n (Apply ord c act ps) = (n', e)" by simp
    from inPlace_ok [OF i sp Some] show ?thesis by (simp add: elem_kept)
  qed
  with good_back assms(1) show "good n' (p(t := Back ref (OpApply act ps) (Ended e)))" by blast
qed

lemma store_effect:
  assumes "good n p" "p t = Temp ref op v" "docOf n ref = None"
  shows "effect n p (putDoc ref v n) (p(t := Back ref op (Ended None))) \<and> good (putDoc ref v n) (p(t := Back ref op (Ended None)))"
proof -
  have sp: "specDocs n" using assms(1) by (simp add: good_def)
  have g: "good (putDoc ref v n) (p(t := Back ref op (Ended None)))"
    if "colOf n ref = Some cs" "v_elem v = mo_Elem (cs_spec cs)" for cs
    by (rule good_back [OF specDocs_putDoc [OF sp] pc_ok_putDoc assms(1)]) (use that in simp_all)
  have "made n ref op v" using good_pc [OF assms(1,2)] by (simp add: pc_ok_def)
  then show ?thesis
  proof (cases rule: made_cases)
    case (merge s cs ord lord)
    then have "map_of (cs_docs cs) (dr_document ref) = None" using assms(3) by (simp add: docOf_def)
    with merge have "atomicOp ord lord n ref op = (putDoc ref v n, Ended None)"
      by (simp add: atomicOp_def mergeSnapshot_def onDocument_def publish_def)
    from effect_back [where p = p and t = t, OF _ merge(4,5) this] g [OF merge(2) merge_fresh(1) [OF merge(6,3,5)]] assms(2)
    show ?thesis by simp
  next
    case (wire w cs ord lord)
    then have "map_of (cs_docs cs) (dr_document ref) = None" using assms(3) by (simp add: docOf_def)
    with wire have "atomicOp ord lord n ref op = (putDoc ref v n, Ended None)"
      by (simp add: atomicOp_def mergeCollection_def onDocument_def publish_def)
    from effect_back [where p = p and t = t, OF _ wire(5,6) this]
      g [OF wire(2)] elem_kept(3) [of ord lord "New (cs_spec cs) (n_id n)" w] wire(7) assms(2)
    show ?thesis by (simp add: elem_New)
  qed
qed

lemma late_effect:
  assumes "good n p" "p t = Lost ref op v" "docOf n ref = Some c" "range_order ord" "range_order lord"
    and "inPlace ref n r = (n', e)"
    and "(\<exists>s s'. op = OpMerge s \<and> Snapshot v = Inr s' \<and> r = mergeRemote ord lord c s') \<or>
         (\<exists>w w'. op = OpMergeWire w \<and> SnapshotWire v = Inr w' \<and> r = MergeWire ord lord c w')"
  shows "effect n p n' (p(t := Back ref op (Ended e))) \<and> good n' (p(t := Back ref op (Ended e)))"
proof
  have sp: "specDocs n" using assms(1) by (simp add: good_def)
  have "\<exists>lord'. range_order lord' \<and> changes ord lord' op c = Some r"
  proof -
    have "made n ref op v" using good_pc [OF assms(1,2)] by (simp add: pc_ok_def)
    then show ?thesis
    proof (cases rule: made_cases)
      case (merge s cs ord0 lord0)
      with assms(7) obtain s' where s': "Snapshot v = Inr s'" "r = mergeRemote ord lord c s'" by auto
      from late_merge [OF merge(6,3,5) s'(1) assms(5)] s'(2) merge(1) show ?thesis
        unfolding changes_def by simp
    next
      case (wire w cs ord0 lord0)
      with assms(7) obtain w' where w': "SnapshotWire v = Inr w'" "r = MergeWire ord lord c w'" by auto
      have e: "wf_elem (mo_Elem (cs_spec cs))" "v_elem c = mo_Elem (cs_spec cs)"
        using sp wire(2) assms(3) by (auto simp: specDocs_def)
      from late_wire [OF wire(7,3,6) e(1) w'(1) assms(5) e(2)] w'(2) wire(1) show ?thesis
        unfolding changes_def by simp
    qed
  qed
  then obtain lord' where l: "range_order lord'" "changes ord lord' op c = Some r" by blast
  show "effect n p n' (p(t := Back ref op (Ended e)))"
    by (rule effect_back [OF _ assms(4) l(1) atomic_hit(1) [OF assms(3) l(2) assms(6)]]) (simp add: assms(2))
  from inPlace_ok [OF assms(6) sp assms(3) elem_kept(4) [OF l(2)]]
  show "good n' (p(t := Back ref op (Ended e)))" by (rule good_back [OF _ _ assms(1)])
qed

lemma doc_step_effect:
  "doc_step (n, p) (n', p') \<Longrightarrow> good n p \<Longrightarrow> effect n p n' p' \<and> good n' p'"
proof (induction "(n, p)" "(n', p')" rule: doc_step.induct)
  case (dc_call t ref op)
  then show ?case by (auto simp: pc_ok_def intro!: effect_move good_move)
next
  case (dc_hit t ref op)
  then show ?case by (auto simp: pc_ok_def intro!: effect_move good_move)
next
  case (dc_miss t ref op cs ord lord)
  have "opMap op" using good_pc [OF dc_miss(8,1)] by (simp add: pc_ok_def)
  then have "effect n p n (p(t := missed ord lord ref op (New (cs_spec cs) (n_id n)))) \<and>
      pc_ok n (missed ord lord ref op (New (cs_spec cs) (n_id n)))"
    by (rule missed_effect [where p = p and t = t, OF dc_miss(1-3) _ dc_miss(4,5)]) (rule refl)
  with good_move [OF dc_miss(8)] dc_miss(6,7) show ?case by blast
next
  case (dc_change t ref op c ord lord r e)
  have sp: "specDocs n" using dc_change by (simp add: good_def)
  note at = atomic_hit(1) [OF dc_change(2,5,6)]
  have "effect n p n' (p(t := Back ref op (Ended e)))"
    by (rule effect_back [OF _ dc_change(3,4) at]) (simp add: dc_change(1))
  moreover have "good n' (p(t := Back ref op (Ended e)))"
    by (rule good_back [OF inPlace_ok [OF dc_change(6) sp dc_change(2) elem_kept(4) [OF dc_change(5)]]])
      (use dc_change in simp_all)
  ultimately show ?case using dc_change by simp
next
  case (dc_read t ref op c ord r)
  note at = atomic_hit(2) [OF dc_read(2,4), of "\<lambda>m. m"]
  have "effect n p n (p(t := Back ref op r))"
    by (rule effect_back [OF _ dc_read(3) range_order_id(1) at]) (simp add: dc_read(1))
  moreover have "good n (p(t := Back ref op r))" by (rule good_move [OF dc_read(7)]) (simp add: pc_ok_def)
  ultimately show ?case using dc_read(5,6) by simp
next
  case (dc_first t ref act ps cs ord e)
  then show ?case using first_effect by metis
next
  case (dc_store t ref op v)
  then show ?case using store_effect by metis
next
  case (dc_race t ref op v)
  then have "made n ref op v" using good_pc [of n p t] by (simp add: pc_ok_def)
  with dc_race show ?case by (auto simp: pc_ok_def intro!: effect_move good_move)
next
  case (dc_late t ref s v c s' ord lord e)
  have "effect n p n' (p(t := Back ref (OpMerge s) (Ended e))) \<and> good n' (p(t := Back ref (OpMerge s) (Ended e)))"
    by (rule late_effect [OF dc_late(8,1,2,4,5,6)]) (use dc_late(3) in blast)
  with dc_late(7) show ?case by simp
next
  case (dc_late_wire t ref w v c w' ord lord e)
  have "effect n p n' (p(t := Back ref (OpMergeWire w) (Ended e))) \<and> good n' (p(t := Back ref (OpMergeWire w) (Ended e)))"
    by (rule late_effect [OF dc_late_wire(8,1,2,4,5,6)]) (use dc_late_wire(3) in blast)
  with dc_late_wire(7) show ?case by simp
qed

text \<open>The log grows by the calls that return.\<close>

lemma logged_effect:
  assumes "effect n p n' p'" "logged p L" "runs n0 L n"
  shows "\<exists>L'. logged p' (L @ L') \<and> runs n0 (L @ L') n'"
  using assms(1) unfolding effect_def
proof (elim disjE exE conjE)
  fix t c assume "n' = n" and c: "p' = p(t := c)" "\<not> isBack (p t)" "\<not> isBack c"
  have "(t, ref', op', r') \<notin> set L" for ref' op' r' using assms(2) c(2) by (force simp: logged_def)
  moreover have "c \<noteq> Back ref' op' r'" for ref' op' r' using c(3) by auto
  ultimately have "logged p' (L @ [])" using assms(2) c(1) by (simp add: logged_def)
  with assms(3) \<open>n' = n\<close> show ?thesis by (metis append_Nil2)
next
  fix t ref op r ord lord
  assume p: "p' = p(t := Back ref op r)" "\<not> isBack (p t)" and o: "range_order ord" "range_order lord"
    and a: "atomicOp ord lord n ref op = (n', r)"
  have n: "(t, ref', op', r') \<notin> set L" for ref' op' r' using assms(2) p(2) by (force simp: logged_def)
  then have "t \<notin> set (map fst L)" by auto
  then have "logged p' (L @ [(t, ref, op, r)])" using assms(2) p(1) n by (auto simp: logged_def)
  with rn_more [OF assms(3) o a] show ?thesis by blast
qed

lemma doc_steps_logged:
  "doc_steps (n, p) (n', p') \<Longrightarrow> good n p \<Longrightarrow> logged p L \<Longrightarrow> runs n0 L n \<Longrightarrow>
   good n' p' \<and> (\<exists>L'. logged p' (L @ L') \<and> runs n0 (L @ L') n')"
proof (induction "(n, p)" "(n', p')" arbitrary: n' p' rule: doc_steps.induct)
  case ds_none
  then show ?case by (metis append_Nil2)
next
  case (ds_more s')
  obtain n1 p1 where s': "s' = (n1, p1)" by (cases s')
  from ds_more s' obtain L1 where l: "good n1 p1" "logged p1 (L @ L1)" "runs n0 (L @ L1) n1" by blast
  with doc_step_effect [OF ds_more(3) [unfolded s']] have e: "effect n1 p1 n' p'" "good n' p'" by auto
  from logged_effect [OF e(1) l(2,3)] e(2) show ?case by (metis append_assoc)
qed

text \<open>No goroutine is stuck.\<close>

lemma doc_progress:
  assumes "good n p" "p t = c" "c \<noteq> Idle" "\<not> isBack c"
  shows "\<exists>s. doc_step (n, p) s"
proof (cases c)
  case (Ready ref op)
  then obtain cs where cs: "colOf n ref = Some cs" using good_pc [OF assms(1,2)] by (auto simp: pc_ok_def)
  have r: "p t = Ready ref op" using Ready assms(2) by simp
  show ?thesis
  proof (cases "docOf n ref = None")
    case True
    show ?thesis by (rule exI, rule dc_miss [where p = p and t = t, OF r cs True range_order_id(1) range_order_id(1)])
  next
    case False
    show ?thesis by (rule exI, rule dc_hit [where p = p and t = t, OF r False])
  qed
next
  case (Hit ref op)
  then obtain d where d: "docOf n ref = Some d" using good_pc [OF assms(1,2)] by (auto simp: pc_ok_def)
  have "(\<exists>r. changes (\<lambda>m. m) (\<lambda>m. m) op d = Some r) \<or> (\<exists>r. reads (\<lambda>m. m) op d = Some r)"
    by (cases op) (simp_all add: changes_def reads_def)
  then show ?thesis
  proof (elim disjE exE)
    fix r assume r: "changes (\<lambda>m. m) (\<lambda>m. m) op d = Some r"
    show ?thesis
      by (rule exI, rule dc_change [where p = p and t = t, OF _ d range_order_id(1) range_order_id(1) r surjective_pairing])
        (simp add: Hit assms(2))
  next
    fix r assume r: "reads (\<lambda>m. m) op d = Some r"
    show ?thesis
      by (rule exI, rule dc_read [where p = p and t = t, OF _ d range_order_id(1) r]) (simp add: Hit assms(2))
  qed
next
  case (Locking ref op)
  then obtain cs act ps where "colOf n ref = Some cs" "op = OpApply act ps"
    using good_pc [OF assms(1,2)] by (auto simp: pc_ok_def)
  note c = this
  show ?thesis
    by (rule exI, rule dc_first [where p = p and t = t, OF _ c(1) range_order_id(1) surjective_pairing])
      (simp add: Locking assms(2) c(2))
next
  case (Temp ref op v)
  then have r: "p t = Temp ref op v" using assms(2) by simp
  show ?thesis
  proof (cases "docOf n ref = None")
    case True
    show ?thesis by (rule exI, rule dc_store [where p = p and t = t, OF r True])
  next
    case False
    show ?thesis by (rule exI, rule dc_race [where p = p and t = t, OF r False])
  qed
next
  case (Lost ref op v)
  then obtain d where d: "docOf n ref = Some d" and "made n ref op v" using good_pc [OF assms(1,2)] by (auto simp: pc_ok_def)
  from this(2) show ?thesis
  proof (cases rule: made_cases)
    case (merge s cs ord lord)
    from clonable_id [OF merge_fresh(3) [OF merge(6,3,5)]] have sn: "Snapshot v = Inr (v_state v)" by (simp add: Snapshot_def)
    have "p t = Lost ref (OpMerge s) v" using Lost merge(1) assms(2) by simp
    from dc_late [where p = p and t = t, OF this d sn range_order_id(1) range_order_id(1) surjective_pairing] show ?thesis by blast
  next
    case (wire w cs ord lord)
    have "wf_elem (mo_Elem (cs_spec cs))" using assms(1) wire(2) by (auto simp: good_def specDocs_def)
    from decode_fresh [OF wire(7,3,6) this] obtain w' where "SnapshotWire v = Inr w'" by blast
    note sn = this
    have "p t = Lost ref (OpMergeWire w) v" using Lost wire(1) assms(2) by simp
    from dc_late_wire [where p = p and t = t, OF this d sn range_order_id(1) range_order_id(1) surjective_pairing] show ?thesis by blast
  qed
qed (use assms in simp_all)

text \<open>
  C30: the document operations of a node are linearizable. However the goroutines of a node interleave
  their updates, queries, gossip merges, sync merges and snapshots, on documents that exist and on
  documents that several of them touch for the first time at once, there is a log of the calls that
  returned, each with its result, such that running them one after the other, without interference,
  gives the same node and the same results. The log only grows at its end, so it keeps the order of
  calls that do not overlap; a call that has not returned has had no effect; and no update is lost.
\<close>

theorem document_ops_linearizable:
  assumes "specDocs n0" and "doc_steps (n0, \<lambda>_. Idle) (n1, p1)" and "doc_steps (n1, p1) (n2, p2)"
  shows "\<exists>L L'. runs n0 L n1 \<and> logged p1 L \<and> runs n0 (L @ L') n2 \<and> logged p2 (L @ L')"
proof -
  have "good n0 (\<lambda>_. Idle)" "logged (\<lambda>_. Idle) []" using assms(1) by (simp_all add: good_def pc_ok_def logged_def)
  from doc_steps_logged [OF assms(2) this rn_none] obtain L where
    l: "good n1 p1" "logged p1 L" "runs n0 L n1" by auto
  from doc_steps_logged [OF assms(3) l] l show ?thesis by blast
qed

text \<open>Two goroutines on a fresh document: the message loop merges a snapshot, a request updates first.\<close>

definition raceNode :: "vectorCRDT gomap \<Rightarrow> unit node" where
  "raceNode docs =
     (node_New ''a'')\<lparr> n_ready := True, n_collections := [(''C'', \<lparr> cs_spec = counter,
        cs_key = Some \<lparr> p_Name = ''k'', p_Type = ''string'' \<rparr>, cs_docs = docs \<rparr>)] \<rparr>"

abbreviation raceRef :: documentRef where
  "raceRef \<equiv> \<lparr> dr_collection = ''C'', dr_document = ''x'' \<rparr>"

definition raceTemp :: vectorCRDT where
  "raceTemp = (New counter ''a'')\<lparr>v_state := [(''b'', VNum 2)]\<rparr>"

lemma race_simps:
  "n_id (raceNode docs) = ''a''" "docOf (raceNode docs) raceRef = map_of docs ''x''"
  "colOf (raceNode docs) raceRef = Some \<lparr> cs_spec = counter,
        cs_key = Some \<lparr> p_Name = ''k'', p_Type = ''string'' \<rparr>, cs_docs = docs \<rparr>"
  "putDoc raceRef c (raceNode docs) = raceNode (mput ''x'' c docs)"
  by (simp_all add: raceNode_def node_New_def docOf_def colOf_def putDoc_def)

lemma race_merge:
  "mergeRemote (\<lambda>m. m) (\<lambda>m. m) (New counter ''a'') [(''b'', VNum 2)] = (raceTemp, None)"
  "mergeRemote (\<lambda>m. m) (\<lambda>m. m) counter_a [(''b'', VNum 2)] =
     ((New counter ''a'')\<lparr>v_state := [(''a'', VNum 3), (''b'', VNum 2)]\<rparr>, None)"
proof -
  have s: "[(''b'', VNum 2)] \<in> slots_in {v. conforms (mo_Elem counter) v}" "[] \<in> slots_in {v. conforms (mo_Elem counter) v}"
    "[(''a'', VNum 3)] \<in> slots_in {v. conforms (mo_Elem counter) v}"
    by (simp_all add: slots_in_def wfm_def counter_def)
  show "mergeRemote (\<lambda>m. m) (\<lambda>m. m) (New counter ''a'') [(''b'', VNum 2)] = (raceTemp, None)"
    using counter.merge_is_join [OF replica_of_New [of counter "''a''"] _ s(1) range_order_id(1)] s(2)
    by (simp add: raceTemp_def vjoin_def)
  show "mergeRemote (\<lambda>m. m) (\<lambda>m. m) counter_a [(''b'', VNum 2)] =
     ((New counter ''a'')\<lparr>v_state := [(''a'', VNum 3), (''b'', VNum 2)]\<rparr>, None)"
    using counter.merge_is_join [OF counter_a_simps(3) _ s(1) range_order_id(1)] s(3)
    by (simp add: counter_a_def vjoin_def)
qed

lemma document_ops_linearizable_witness:
  "\<exists>n p L. runs (raceNode []) L n \<and> logged p L \<and>
     docOf n raceRef = Some ((New counter ''a'')\<lparr>v_state := [(''a'', VNum 3), (''b'', VNum 2)]\<rparr>) \<and>
     p 0 = Back raceRef (OpMerge [(''b'', VNum 2)]) (Ended None) \<and> p 1 = Back raceRef (OpApply ''Add'' [GInt 3]) (Ended None)"
proof -
  let ?m = "OpMerge [(''b'', VNum 2)]" and ?a = "OpApply ''Add'' [GInt 3]"
  let ?v = "(New counter ''a'')\<lparr>v_state := [(''a'', VNum 3), (''b'', VNum 2)]\<rparr>"
  let ?i = "\<lambda>m. m" and ?n0 = "raceNode []" and ?n1 = "raceNode [(''x'', counter_a)]" and ?n2 = "raceNode [(''x'', ?v)]"
  have sp: "specDocs ?n0" using counter.elem_wf by (auto simp: specDocs_def raceNode_def node_New_def colOf_def docOf_def split: if_splits)
  define p1 :: "nat \<Rightarrow> pc" where "p1 = (\<lambda>_. Idle)(0 := Ready raceRef ?m)"
  define p2 where "p2 = p1(0 := Temp raceRef ?m raceTemp)"
  define p3 where "p3 = p2(1 := Ready raceRef ?a)"
  define p4 where "p4 = p3(1 := Locking raceRef ?a)"
  define p5 where "p5 = p4(1 := Back raceRef ?a (Ended None))"
  define p6 where "p6 = p5(0 := Lost raceRef ?m raceTemp)"
  define p7 where "p7 = p6(0 := Back raceRef ?m (Ended None))"
  note defs = p1_def p2_def p3_def p4_def p5_def p6_def p7_def
  have r1: "doc_steps (?n0, \<lambda>_. Idle) (?n0, p1)"
    unfolding p1_def by (rule ds_more [OF ds_none dc_call]) (simp_all add: race_simps opMap_def wfm_def)
  have m2: "missed ?i ?i raceRef ?m (New counter ''a'') = Temp raceRef ?m raceTemp"
    by (simp add: missed_def race_merge merged_def)
  have "doc_step (?n0, p1) (?n0, p1(0 := missed ?i ?i raceRef ?m (New counter ''a'')))"
    using dc_miss [of p1 0 raceRef ?m ?n0 _ ?i ?i] by (simp add: race_simps range_order_id p1_def)
  with r1 have r2: "doc_steps (?n0, \<lambda>_. Idle) (?n0, p2)" unfolding p2_def m2 by (rule ds_more)
  have r3: "doc_steps (?n0, \<lambda>_. Idle) (?n0, p3)"
    unfolding p3_def by (rule ds_more [OF r2 dc_call]) (simp_all add: race_simps opMap_def defs)
  have "doc_step (?n0, p3) (?n0, p3(1 := missed ?i ?i raceRef ?a (New counter ''a'')))"
    using dc_miss [of p3 1 raceRef ?a ?n0 _ ?i ?i] by (simp add: race_simps range_order_id p3_def)
  then have r4: "doc_steps (?n0, \<lambda>_. Idle) (?n0, p4)"
    unfolding p4_def using ds_more [OF r3] by (simp add: missed_def)
  have "doc_step (?n0, p4) (?n1, p5)"
    unfolding p5_def
    using dc_first [of p4 1 raceRef "''Add''" "[GInt 3]" ?n0 _ ?i ?n1 None]
    by (simp add: race_simps range_order_id p4_def publish_def counter_a_Apply)
  from ds_more [OF r4 this] have r5: "doc_steps (?n0, \<lambda>_. Idle) (?n1, p5)" .
  have r6: "doc_steps (?n1, p5) (?n1, p6)"
    unfolding p6_def by (rule ds_more [OF ds_none dc_race]) (simp_all add: race_simps defs)
  have sn: "Snapshot raceTemp = Inr [(''b'', VNum 2)]" by (simp add: raceTemp_def Snapshot_def)
  have "doc_step (?n1, p6) (?n2, p7)"
    unfolding p7_def
    using dc_late [of p6 0 raceRef "[(''b'', VNum 2)]" raceTemp ?n1 counter_a _ ?i ?i ?n2 None, OF _ _ sn]
    by (simp add: race_simps range_order_id p6_def inPlace_def race_merge)
  from ds_more [OF r6 this] have r7: "doc_steps (?n1, p5) (?n2, p7)" .
  from document_ops_linearizable [OF sp r5 r7] obtain L where "runs ?n0 L ?n2" "logged p7 L" by blast
  moreover have "docOf ?n2 raceRef = Some ?v" by (simp add: race_simps)
  moreover have "p7 0 = Back raceRef ?m (Ended None)" "p7 1 = Back raceRef ?a (Ended None)" by (simp_all add: defs)
  ultimately show ?thesis by blast
qed

end
