(* ===== verification/SyncRun.thy ===== *)
theory SyncRun
  imports NodeDocs
begin

text \<open>
  A running cluster of nodes, and the invariant of its synchronous operations. The state is the
  nodes, every message ever sent (a message stays deliverable, so loss, delay, duplication and
  reordering are all covered), and the synchronous phases in progress, by request id. The steps are
  the operations of Node.thy: deployment, updates, gossip, one turn of a message loop, the start of
  a push or pull phase, one turn of its wait, its timeout and its return.

  The fields \<open>so_acks\<close>, \<open>so_popped\<close> and \<open>so_base\<close> of a phase are history: who was counted, whose ack was
  taken from the channel, and the state of the document at every node when the phase began. A phase
  starts while the 64-bit request counter has not wrapped.
\<close>

record syncOp =
  so_node :: string
  so_pull :: bool
  so_ref :: documentRef
  so_ratio :: rat
  so_count :: nat
  so_turn :: turn
  so_acks :: "string set"
  so_popped :: "string set"
  so_base :: "string \<Rightarrow> rtVal gomap"

record sys =
  sy_node :: "string \<Rightarrow> string node"
  sy_net :: "(string \<times> nodeMsg) set"
  sy_ops :: "string \<Rightarrow> syncOp option"

definition setNode :: "string \<Rightarrow> string node \<Rightarrow> sys \<Rightarrow> sys" where
  "setNode i n s = s\<lparr>sy_node := (sy_node s)(i := n)\<rparr>"

definition emit :: "string sends \<Rightarrow> sys \<Rightarrow> sys" where
  "emit out s = s\<lparr>sy_net := sy_net s \<union> set out\<rparr>"

definition setOp :: "string \<Rightarrow> syncOp \<Rightarrow> sys \<Rightarrow> sys" where
  "setOp rid op s = s\<lparr>sy_ops := (sy_ops s)(rid \<mapsto> op)\<rparr>"

definition newOp :: "string \<Rightarrow> bool \<Rightarrow> documentRef \<Rightarrow> rat \<Rightarrow> sys \<Rightarrow> syncOp" where
  "newOp i pull ref ratio s =
     \<lparr> so_node = i, so_pull = pull, so_ref = ref, so_ratio = ratio, so_count = 0, so_turn = Waiting,
       so_acks = {}, so_popped = {}, so_base = (\<lambda>p. dstate (sy_node s p) ref) \<rparr>"

text \<open>Every node knows all the others, and a peer handle is the id of the node behind it.\<close>

definition meshNode :: "string list \<Rightarrow> string \<Rightarrow> string node" where
  "meshNode ids i = foldl (\<lambda>n k. AddPeer n k k) (node_New i) (filter (\<lambda>k. k \<noteq> i) ids)"

definition sysInit :: "string list \<Rightarrow> sys" where
  "sysInit ids = \<lparr> sy_node = meshNode ids, sy_net = {}, sy_ops = (\<lambda>_. None) \<rparr>"

definition onAck ::
  "(rtVal gomap \<Rightarrow> rtVal gomap) \<Rightarrow> (rtVal gomap \<Rightarrow> rtVal gomap) \<Rightarrow> syncOp \<Rightarrow> string node \<Rightarrow> syncAckMsg \<Rightarrow>
   string node \<times> nodeErr option"
where
  "onAck ord lord op = (if so_pull op then pullAck ord lord (so_ref op) else pushAck)"

definition counted :: "syncOp \<Rightarrow> string \<Rightarrow> nat \<Rightarrow> turn \<Rightarrow> syncOp" where
  "counted op k cnt t =
     op\<lparr> so_count := cnt, so_turn := t, so_popped := insert k (so_popped op),
         so_acks := (if so_count op < cnt then insert k (so_acks op) else so_acks op) \<rparr>"

inductive sys_step :: "(rtVal gomap \<Rightarrow> rtVal gomap) \<Rightarrow> string list \<Rightarrow> builtPlan \<Rightarrow> sys \<Rightarrow> sys \<Rightarrow> bool"
  for ord ids bp
where
  st_deploy: "i \<in> set ids \<Longrightarrow> n = sy_node s i \<Longrightarrow>
    sys_step ord ids bp s (emit (PropagatePlan n bp) (setNode i (Initialize n bp) s))"
| st_apply: "i \<in> set ids \<Longrightarrow> n = sy_node s i \<Longrightarrow> ApplyDocument ord n col doc act payload = (n', e) \<Longrightarrow>
    sys_step ord ids bp s (setNode i n' s)"
| st_gossip: "i \<in> set ids \<Longrightarrow> n = sy_node s i \<Longrightarrow> gossipTick n k = Inr out \<Longrightarrow>
    sys_step ord ids bp s (emit out s)"
| st_deliver: "i \<in> set ids \<Longrightarrow> n = sy_node s i \<Longrightarrow> (i, msg) \<in> sy_net s \<Longrightarrow>
    range_order lord \<Longrightarrow> range_order cord \<Longrightarrow> range_order dord \<Longrightarrow>
    handleMsg ord lord cord dord n msg = Inr (n', out) \<Longrightarrow>
    sys_step ord ids bp s (emit out (setNode i n' s))"
| st_push: "i \<in> set ids \<Longrightarrow> n = sy_node s i \<Longrightarrow> n_reqSeq n \<noteq> - 1 \<Longrightarrow>
    resolveDocument n col raw = Inr ref \<Longrightarrow> pushStart n ref ratio = Inr (n', out, Some rid) \<Longrightarrow>
    sys_step ord ids bp s (setOp rid (newOp i False ref ratio s) (emit out (setNode i n' s)))"
| st_pull: "i \<in> set ids \<Longrightarrow> n = sy_node s i \<Longrightarrow> n_reqSeq n \<noteq> - 1 \<Longrightarrow>
    resolveDocument n col raw = Inr ref \<Longrightarrow> pullStart n ref ratio = (n', out, Some rid) \<Longrightarrow>
    sys_step ord ids bp s (setOp rid (newOp i True ref ratio s) (emit out (setNode i n' s)))"
| st_collect: "sy_ops s rid = Some op \<Longrightarrow> so_turn op = Waiting \<Longrightarrow> n = sy_node s (so_node op) \<Longrightarrow>
    range_order lord \<Longrightarrow> popAck n rid = Some (m, n1) \<Longrightarrow>
    collectAck (onAck ord lord op) n rid (so_ratio op) (so_count op) = Some (n', cnt, t) \<Longrightarrow>
    sys_step ord ids bp s (setOp rid (counted op (ak_FromID m) cnt t) (setNode (so_node op) n' s))"
| st_timeout: "sy_ops s rid = Some op \<Longrightarrow> so_turn op = Waiting \<Longrightarrow> n = sy_node s (so_node op) \<Longrightarrow>
    sys_step ord ids bp s (setOp rid (op\<lparr>so_turn := collectTimeout n (so_count op)\<rparr>) s)"
| st_return: "sy_ops s rid = Some op \<Longrightarrow> so_turn op \<noteq> Waiting \<Longrightarrow>
    sys_step ord ids bp s (setNode (so_node op) (cancel (sy_node s (so_node op)) rid) s)"

inductive sys_steps :: "(rtVal gomap \<Rightarrow> rtVal gomap) \<Rightarrow> string list \<Rightarrow> builtPlan \<Rightarrow> sys \<Rightarrow> sys \<Rightarrow> bool"
  for ord ids bp
where
  ss_none: "sys_steps ord ids bp s s"
| ss_more: "sys_steps ord ids bp s s' \<Longrightarrow> sys_step ord ids bp s' s'' \<Longrightarrow> sys_steps ord ids bp s s''"

lemma sys_simps [simp]:
  "sy_node (setNode i n s) = (sy_node s)(i := n)" "sy_net (setNode i n s) = sy_net s" "sy_ops (setNode i n s) = sy_ops s"
  "sy_node (emit out s) = sy_node s" "sy_net (emit out s) = sy_net s \<union> set out" "sy_ops (emit out s) = sy_ops s"
  "sy_node (setOp rid op s) = sy_node s" "sy_net (setOp rid op s) = sy_net s" "sy_ops (setOp rid op s) = (sy_ops s)(rid \<mapsto> op)"
  by (simp_all add: setNode_def emit_def setOp_def)

text \<open>Request ids name their node and their number.\<close>

lemma reqID_inj:
  assumes "i @ ''-'' @ nat_String k = j @ ''-'' @ nat_String l"
  shows "i = j \<and> k = l"
proof -
  have d: "CHR ''-'' \<notin> set (nat_String m)" for m
    using nat_String_digits [of m] is_digit_char_simps(4) by (auto simp: list_all_iff)
  have r: "takeWhile (\<lambda>c. c \<noteq> CHR ''-'') (rev (x @ ''-'' @ nat_String m)) = rev (nat_String m)" for x m
  proof -
    have e: "rev (x @ ''-'' @ nat_String m) = rev (nat_String m) @ CHR ''-'' # rev x" by simp
    have "takeWhile (\<lambda>c. c \<noteq> CHR ''-'') (rev (nat_String m) @ CHR ''-'' # rev x) =
        takeWhile (\<lambda>c. c \<noteq> CHR ''-'') (rev (nat_String m))"
      by (rule takeWhile_tail) simp
    also have "\<dots> = rev (nat_String m)"
      unfolding takeWhile_eq_all_conv using d [of m] by auto
    finally show ?thesis unfolding e .
  qed
  from arg_cong [OF assms, of "\<lambda>x. takeWhile (\<lambda>c. c \<noteq> CHR ''-'') (rev x)"]
  have n: "nat_String k = nat_String l" unfolding r by simp
  then have "k = l" by (metis nat_String_value)
  with assms n show ?thesis by simp
qed

lemma nextReqID_seq:
  assumes "nextReqID n = (rid, n')" "n_reqSeq n \<noteq> - 1"
  shows "rid = n_id n @ ''-'' @ nat_String (unat (n_reqSeq n) + 1)" "unat (n_reqSeq n') = unat (n_reqSeq n) + 1"
    "n' = n\<lparr>n_reqSeq := n_reqSeq n'\<rparr>"
proof -
  have "unat (n_reqSeq n + 1) = unat (n_reqSeq n) + 1"
    using assms(2) unatSuc [of "n_reqSeq n"] by (simp add: add_eq_0_iff add.commute)
  with assms(1) show "rid = n_id n @ ''-'' @ nat_String (unat (n_reqSeq n) + 1)"
    "unat (n_reqSeq n') = unat (n_reqSeq n) + 1" "n' = n\<lparr>n_reqSeq := n_reqSeq n'\<rparr>"
    by (auto simp: nextReqID_def Let_def)
qed

text \<open>The nodes of the mesh.\<close>

definition mesh_ok :: "string list \<Rightarrow> string \<Rightarrow> string node \<Rightarrow> bool" where
  "mesh_ok ids i n \<longleftrightarrow>
     n_id n = i \<and> n_peers n = filter (\<lambda>k. k \<noteq> i) ids \<and>
     (\<forall>k. map_of (n_peerByID n) k = (if k \<in> set ids \<and> k \<noteq> i then Some k else None)) \<and>
     wfm (n_collections n) \<and> (\<forall>c cs. map_of (n_collections n) c = Some cs \<longrightarrow> wfm (cs_docs cs))"

lemma foldl_AddPeer:
  "foldl (\<lambda>n k. AddPeer n k k) n ks =
     n\<lparr>n_peers := n_peers n @ ks, n_peerByID := fold (\<lambda>k. mput k k) ks (n_peerByID n)\<rparr>"
  by (induction ks arbitrary: n) (auto simp: AddPeer_def)

lemma mesh_init: "mesh_ok ids i (meshNode ids i)"
proof -
  have l: "map_of (fold (\<lambda>k. mput k k) ks m) x = (if x \<in> set ks then Some x else map_of m x)" for ks m x
    by (induction ks arbitrary: m) auto
  show ?thesis by (auto simp: mesh_ok_def meshNode_def foldl_AddPeer l node_New_def)
qed

lemma mesh_frame:
  assumes "mesh_ok ids i n" "same_frame n n'" "wfm (n_collections n')"
    "\<forall>c cs. map_of (n_collections n') c = Some cs \<longrightarrow> wfm (cs_docs cs)"
  shows "mesh_ok ids i n'"
  using assms same_frame_fields [OF assms(2)] by (simp add: mesh_ok_def)

lemma mesh_putDoc: "mesh_ok ids i n \<Longrightarrow> mesh_ok ids i (putDoc ref v n)"
  by (rule mesh_frame [OF _ same_frame_putDoc])
    (auto simp: mesh_ok_def putDoc_def colOf_def split: option.splits if_splits)

lemma mesh_onDocument: "mesh_ok ids i n \<Longrightarrow> mesh_ok ids i (fst (onDocument n ref f))"
  by (auto simp: onDocument_def inPlace_def publish_def mesh_putDoc split: option.split)

lemma mesh_MergeSnapshot: "mesh_ok ids i n \<Longrightarrow> mesh_ok ids i (MergeSnapshot ord lord cord dord n snap)"
  unfolding MergeSnapshot_def
  by (rule fold_invariant [where I = "mesh_ok ids i"]; clarsimp?)
    (rule fold_invariant [where I = "mesh_ok ids i"],
      auto simp: mergeEntry_def mergeSnapshot_def mesh_onDocument split: sum.split)

lemma mesh_Initialize:
  assumes "mesh_ok ids i n"
  shows "mesh_ok ids i (Initialize n bp)"
proof -
  let ?W = "\<lambda>m. wfm m \<and> (\<forall>c cs. map_of m c = Some cs \<longrightarrow> wfm (cs_docs cs))"
  have "?W (fold (\<lambda>bc cols. mput (bc_Name bc) (newCol j bc) cols) bcs m)" if "?W m" for j bcs m
    by (rule fold_invariant [where I = ?W]) (use that in \<open>auto simp: newCol_def wfm_Cons\<close>)
  from this [of "n_collections n" i "bp_Collections bp"] assms show ?thesis
    by (cases "n_ready n") (auto simp: mesh_ok_def Initialize_def)
qed

end
