(* ===== verification/SyncInv.thy ===== *)
theory SyncInv
  imports SyncRun
begin

text \<open>
  The invariant of a running cluster, for one collection whose model is a proved type: the nodes are
  well formed, every message means what its phase says, every phase's acks come from distinct nodes
  and vouch for what they should, and the channels hold acks not counted before. One lemma per
  kind of step shows that it is preserved.
\<close>

lemma length_others: "x \<in> set ids \<Longrightarrow> distinct ids \<Longrightarrow> length (filter (\<lambda>k. k \<noteq> x) ids) + 1 = length ids"
proof (induction ids)
  case (Cons a ids)
  have "filter (\<lambda>k. k \<noteq> a) ids = ids" if "a \<notin> set ids" by (rule filter_True) (use that in auto)
  with Cons show ?case by (cases "a = x") auto
qed simp

definition op_shape :: "string list \<Rightarrow> syncOp \<Rightarrow> bool" where
  "op_shape ids op \<longleftrightarrow>
     so_node op \<in> set ids \<and> so_acks op \<subseteq> so_popped op \<and> so_popped op \<subseteq> set ids - {so_node op} \<and>
     so_count op = card (so_acks op) \<and>
     (so_turn op = Finished \<longrightarrow> reached (length ids) (so_count op) (so_ratio op))"

definition pend_ok :: "string list \<Rightarrow> sys \<Rightarrow> string \<Rightarrow> string \<Rightarrow> pendingReq \<Rightarrow> bool" where
  "pend_ok ids s i rid pr \<longleftrightarrow>
     (\<exists>op. sy_ops s rid = Some op \<and> so_node op = i \<and>
        distinct (map ak_FromID (pr_ch pr)) \<and> ak_FromID ` set (pr_ch pr) \<inter> so_popped op = {} \<and>
        ak_FromID ` set (pr_ch pr) \<union> so_popped op \<subseteq> dom (map_of (pr_seen pr)) \<and>
        dom (map_of (pr_seen pr)) \<subseteq> set ids - {i} \<and>
        (\<forall>m \<in> set (pr_ch pr). (i, SyncAck m) \<in> sy_net s \<and> ak_ReqID m = rid))"

text \<open>The part of a phase that never changes.\<close>

definition same_op :: "syncOp \<Rightarrow> syncOp \<Rightarrow> bool" where
  "same_op op op' \<longleftrightarrow>
     so_node op' = so_node op \<and> so_pull op' = so_pull op \<and> so_ref op' = so_ref op \<and>
     so_ratio op' = so_ratio op \<and> so_base op' = so_base op"

lemma same_op_refl [simp]: "same_op op op"
  by (simp add: same_op_def)

lemma same_op_trans: "same_op a b \<Longrightarrow> same_op b d \<Longrightarrow> same_op a d"
  by (simp add: same_op_def)

context proved_type
begin

definition ack_ok :: "sys \<Rightarrow> syncOp \<Rightarrow> syncAckMsg \<Rightarrow> bool" where
  "ack_ok s op m \<longleftrightarrow>
     (if so_pull op then \<exists>t. wire_means (ak_Snapshot m) t \<and> vec.le (so_base op (ak_FromID m)) t
      else vec.le (so_base op (so_node op)) (dstate (sy_node s (ak_FromID m)) (so_ref op)))"

fun msg_ok :: "string \<Rightarrow> paramSpec option \<Rightarrow> string list \<Rightarrow> sys \<Rightarrow> nodeMsg \<Rightarrow> bool" where
  "msg_ok c key ids s (GossipMsg sid snap) = gossip_ok c snap"
| "msg_ok c key ids s (DeployMsg plan) =
     (\<exists>bc. plan_col plan c = Some bc \<and> bc_Spec bc = P \<and> bc_Key bc = key)"
| "msg_ok c key ids s (SyncPush m) =
     (\<exists>op. sy_ops s (pu_ReqID m) = Some op \<and> \<not> so_pull op \<and>
        so_ref op = \<lparr> dr_collection = pu_Collection m, dr_document = pu_Document m \<rparr> \<and>
        (pu_Collection m = c \<longrightarrow> wire_means (pu_Snapshot m) (so_base op (so_node op))))"
| "msg_ok c key ids s (SyncPull m) =
     (\<exists>op. sy_ops s (pq_ReqID m) = Some op \<and> so_pull op \<and>
        so_ref op = \<lparr> dr_collection = pq_Collection m, dr_document = pq_Document m \<rparr>)"
| "msg_ok c key ids s (SyncAck m) =
     (\<exists>op. sy_ops s (ak_ReqID m) = Some op \<and> ak_FromID m \<in> set ids \<and>
        (dr_collection (so_ref op) = c \<longrightarrow> ack_ok s op m))"
| "msg_ok c key ids s OtherMsg = True"

definition vouched :: "sys \<Rightarrow> syncOp \<Rightarrow> string \<Rightarrow> bool" where
  "vouched s op p \<longleftrightarrow>
     (if so_pull op then vec.le (so_base op p) (dstate (sy_node s (so_node op)) (so_ref op))
      else vec.le (so_base op (so_node op)) (dstate (sy_node s p) (so_ref op)))"

definition op_ok :: "string \<Rightarrow> string list \<Rightarrow> sys \<Rightarrow> string \<Rightarrow> syncOp \<Rightarrow> bool" where
  "op_ok c ids s rid op \<longleftrightarrow>
     op_shape ids op \<and>
     (\<exists>k. rid = so_node op @ ''-'' @ nat_String k \<and> k \<le> unat (n_reqSeq (sy_node s (so_node op)))) \<and>
     (dr_collection (so_ref op) = c \<longrightarrow>
        (\<forall>p \<in> set ids. so_base op p \<in> slots_in D \<and> vec.le (so_base op p) (dstate (sy_node s p) (so_ref op))) \<and>
        (\<forall>p \<in> so_acks op. vouched s op p))"

definition inv :: "string \<Rightarrow> paramSpec option \<Rightarrow> string list \<Rightarrow> sys \<Rightarrow> bool" where
  "inv c key ids s \<longleftrightarrow>
     (\<forall>i \<in> set ids. mesh_ok ids i (sy_node s i) \<and> node_ok c key (sy_node s i)) \<and>
     (\<forall>(to, msg) \<in> sy_net s. msg_ok c key ids s msg) \<and>
     (\<forall>rid op. sy_ops s rid = Some op \<longrightarrow> op_ok c ids s rid op) \<and>
     (\<forall>i \<in> set ids. \<forall>rid pr. map_of (n_pending (sy_node s i)) rid = Some pr \<longrightarrow> pend_ok ids s i rid pr)"

text \<open>A later state of a cluster.\<close>

definition later :: "string \<Rightarrow> paramSpec option \<Rightarrow> string list \<Rightarrow> sys \<Rightarrow> sys \<Rightarrow> bool" where
  "later c key ids s s' \<longleftrightarrow>
     (\<forall>i \<in> set ids. advances c key (sy_node s i) (sy_node s' i) \<and>
        unat (n_reqSeq (sy_node s i)) \<le> unat (n_reqSeq (sy_node s' i))) \<and>
     (\<forall>rid op. sy_ops s rid = Some op \<longrightarrow> (\<exists>op'. sy_ops s' rid = Some op' \<and> same_op op op')) \<and>
     sy_net s \<subseteq> sy_net s'"

lemma later_refl: "inv c key ids s \<Longrightarrow> later c key ids s s"
  by (simp add: later_def inv_def advances_refl)

lemma later_trans:
  assumes i: "inv c key ids s" and a: "later c key ids s s'" and b: "later c key ids s' s''"
  shows "later c key ids s s''"
  unfolding later_def
proof (intro conjI ballI allI impI)
  fix p assume p: "p \<in> set ids"
  have "node_ok c key (sy_node s p)" using i p by (simp add: inv_def)
  then show "advances c key (sy_node s p) (sy_node s'' p)"
    using a b p advances_trans unfolding later_def by blast
  show "unat (n_reqSeq (sy_node s p)) \<le> unat (n_reqSeq (sy_node s'' p))"
    using a b p order_trans unfolding later_def by blast
next
  fix rid op assume "sy_ops s rid = Some op"
  then obtain o1 where o1: "sy_ops s' rid = Some o1" "same_op op o1" using a unfolding later_def by blast
  then obtain o2 where "sy_ops s'' rid = Some o2" "same_op o1 o2" using b unfolding later_def by blast
  with o1 show "\<exists>op'. sy_ops s'' rid = Some op' \<and> same_op op op'" using same_op_trans by blast
next
  show "sy_net s \<subseteq> sy_net s''" using a b unfolding later_def by blast
qed

lemma later_le:
  assumes "inv c key ids s" "later c key ids s s'" "p \<in> set ids" "dr_collection ref = c" "t \<in> slots_in D"
    and "vec.le t (dstate (sy_node s p) ref)"
  shows "vec.le t (dstate (sy_node s' p) ref)"
proof -
  have "node_ok c key (sy_node s p)" "advances c key (sy_node s p) (sy_node s' p)"
    using assms(1-3) by (auto simp: inv_def later_def)
  then have "dstate (sy_node s p) ref \<in> slots_in D" "dstate (sy_node s' p) ref \<in> slots_in D"
    "vec.le (dstate (sy_node s p) ref) (dstate (sy_node s' p) ref)"
    using dstate_in assms(4) unfolding advances_def by blast+
  with assms(5,6) show ?thesis using vec.le_trans by blast
qed

text \<open>What is known of messages and phases stays true.\<close>

lemma op_base_in:
  "inv c key ids s \<Longrightarrow> sy_ops s rid = Some op \<Longrightarrow> dr_collection (so_ref op) = c \<Longrightarrow> p \<in> set ids \<Longrightarrow>
   so_base op p \<in> slots_in D"
  by (auto simp: inv_def op_ok_def)

lemma op_node_in: "inv c key ids s \<Longrightarrow> sy_ops s rid = Some op \<Longrightarrow> so_node op \<in> set ids"
  by (auto simp: inv_def op_ok_def op_shape_def)

lemma msg_later:
  assumes i: "inv c key ids s" and l: "later c key ids s s'" and m: "msg_ok c key ids s msg"
  shows "msg_ok c key ids s' msg"
proof -
  have op: "\<exists>op'. sy_ops s' rid = Some op' \<and> same_op op op'" if "sy_ops s rid = Some op" for rid op
    using l that by (auto simp: later_def)
  show ?thesis
  proof (cases msg)
    case (SyncPush x)
    with m op show ?thesis by (fastforce simp: same_op_def)
  next
    case (SyncPull x)
    with m op show ?thesis by (fastforce simp: same_op_def)
  next
    case (SyncAck x)
    with m obtain o1 where o1: "sy_ops s (ak_ReqID x) = Some o1" "ak_FromID x \<in> set ids"
      "dr_collection (so_ref o1) = c \<longrightarrow> ack_ok s o1 x" by auto
    from op [OF o1(1)] obtain o2 where o2: "sy_ops s' (ak_ReqID x) = Some o2" "same_op o1 o2" by blast
    have "ack_ok s' o2 x" if "dr_collection (so_ref o1) = c"
      using o1(3) o2(2) that later_le [OF i l o1(2) that op_base_in [OF i o1(1) that op_node_in [OF i o1(1)]]]
      by (auto simp: ack_ok_def same_op_def)
    with SyncAck o1 o2 show ?thesis by (auto simp: same_op_def)
  qed (use m in simp_all)
qed

lemma op_later:
  assumes i: "inv c key ids s" and l: "later c key ids s s'" and o: "sy_ops s rid = Some op"
  shows "op_ok c ids s' rid op"
proof -
  have ok: "op_ok c ids s rid op" using i o by (simp add: inv_def)
  then have n: "so_node op \<in> set ids" and a: "so_acks op \<subseteq> set ids" by (auto simp: op_ok_def op_shape_def)
  have "vouched s' op p" if c: "dr_collection (so_ref op) = c" and p: "p \<in> so_acks op" for p
  proof -
    have "vouched s op p" "p \<in> set ids" using ok c p a by (auto simp: op_ok_def)
    then show ?thesis
      using later_le [OF i l n c op_base_in [OF i o c]] later_le [OF i l _ c op_base_in [OF i o c n]]
      by (auto simp: vouched_def)
  qed
  moreover have "vec.le (so_base op p) (dstate (sy_node s' p) (so_ref op))"
    if "dr_collection (so_ref op) = c" "p \<in> set ids" for p
    using ok that later_le [OF i l that(2,1)] by (auto simp: op_ok_def)
  ultimately show ?thesis
    using ok l n by (fastforce simp: op_ok_def later_def)
qed

lemma pend_later:
  assumes "pend_ok ids s i rid pr" "sy_net s \<subseteq> sy_net s'" "sy_ops s' rid = sy_ops s rid"
  shows "pend_ok ids s' i rid pr"
  using assms unfolding pend_ok_def by fastforce

lemma msg_ok_same:
  "sy_node s' = sy_node s \<Longrightarrow> sy_ops s' = sy_ops s \<Longrightarrow> msg_ok c key ids s' msg = msg_ok c key ids s msg"
  by (cases msg) (auto simp: ack_ok_def)

lemma emit_Nil [simp]: "emit [] s = s"
  by (simp add: emit_def)

lemma inv_node:
  "inv c key ids s \<Longrightarrow> i \<in> set ids \<Longrightarrow> mesh_ok ids i (sy_node s i) \<and> node_ok c key (sy_node s i)"
  by (simp add: inv_def)

lemma later_node:
  assumes "inv c key ids s" "i \<in> set ids" "advances c key (sy_node s i) n'"
    "unat (n_reqSeq (sy_node s i)) \<le> unat (n_reqSeq n')"
  shows "later c key ids s (emit out (setNode i n' s))"
  using assms by (auto simp: later_def advances_refl inv_node)

text \<open>A step of one node that touches only documents, and the messages it sends.\<close>

lemma docs_step:
  assumes i: "inv c key ids s" "i \<in> set ids" and a: "advances c key (sy_node s i) n'" and m: "mesh_ok ids i n'"
    and f: "n_reqSeq n' = n_reqSeq (sy_node s i)" "n_pending n' = n_pending (sy_node s i)"
    and o: "\<And>p msg. (p, msg) \<in> set out \<Longrightarrow> msg_ok c key ids (setNode i n' s) msg"
  shows "inv c key ids (emit out (setNode i n' s)) \<and> later c key ids s (emit out (setNode i n' s))"
proof
  let ?s = "emit out (setNode i n' s)"
  show l: "later c key ids s ?s" by (rule later_node [OF i a]) (simp add: f)
  have "msg_ok c key ids ?s msg" if "(p, msg) \<in> sy_net ?s" for p msg
  proof (cases "(p, msg) \<in> sy_net s")
    case True
    then have "msg_ok c key ids s msg" using i(1) by (auto simp: inv_def)
    then show ?thesis by (rule msg_later [OF i(1) l])
  next
    case False
    with that o show ?thesis by (simp add: msg_ok_same [of ?s "setNode i n' s"])
  qed
  moreover have "pend_ok ids ?s j rid pr"
    if "j \<in> set ids" "map_of (n_pending (sy_node ?s j)) rid = Some pr" for j rid pr
  proof (rule pend_later)
    show "pend_ok ids s j rid pr" using i that f(2) by (auto simp: inv_def split: if_splits)
  qed auto
  moreover have "op_ok c ids ?s rid op" if "sy_ops ?s rid = Some op" for rid op
    using op_later [OF i(1) l] that by simp
  moreover have "mesh_ok ids j (sy_node ?s j) \<and> node_ok c key (sy_node ?s j)" if "j \<in> set ids" for j
    using that i a m by (simp add: inv_def advances_def)
  ultimately show "inv c key ids ?s" by (auto simp: inv_def)
qed

lemma apply_step:
  assumes i: "inv c key ids s" "i \<in> set ids" and a: "ApplyDocument ord (sy_node s i) col doc act payload = (n', e)"
  shows "inv c key ids (setNode i n' s) \<and> later c key ids s (setNode i n' s)"
proof -
  let ?n = "sy_node s i"
  note n = inv_node [OF i]
  have "n' = ?n \<or> (\<exists>ref. n' = fst (onDocument ?n ref (\<lambda>v. Apply ord v act payload)))"
    using a by (auto simp: ApplyDocument_def apply_ref_def split: sum.splits) (metis fst_conv)
  then have "same_frame ?n n' \<and> advances c key ?n n' \<and> mesh_ok ids i n'"
    using n advances_refl advances_onDocument [OF _ grows_Apply] same_frame_onDocument mesh_onDocument by auto
  with docs_step [OF i, of n' "[]"] show ?thesis by (simp add: same_frame_fields)
qed

lemma gossip_step:
  assumes i: "inv c key ids s" "i \<in> set ids" and g: "gossipTick (sy_node s i) k = Inr out"
  shows "inv c key ids (emit out s) \<and> later c key ids s (emit out s)"
proof -
  note n = inv_node [OF i]
  have "msg_ok c key ids (setNode i (sy_node s i) s) msg" if "(p, msg) \<in> set out" for p msg
    using that g n Snapshot_node_ok [of c key "sy_node s i"] by (auto simp: gossipTick_def mesh_ok_def split: if_splits)
  with docs_step [OF i, of "sy_node s i" out] n show ?thesis by (simp add: advances_refl setNode_def)
qed

lemma deploy_step:
  assumes i: "inv c key ids s" "i \<in> set ids" and p: "plan_col bp c = Some bc" "bc_Spec bc = P" "bc_Key bc = key"
  shows "inv c key ids (emit (PropagatePlan (sy_node s i) bp) (setNode i (Initialize (sy_node s i) bp) s)) \<and>
    later c key ids s (emit (PropagatePlan (sy_node s i) bp) (setNode i (Initialize (sy_node s i) bp) s))"
proof (rule docs_step [OF i])
  show "advances c key (sy_node s i) (Initialize (sy_node s i) bp)"
    using inv_node [OF i] by (intro Initialize_ok [OF _ p]) simp
  show "mesh_ok ids i (Initialize (sy_node s i) bp)"
    using inv_node [OF i] by (intro mesh_Initialize) simp
  have "msg_ok c key ids s' (DeployMsg bp)" for s' using p by auto
  then show "\<And>q msg. (q, msg) \<in> set (PropagatePlan (sy_node s i) bp) \<Longrightarrow>
      msg_ok c key ids (setNode i (Initialize (sy_node s i) bp) s) msg"
    by (auto simp only: PropagatePlan_def set_map image_iff prod.inject)
qed (auto simp: Initialize_def)

lemma routeAck_mesh:
  "mesh_ok ids i n \<Longrightarrow> (p, msg) \<in> set (routeAck n to ack) \<Longrightarrow> msg = SyncAck ack"
  by (auto simp: routeAck_def split: option.splits)

lemma push_step:
  assumes i: "inv c key ids s" "i \<in> set ids" and m: "msg_ok c key ids s (SyncPush m)" and l: "range_order lord"
    and h: "handleSyncPush ord lord (sy_node s i) m = (n', out)"
  shows "inv c key ids (emit out (setNode i n' s)) \<and> later c key ids s (emit out (setNode i n' s))"
proof -
  let ?n = "sy_node s i"
  note n = inv_node [OF i]
  from m obtain op where op: "sy_ops s (pu_ReqID m) = Some op" "\<not> so_pull op"
    "so_ref op = \<lparr> dr_collection = pu_Collection m, dr_document = pu_Document m \<rparr>"
    "pu_Collection m = c \<Longrightarrow> wire_means (pu_Snapshot m) (so_base op (so_node op))" by auto
  consider "n' = ?n" "out = []"
    | ref where "n' = fst (mergeCollection ord lord ?n ref (pu_Snapshot m))" "ref = so_ref op"
        "out \<noteq> [] \<longrightarrow> mergeCollection ord lord ?n ref (pu_Snapshot m) = (n', None) \<and> (\<forall>(p, msg) \<in> set out.
           msg = SyncAck \<lparr> ak_FromID = i, ak_ReqID = pu_ReqID m, ak_Document = pu_Document m, ak_Snapshot = [] \<rparr>)"
  proof (cases "resolveDocument ?n (pu_Collection m) (pu_Document m)")
    case (Inl e)
    with h that(1) show ?thesis by (auto simp: handleSyncPush_def split: if_splits)
  next
    case (Inr ref)
    show ?thesis
    proof (cases "fingerprintMatches ?n (pu_Fingerprint m) \<and> dr_document ref = pu_Document m")
      case False
      with h Inr that(1) show ?thesis by (auto simp: handleSyncPush_def split: if_splits)
    next
      case True
      obtain n1 r where mc: "mergeCollection ord lord ?n ref (pu_Snapshot m) = (n1, r)" by fastforce
      have "n_id n1 = i" using n mc same_frame_mergeCollection [of ?n ord lord ref "pu_Snapshot m"]
        by (simp add: same_frame_fields mesh_ok_def)
      moreover have "ref = so_ref op" using True op(3) docOf_key [OF Inr] by (cases ref) simp
      ultimately show ?thesis
        using h Inr True mc that(2) [of ref]
        by (cases r) (auto simp: handleSyncPush_def routeAck_def split: option.splits)
    qed
  qed
  then show ?thesis
  proof cases
    case 1
    with docs_step [OF i, of ?n "[]"] n show ?thesis by (simp add: advances_refl)
  next
    case 2
    have c: "dr_collection (so_ref op) = c \<longleftrightarrow> pu_Collection m = c" by (simp add: op(3))
    have adv: "advances c key ?n n'"
      unfolding 2(1) using n op(4) c 2(2) l by (intro advances_mergeCollection) auto
    have "same_frame ?n n'" unfolding 2(1) by (rule same_frame_mergeCollection)
    moreover have "mesh_ok ids i n'"
      using n unfolding 2(1) by (auto simp: mergeCollection_def intro: mesh_onDocument)
    moreover have "msg_ok c key ids (setNode i n' s) msg" if o: "(p, msg) \<in> set out" for p msg
    proof -
      from o 2(3) have mc: "mergeCollection ord lord ?n (so_ref op) (pu_Snapshot m) = (n', None)"
        and msg: "msg = SyncAck \<lparr> ak_FromID = i, ak_ReqID = pu_ReqID m, ak_Document = pu_Document m, ak_Snapshot = [] \<rparr>"
        using 2(2) by auto
      have "vec.le (so_base op (so_node op)) (dstate n' (so_ref op))" if "pu_Collection m = c"
        using mergeCollection_absorbs [OF _ _ op(4) [OF that] l mc] n c that by blast
      with op i(2) c show ?thesis by (simp add: msg ack_ok_def)
    qed
    ultimately show ?thesis by (intro docs_step [OF i adv]) (simp_all add: same_frame_fields)
  qed
qed

lemma pull_step:
  assumes i: "inv c key ids s" "i \<in> set ids" and m: "msg_ok c key ids s (SyncPull m)"
    and h: "handleSyncPull (sy_node s i) m = Inr out"
  shows "inv c key ids (emit out s) \<and> later c key ids s (emit out s)"
proof -
  let ?n = "sy_node s i"
  note n = inv_node [OF i]
  from m obtain op where op: "sy_ops s (pq_ReqID m) = Some op" "so_pull op"
    "so_ref op = \<lparr> dr_collection = pq_Collection m, dr_document = pq_Document m \<rparr>" by auto
  have "msg_ok c key ids (setNode i ?n s) msg" if o: "(p, msg) \<in> set out" for p msg
  proof -
    from o h obtain ref w where r: "resolveDocument ?n (pq_Collection m) (pq_Document m) = Inr ref"
      "dr_document ref = pq_Document m" "snapshotCollection ?n ref = Inr w"
      "msg = SyncAck \<lparr> ak_FromID = n_id ?n, ak_ReqID = pq_ReqID m, ak_Document = dr_document ref, ak_Snapshot = w \<rparr>"
      by (auto simp: handleSyncPull_def routeAck_def split: if_splits sum.splits option.splits)
    then have ref: "ref = so_ref op" using op(3) docOf_key [OF r(1)] by (cases ref) simp
    have "wire_means w (dstate ?n ref) \<and> vec.le (so_base op i) (dstate ?n ref)" if "dr_collection (so_ref op) = c"
      using snapshotCollection_means [OF _ _ r(3)] n i op(1) that ref
      by (auto simp: inv_def op_ok_def)
    with r(4) op n i(2) ref show ?thesis by (auto simp: mesh_ok_def ack_ok_def)
  qed
  with docs_step [OF i, of ?n out] n show ?thesis by (simp add: advances_refl setNode_def)
qed

text \<open>A step of one node that also changes its pending requests, and at most one phase of its own.\<close>

lemma op_step:
  assumes i: "inv c key ids s" "i \<in> set ids"
    and n: "sy_node s' = (sy_node s)(i := n')" "advances c key (sy_node s i) n'" "mesh_ok ids i n'"
      "unat (n_reqSeq (sy_node s i)) \<le> unat (n_reqSeq n')"
    and net: "sy_net s \<subseteq> sy_net s'" "\<And>p msg. (p, msg) \<in> sy_net s' \<Longrightarrow> (p, msg) \<notin> sy_net s \<Longrightarrow> msg_ok c key ids s' msg"
    and ops: "\<And>rid. sy_ops s' rid \<noteq> sy_ops s rid \<Longrightarrow> \<exists>op'. sy_ops s' rid = Some op' \<and> so_node op' = i \<and>
        (\<forall>op. sy_ops s rid = Some op \<longrightarrow> same_op op op') \<and> (later c key ids s s' \<longrightarrow> op_ok c ids s' rid op')"
    and pend: "\<And>rid pr. map_of (n_pending n') rid = Some pr \<Longrightarrow> pend_ok ids s' i rid pr"
  shows "inv c key ids s' \<and> later c key ids s s'"
proof
  have op: "\<exists>op'. sy_ops s' rid = Some op' \<and> same_op op op'" if "sy_ops s rid = Some op" for rid op
    using ops [of rid] that by (cases "sy_ops s' rid = sy_ops s rid") auto
  show l: "later c key ids s s'"
    unfolding later_def using i n(1,2,4) net(1) op by (auto simp: advances_refl inv_node)
  have "msg_ok c key ids s' msg" if "(p, msg) \<in> sy_net s'" for p msg
  proof (cases "(p, msg) \<in> sy_net s")
    case True
    then have "msg_ok c key ids s msg" using i(1) by (auto simp: inv_def)
    then show ?thesis by (rule msg_later [OF i(1) l])
  qed (use that net(2) in blast)
  moreover have "op_ok c ids s' rid op" if "sy_ops s' rid = Some op" for rid op
    using ops [of rid] op_later [OF i(1) l] l that by (cases "sy_ops s' rid = sy_ops s rid") auto
  moreover have "pend_ok ids s' j rid pr" if j: "j \<in> set ids" "map_of (n_pending (sy_node s' j)) rid = Some pr" for j rid pr
  proof (cases "j = i")
    case True
    with j(2) n(1) pend show ?thesis by simp
  next
    case False
    with j n(1) i(1) have p: "pend_ok ids s j rid pr" by (simp add: inv_def)
    then obtain o1 where o1: "sy_ops s rid = Some o1" "so_node o1 = j" by (auto simp: pend_ok_def)
    have "sy_ops s' rid = sy_ops s rid"
    proof (rule ccontr)
      assume "sy_ops s' rid \<noteq> sy_ops s rid"
      from ops [OF this] o1 obtain op' where "so_node op' = i" "same_op o1 op'" by blast
      with o1(2) False show False by (simp add: same_op_def)
    qed
    from pend_later [OF p net(1) this] show ?thesis .
  qed
  moreover have "mesh_ok ids j (sy_node s' j) \<and> node_ok c key (sy_node s' j)" if "j \<in> set ids" for j
    using that i n by (simp add: inv_def advances_def)
  ultimately show "inv c key ids s'" by (auto simp: inv_def)
qed

lemma advances_frame:
  assumes "node_ok c key n" "n_collections n' = n_collections n" "n_ready n' = n_ready n" "n_id n' = n_id n"
  shows "advances c key n n'"
proof -
  have "dstate n' ref = dstate n ref" for ref using assms(2) by (simp add: dstate_def docOf_def colOf_def cong: option.case_cong)
  with node_ok_frame [OF assms] dstate_in [OF assms(1)] show ?thesis by (simp add: advances_def vec.le_refl)
qed

lemma mesh_same:
  "mesh_ok ids i n \<Longrightarrow> n_collections n' = n_collections n \<Longrightarrow> n_id n' = n_id n \<Longrightarrow> n_peers n' = n_peers n \<Longrightarrow>
   n_peerByID n' = n_peerByID n \<Longrightarrow> mesh_ok ids i n'"
  by (simp add: mesh_ok_def)

lemma pend_get: "inv c key ids s \<Longrightarrow> i \<in> set ids \<Longrightarrow> map_of (n_pending (sy_node s i)) rid = Some pr \<Longrightarrow> pend_ok ids s i rid pr"
  by (simp add: inv_def)

lemma op_get: "inv c key ids s \<Longrightarrow> sy_ops s rid = Some op \<Longrightarrow> op_ok c ids s rid op"
  by (simp add: inv_def)

lemma ack_step:
  assumes i: "inv c key ids s" "i \<in> set ids" and m: "(i, SyncAck m) \<in> sy_net s"
  shows "inv c key ids (setNode i (handleSyncAck (sy_node s i) m) s) \<and>
    later c key ids s (setNode i (handleSyncAck (sy_node s i) m) s)"
proof -
  let ?n = "sy_node s i" and ?s = "setNode i (handleSyncAck (sy_node s i) m) s"
  note n = inv_node [OF i]
  have fr: "n_collections (handleSyncAck ?n m) = n_collections ?n" "n_ready (handleSyncAck ?n m) = n_ready ?n"
    "n_id (handleSyncAck ?n m) = n_id ?n" "n_peers (handleSyncAck ?n m) = n_peers ?n"
    "n_peerByID (handleSyncAck ?n m) = n_peerByID ?n" "n_reqSeq (handleSyncAck ?n m) = n_reqSeq ?n"
    by (auto simp: handleSyncAck_def Let_def split: option.split)
  have "pend_ok ids ?s i rid pr'" if pr': "map_of (n_pending (handleSyncAck ?n m)) rid = Some pr'" for rid pr'
  proof (cases "map_of (n_pending ?n) rid = Some pr'")
    case True
    from pend_later [OF pend_get [OF i True]] show ?thesis by simp
  next
    case False
    with pr' obtain pr where pr: "rid = ak_ReqID m" "map_of (n_pending ?n) rid = Some pr"
      "map_of (n_peerByID ?n) (ak_FromID m) \<noteq> None" "map_of (pr_seen pr) (ak_FromID m) \<noteq> Some ()"
      "pr' = pr\<lparr> pr_ch := if length (pr_ch pr) < pr_cap pr then pr_ch pr @ [m] else pr_ch pr,
                 pr_seen := mput (ak_FromID m) () (pr_seen pr) \<rparr>"
      by (auto simp: handleSyncAck_def Let_def split: option.splits if_splits)
    have "ak_FromID m \<in> set ids - {i}" using n pr(3) by (auto simp: mesh_ok_def split: if_splits)
    moreover have "ak_FromID m \<notin> dom (map_of (pr_seen pr))" using pr(4) by auto
    moreover obtain op where op: "sy_ops s rid = Some op" "so_node op = i" "distinct (map ak_FromID (pr_ch pr))"
      "ak_FromID ` set (pr_ch pr) \<inter> so_popped op = {}"
      "ak_FromID ` set (pr_ch pr) \<union> so_popped op \<subseteq> dom (map_of (pr_seen pr))"
      "dom (map_of (pr_seen pr)) \<subseteq> set ids - {i}"
      "\<forall>m \<in> set (pr_ch pr). (i, SyncAck m) \<in> sy_net s \<and> ak_ReqID m = rid"
      using pend_get [OF i pr(2)] by (auto simp: pend_ok_def)
    ultimately have f: "ak_FromID m \<notin> ak_FromID ` set (pr_ch pr)" "ak_FromID m \<notin> so_popped op"
      "ak_FromID m \<in> set ids - {i}" by blast+
    have d: "dom (map_of (pr_seen pr')) = insert (ak_FromID m) (dom (map_of (pr_seen pr)))"
      by (simp add: pr(5))
    have ch: "pr_ch pr' = pr_ch pr \<or> pr_ch pr' = pr_ch pr @ [m]" by (simp add: pr(5))
    have sub: "ak_FromID ` set (pr_ch pr') \<subseteq> insert (ak_FromID m) (ak_FromID ` set (pr_ch pr))"
      and mem: "set (pr_ch pr') \<subseteq> insert m (set (pr_ch pr))" using ch by auto
    have di: "distinct (map ak_FromID (pr_ch pr'))" using ch op(3) f(1) by auto
    have "insert (ak_FromID m) (ak_FromID ` set (pr_ch pr)) \<inter> so_popped op = {}" using op(4) f(2) by simp
    with Int_mono [OF sub order_refl, of "so_popped op"]
    have "ak_FromID ` set (pr_ch pr') \<inter> so_popped op = {}" by simp
    moreover have "ak_FromID ` set (pr_ch pr') \<union> so_popped op \<subseteq> dom (map_of (pr_seen pr'))"
      unfolding d using order_trans [OF sub] op(5) by (simp add: subset_insertI2 insert_mono)
    moreover have "dom (map_of (pr_seen pr')) \<subseteq> set ids - {i}" unfolding d using op(6) f(3) by simp
    moreover have "\<forall>x \<in> set (pr_ch pr'). (i, SyncAck x) \<in> sy_net ?s \<and> ak_ReqID x = rid"
      using mem op(7) m pr(1) by auto
    moreover have "sy_ops ?s rid = Some op" using op(1) by simp
    ultimately show ?thesis
      unfolding pend_ok_def using op(2) di by - (rule exI [of _ op], intro conjI; assumption)
  qed
  then show ?thesis
    using n fr by (intro op_step [OF i]) (auto intro: advances_frame mesh_same)
qed

text \<open>The start of a phase.\<close>

lemma fresh_rid:
  assumes i: "inv c key ids s" "i \<in> set ids" and r: "nextReqID (sy_node s i) = (rid, n1)" "n_reqSeq (sy_node s i) \<noteq> - 1"
  shows "sy_ops s rid = None"
proof (cases "sy_ops s rid")
  case (Some op)
  then obtain k where k: "rid = so_node op @ ''-'' @ nat_String k" "k \<le> unat (n_reqSeq (sy_node s (so_node op)))"
    using op_get [OF i(1) Some] by (auto simp: op_ok_def)
  have "n_id (sy_node s i) = i" using inv_node [OF i] by (simp add: mesh_ok_def)
  with nextReqID_seq(1) [OF r] k(1) reqID_inj have "so_node op = i \<and> k = unat (n_reqSeq (sy_node s i)) + 1" by metis
  with k(2) show ?thesis by simp
qed

lemma start_step:
  assumes i: "inv c key ids s" "i \<in> set ids"
    and r: "nextReqID (sy_node s i) = (rid, n1)" "n_reqSeq (sy_node s i) \<noteq> - 1" "n' = register_req n1 rid (dr_document ref)"
    and out: "\<And>p msg. (p, msg) \<in> set out \<Longrightarrow>
      (\<forall>s'. sy_ops s' rid = Some (newOp i pull ref ratio s) \<longrightarrow> msg_ok c key ids s' msg)"
  shows "inv c key ids (setOp rid (newOp i pull ref ratio s) (emit out (setNode i n' s))) \<and>
    later c key ids s (setOp rid (newOp i pull ref ratio s) (emit out (setNode i n' s)))"
proof -
  let ?n = "sy_node s i" and ?op = "newOp i pull ref ratio s"
  let ?s = "setOp rid ?op (emit out (setNode i n' s))"
  note n = inv_node [OF i] and q = nextReqID_seq [OF r(1,2)] and fresh = fresh_rid [OF i r(1,2)]
  have fr: "n_collections n' = n_collections ?n" "n_ready n' = n_ready ?n" "n_id n' = n_id ?n" "n_peers n' = n_peers ?n"
    "n_peerByID n' = n_peerByID ?n" "n_reqSeq n' = n_reqSeq n1" "n_pending n1 = n_pending ?n"
    using arg_cong [OF q(3), of n_collections] arg_cong [OF q(3), of n_ready] arg_cong [OF q(3), of n_id]
      arg_cong [OF q(3), of n_peers] arg_cong [OF q(3), of n_peerByID] arg_cong [OF q(3), of n_pending]
    by (simp_all add: r(3) register_req_def)
  have "op_ok c ids ?s rid ?op" if "later c key ids s ?s"
  proof -
    have d: "dstate (sy_node s p) ref \<in> slots_in D" if "p \<in> set ids" "dr_collection ref = c" for p
      using inv_node [OF i(1) that(1)] dstate_in that(2) by blast
    have "vec.le (dstate (sy_node s p) ref) (dstate (sy_node ?s p) ref)" if "p \<in> set ids" "dr_collection ref = c" for p
      using \<open>later c key ids s ?s\<close> that unfolding later_def advances_def by blast
    moreover have "n_id ?n = i" using n by (simp add: mesh_ok_def)
    ultimately show ?thesis
      using d i(2) q(1,2) fr(6) by (auto simp: op_ok_def op_shape_def newOp_def)
  qed
  moreover have "pend_ok ids ?s i rid' pr" if "map_of (n_pending n') rid' = Some pr" for rid' pr
  proof (cases "rid' = rid")
    case True
    with that show ?thesis by (auto simp: pend_ok_def newOp_def r(3) register_req_def)
  next
    case False
    with that have "map_of (n_pending ?n) rid' = Some pr" by (simp add: r(3) register_req_def fr(7))
    from pend_later [OF pend_get [OF i this]] False show ?thesis by simp
  qed
  ultimately show ?thesis
    using n fr q(2) out fresh
    by (intro op_step [OF i, where n' = n']) (auto intro: advances_frame mesh_same simp: newOp_def split: if_splits)
qed

lemma push_start_step:
  assumes i: "inv c key ids s" "i \<in> set ids" and q: "n_reqSeq (sy_node s i) \<noteq> - 1"
    and p: "pushStart (sy_node s i) ref ratio = Inr (n', out, Some rid)"
  shows "inv c key ids (setOp rid (newOp i False ref ratio s) (emit out (setNode i n' s))) \<and>
    later c key ids s (setOp rid (newOp i False ref ratio s) (emit out (setNode i n' s)))"
proof -
  from p obtain w where w: "snapshotCollection (sy_node s i) ref = Inr w"
    by (cases "snapshotCollection (sy_node s i) ref") (simp_all add: pushStart_def split: if_splits)
  obtain rid' n1 where q': "nextReqID (sy_node s i) = (rid', n1)" by (cases "nextReqID (sy_node s i)")
  have r: "snapshotCollection (sy_node s i) ref = Inr w" "nextReqID (sy_node s i) = (rid, n1)"
    "n' = register_req n1 rid (dr_document ref)"
    "\<forall>(p, msg) \<in> set out. \<exists>m. msg = SyncPush m \<and> pu_ReqID m = rid \<and> pu_Snapshot m = w \<and>
       pu_Collection m = dr_collection ref \<and> pu_Document m = dr_document ref"
    using p w q' by (auto simp: pushStart_def Let_def broadcast_def split: if_splits)
  have "wire_means w (dstate (sy_node s i) ref)" if "dr_collection ref = c"
    using snapshotCollection_means [OF _ that r(1)] inv_node [OF i] by blast
  with r(4) show ?thesis by (intro start_step [OF i r(2) q r(3)]) (force simp: newOp_def)
qed

lemma pull_start_step:
  assumes i: "inv c key ids s" "i \<in> set ids" and q: "n_reqSeq (sy_node s i) \<noteq> - 1"
    and p: "pullStart (sy_node s i) ref ratio = (n', out, Some rid)"
  shows "inv c key ids (setOp rid (newOp i True ref ratio s) (emit out (setNode i n' s))) \<and>
    later c key ids s (setOp rid (newOp i True ref ratio s) (emit out (setNode i n' s)))"
proof -
  obtain rid' n1 where q': "nextReqID (sy_node s i) = (rid', n1)" by (cases "nextReqID (sy_node s i)")
  have r: "nextReqID (sy_node s i) = (rid, n1)" "n' = register_req n1 rid (dr_document ref)"
    "\<forall>(p, msg) \<in> set out. \<exists>m. msg = SyncPull m \<and> pq_ReqID m = rid \<and>
       pq_Collection m = dr_collection ref \<and> pq_Document m = dr_document ref"
    using p q' by (auto simp: pullStart_def Let_def broadcast_def split: if_splits)
  then show ?thesis by (intro start_step [OF i r(1) q r(2)]) (force simp: newOp_def)
qed

text \<open>A turn of the wait: the ack at the head of the channel.\<close>

lemma popped_ack:
  assumes i: "inv c key ids s" "sy_ops s rid = Some op" and p: "popAck (sy_node s (so_node op)) rid = Some (m, n1)"
  obtains pr ms where "map_of (n_pending (sy_node s (so_node op))) rid = Some pr" "pr_ch pr = m # ms"
    "n1 = (sy_node s (so_node op))\<lparr>n_pending := mput rid (pr\<lparr>pr_ch := ms\<rparr>) (n_pending (sy_node s (so_node op)))\<rparr>"
    "ak_FromID m \<notin> so_popped op" "ak_FromID m \<in> set ids - {so_node op}" "ak_ReqID m = rid"
    "dr_collection (so_ref op) = c \<Longrightarrow> ack_ok s op m"
proof -
  from p obtain pr ms where pr: "map_of (n_pending (sy_node s (so_node op))) rid = Some pr" "pr_ch pr = m # ms"
    "n1 = (sy_node s (so_node op))\<lparr>n_pending := mput rid (pr\<lparr>pr_ch := ms\<rparr>) (n_pending (sy_node s (so_node op)))\<rparr>"
    by (auto simp: popAck_def split: option.splits list.splits)
  from pend_get [OF i(1) op_node_in [OF i] pr(1)] i(2) pr(2)
  have k: "ak_FromID m \<notin> so_popped op" "ak_FromID m \<in> set ids - {so_node op}" "ak_ReqID m = rid"
    "(so_node op, SyncAck m) \<in> sy_net s"
    by (auto simp: pend_ok_def)
  then have "msg_ok c key ids s (SyncAck m)" using i(1) by (auto simp: inv_def)
  with k i(2) have "dr_collection (so_ref op) = c \<Longrightarrow> ack_ok s op m" by auto
  with pr k that show ?thesis by blast
qed

lemma vouched_counted: "vouched s (counted op k cnt t) p = vouched s op p"
  by (simp add: vouched_def counted_def)

lemma turn_step:
  assumes i: "inv c key ids s" "sy_ops s rid = Some op" "distinct ids" and w: "so_turn op = Waiting" and l: "range_order lord"
    and p: "popAck (sy_node s (so_node op)) rid = Some (m, n1)"
    and q: "collectAck (onAck ord lord op) (sy_node s (so_node op)) rid (so_ratio op) (so_count op) = Some (n', cnt, t)"
  shows "inv c key ids (setOp rid (counted op (ak_FromID m) cnt t) (setNode (so_node op) n' s)) \<and>
    later c key ids s (setOp rid (counted op (ak_FromID m) cnt t) (setNode (so_node op) n' s))"
proof -
  let ?i = "so_node op" and ?op = "counted op (ak_FromID m) cnt t"
  let ?n = "sy_node s ?i" and ?s = "setOp rid ?op (setNode ?i n' s)"
  note ii = op_node_in [OF i(1,2)]
  note n = inv_node [OF i(1) ii]
  from popped_ack [OF i(1,2) p] obtain pr ms where pr: "map_of (n_pending ?n) rid = Some pr" "pr_ch pr = m # ms"
    "n1 = ?n\<lparr>n_pending := mput rid (pr\<lparr>pr_ch := ms\<rparr>) (n_pending ?n)\<rparr>"
    "ak_FromID m \<notin> so_popped op" "ak_FromID m \<in> set ids - {?i}" "ak_ReqID m = rid"
    "dr_collection (so_ref op) = c \<Longrightarrow> ack_ok s op m" by blast
  obtain n2 r where n2: "onAck ord lord op n1 m = (n2, r)" by fastforce
  have n': "n' = n2" "r = None \<Longrightarrow> cnt = so_count op + 1" "r \<noteq> None \<Longrightarrow> cnt = so_count op \<and> t = Waiting"
    "t = Finished \<Longrightarrow> reached (clusterSize n2) cnt (so_ratio op)"
    using q p n2 by (auto simp: collectAck_def split: option.splits if_splits)
  have f1: "n_collections n1 = n_collections ?n" "n_ready n1 = n_ready ?n" "n_id n1 = n_id ?n"
    "n_peers n1 = n_peers ?n" "n_peerByID n1 = n_peerByID ?n" "n_reqSeq n1 = n_reqSeq ?n"
    using pr(3) by simp_all
  have a1: "advances c key ?n n1" using n f1 by (intro advances_frame) simp_all
  then have ok1: "node_ok c key n1" by (simp add: advances_def)
  have m1: "mesh_ok ids ?i n1" using mesh_same [of ids ?i ?n n1] n f1 by simp
  have n2_cases: "n2 = n1 \<or> n2 = fst (mergeCollection ord lord n1 (so_ref op) (ak_Snapshot m))"
    using n2 by (auto simp: onAck_def pullAck_def pushAck_def split: if_splits)
  have fr: "same_frame n1 n2" using n2_cases same_frame_mergeCollection by auto
  have m2: "mesh_ok ids ?i n2"
    using n2_cases m1 by (auto simp: mergeCollection_def intro: mesh_onDocument)
  have means: "\<exists>t. wire_means (ak_Snapshot m) t \<and> vec.le (so_base op (ak_FromID m)) t"
    if "so_pull op" "dr_collection (so_ref op) = c"
    using pr(7) that by (simp add: ack_ok_def)
  have a2: "advances c key n1 n2"
  proof (cases "n2 = n1")
    case False
    with n2_cases n2 have pull: "so_pull op" and e: "n2 = fst (mergeCollection ord lord n1 (so_ref op) (ak_Snapshot m))"
      by (auto simp: onAck_def pushAck_def split: if_splits)
    show ?thesis
    proof (cases "dr_collection (so_ref op) = c")
      case True
      from means [OF pull True] obtain t where "wire_means (ak_Snapshot m) t" by blast
      from advances_mergeCollection [OF ok1 this l] show ?thesis unfolding e by blast
    next
      case False
      then show ?thesis unfolding e using advances_mergeCollection [OF ok1 _ l] by blast
    qed
  qed (use ok1 advances_refl in simp)
  have adv: "advances c key ?n n'" using advances_trans [OF _ a1 a2] n n'(1) by simp
  have absorbed: "vec.le (so_base op (ak_FromID m)) (dstate n' (so_ref op))"
    if "so_pull op" "dr_collection (so_ref op) = c" "r = None"
  proof -
    from means [OF that(1,2)] obtain t where t: "wire_means (ak_Snapshot m) t" "vec.le (so_base op (ak_FromID m)) t" by blast
    have "mergeCollection ord lord n1 (so_ref op) (ak_Snapshot m) = (n', None)"
      using n2 that n'(1) by (simp add: onAck_def pullAck_def)
    from mergeCollection_absorbs [OF ok1 that(2) t(1) l this] have "vec.le t (dstate n' (so_ref op))" .
    moreover have "so_base op (ak_FromID m) \<in> slots_in D" using op_base_in [OF i(1,2) that(2)] pr(5) by blast
    moreover have "t \<in> slots_in D" using t(1) by (simp add: wire_means_def)
    moreover have "dstate n' (so_ref op) \<in> slots_in D" using adv dstate_in that(2) unfolding advances_def by blast
    ultimately show ?thesis using t(2) vec.le_trans by blast
  qed
  note ok = op_get [OF i(1,2)]
  have same: "same_op op ?op" by (simp add: same_op_def counted_def)
  have fin: "finite (so_acks op)"
  proof (rule finite_subset)
    show "so_acks op \<subseteq> set ids" using ok unfolding op_ok_def op_shape_def by blast
  qed simp
  have "op_ok c ids ?s rid ?op" if lt: "later c key ids s ?s"
  proof -
    have old: "op_ok c ids ?s rid op" by (rule op_later [OF i(1) lt i(2)])
    have shape: "op_shape ids op" using ok by (simp add: op_ok_def)
    have len: "clusterSize n2 = length ids"
    proof -
      have "length (filter (\<lambda>k. k \<noteq> ?i) ids) + 1 = length ids"
        using ii i(3) by (rule length_others)
      with m2 show ?thesis by (simp add: clusterSize_def mesh_ok_def)
    qed
    have "ak_FromID m \<notin> so_acks op" using shape pr(4) by (auto simp: op_shape_def)
    then have "op_shape ids ?op"
      using shape pr(5) fin n'(2-4) len
      by (cases r) (auto simp: op_shape_def counted_def)
    moreover have "vouched ?s ?op p" if p: "p \<in> so_acks ?op" and c: "dr_collection (so_ref op) = c" for p
    proof (cases "p \<in> so_acks op")
      case True
      with old c have "vouched ?s op p" by (simp add: op_ok_def)
      then show ?thesis by (simp add: vouched_counted)
    next
      case False
      with p have pm: "p = ak_FromID m" "so_count op < cnt" by (auto simp: counted_def split: if_splits)
      then have r: "r = None" using n'(3) by (cases r) auto
      show ?thesis
      proof (cases "so_pull op")
        case True
        with absorbed [OF True c r] pm show ?thesis by (simp add: vouched_def counted_def)
      next
        case push: False
        with pr(7) [OF c] have "vec.le (so_base op ?i) (dstate (sy_node s p) (so_ref op))" by (simp add: ack_ok_def pm)
        from later_le [OF i(1) lt _ c op_base_in [OF i(1,2) c ii] this] pr(5) pm push
        show ?thesis by (simp add: vouched_def counted_def)
      qed
    qed
    ultimately show ?thesis using old by (simp add: op_ok_def counted_def)
  qed
  moreover have "pend_ok ids ?s ?i rid' pr'" if pr': "map_of (n_pending n') rid' = Some pr'" for rid' pr'
  proof (cases "rid' = rid")
    case True
    have "n_pending n' = n_pending n1" using fr n'(1) by (simp add: same_frame_fields)
    with pr' True pr(3) have "pr' = pr\<lparr>pr_ch := ms\<rparr>" by simp
    then show ?thesis
      using pend_get [OF i(1) ii pr(1)] i(2) pr(2) True by (auto simp: pend_ok_def counted_def)
  next
    case False
    have "n_pending n' = n_pending n1" using fr n'(1) by (simp add: same_frame_fields)
    with pr' False pr(3) have "map_of (n_pending ?n) rid' = Some pr'" by simp
    from pend_later [OF pend_get [OF i(1) ii this]] False show ?thesis by simp
  qed
  moreover have "n_reqSeq n' = n_reqSeq ?n" using fr n'(1) f1 by (simp add: same_frame_fields)
  moreover have "\<exists>op'. sy_ops ?s rid' = Some op' \<and> so_node op' = ?i \<and>
      (\<forall>o1. sy_ops s rid' = Some o1 \<longrightarrow> same_op o1 op') \<and> (later c key ids s ?s \<longrightarrow> op_ok c ids ?s rid' op')"
    if "sy_ops ?s rid' \<noteq> sy_ops s rid'" for rid'
  proof -
    have "rid' = rid" using that by (auto split: if_splits)
    with \<open>later c key ids s ?s \<Longrightarrow> op_ok c ids ?s rid ?op\<close> same i(2) show ?thesis
      by (auto simp: counted_def)
  qed
  ultimately show ?thesis
    using m2 n'(1) by (intro op_step [OF i(1) ii _ adv]) simp_all
qed

lemma vouched_same:
  "vouched (setOp rid o1 s) op p = vouched s op p" "vouched s (op\<lparr>so_turn := t\<rparr>) p = vouched s op p"
  by (simp_all add: vouched_def)

lemma timeout_step:
  assumes i: "inv c key ids s" "sy_ops s rid = Some op" and t: "t \<noteq> Finished"
  shows "inv c key ids (setOp rid (op\<lparr>so_turn := t\<rparr>) s) \<and> later c key ids s (setOp rid (op\<lparr>so_turn := t\<rparr>) s)"
proof -
  let ?s = "setOp rid (op\<lparr>so_turn := t\<rparr>) s" and ?i = "so_node op"
  note ii = op_node_in [OF i]
  note n = inv_node [OF i(1) ii]
  have "op_ok c ids ?s rid (op\<lparr>so_turn := t\<rparr>)" if "later c key ids s ?s"
    using op_later [OF i(1) that i(2)] t by (simp add: op_ok_def op_shape_def vouched_same)
  moreover have "pend_ok ids ?s ?i rid' pr" if "map_of (n_pending (sy_node s ?i)) rid' = Some pr" for rid' pr
    using pend_get [OF i(1) ii that] i(2) by (auto simp: pend_ok_def)
  ultimately show ?thesis
    using n i(2)
    by (intro op_step [OF i(1) ii, where n' = "sy_node s ?i"]) (auto simp: advances_refl same_op_def split: if_splits)
qed

lemma return_step:
  assumes i: "inv c key ids s" "i \<in> set ids"
  shows "inv c key ids (setNode i (cancel (sy_node s i) rid) s) \<and> later c key ids s (setNode i (cancel (sy_node s i) rid) s)"
proof -
  let ?s = "setNode i (cancel (sy_node s i) rid) s"
  note n = inv_node [OF i]
  have "pend_ok ids ?s i rid' pr" if "map_of (n_pending (cancel (sy_node s i) rid)) rid' = Some pr" for rid' pr
  proof (rule pend_later)
    show "pend_ok ids s i rid' pr" using pend_get [OF i] that by (simp add: cancel_def split: if_splits)
  qed simp_all
  moreover have "advances c key (sy_node s i) (cancel (sy_node s i) rid)"
    using n by (intro advances_frame) (simp_all add: cancel_def)
  moreover have "mesh_ok ids i (cancel (sy_node s i) rid)"
    using n mesh_same [of ids i "sy_node s i" "cancel (sy_node s i) rid"] by (simp add: cancel_def)
  moreover have "unat (n_reqSeq (sy_node s i)) \<le> unat (n_reqSeq (cancel (sy_node s i) rid))" by (simp add: cancel_def)
  ultimately show ?thesis by (intro op_step [OF i]) simp_all
qed

text \<open>Every step keeps the invariant and only moves the cluster forward.\<close>

lemma sys_step_inv:
  assumes st: "sys_step ord' ids bp s s'" and i: "inv c key ids s" and d: "distinct ids" and o: "ord' = ord"
    and p: "plan_col bp c = Some bc" "bc_Spec bc = P" "bc_Key bc = key"
  shows "inv c key ids s' \<and> later c key ids s s'"
  using st
proof (cases rule: sys_step.cases)
  case (st_deploy i' n)
  then show ?thesis using deploy_step [OF i _ p] by simp
next
  case (st_apply i' n col doc act payload n' e)
  then show ?thesis using apply_step [OF i] o by simp
next
  case (st_gossip i' n k out)
  then show ?thesis using gossip_step [OF i] by simp
next
  case (st_deliver i' n msg lord cord dord n' out)
  note h = \<open>handleMsg _ _ _ _ n msg = Inr (n', out)\<close>
  have m: "msg_ok c key ids s msg" using i st_deliver by (auto simp: inv_def)
  have ii: "i' \<in> set ids" "n = sy_node s i'" using st_deliver by simp_all
  note no = inv_node [OF i ii(1)]
  show ?thesis
  proof (cases msg)
    case (GossipMsg sid snap)
    have "advances c key n n' \<and> mesh_ok ids i' n' \<and> same_frame n n' \<and> out = []"
      using h GossipMsg m no ii(2) st_deliver(5-7) advances_MergeSnapshot [of c key n snap lord cord dord] o
        mesh_MergeSnapshot same_frame_MergeSnapshot advances_refl
      by (auto simp: handleMsg_def)
    with docs_step [OF i ii(1), of n' out] ii(2) st_deliver(1) show ?thesis by (simp add: same_frame_fields)
  next
    case (DeployMsg plan)
    then obtain bc' where "plan_col plan c = Some bc'" "bc_Spec bc' = P" "bc_Key bc' = key" using m by auto
    from Initialize_ok [OF _ this] have "advances c key n (Initialize n plan)" using no ii(2) by blast
    with docs_step [OF i ii(1), of "Initialize n plan" "[]"] h DeployMsg no ii(2) st_deliver(1) mesh_Initialize
    show ?thesis by (auto simp: handleMsg_def Initialize_def)
  next
    case (SyncPush x)
    then show ?thesis
      using push_step [OF i ii(1), of x lord n' out] m h o ii(2) st_deliver by (simp add: handleMsg_def)
  next
    case (SyncPull x)
    then show ?thesis
      using pull_step [OF i ii(1), of x out] m h ii(2) st_deliver(1) by (auto simp: handleMsg_def setNode_def)
  next
    case (SyncAck x)
    then show ?thesis
      using ack_step [OF i ii(1), of x] h ii(2) st_deliver by (auto simp: handleMsg_def)
  next
    case OtherMsg
    then show ?thesis using h i ii(2) st_deliver(1) later_refl by (auto simp: handleMsg_def setNode_def)
  qed
next
  case (st_push i' n col raw ref ratio n' out rid)
  then show ?thesis using push_start_step [OF i] by simp
next
  case (st_pull i' n col raw ref ratio n' out rid)
  then show ?thesis using pull_start_step [OF i] by simp
next
  case (st_collect rid op n lord m n1 n' cnt t)
  then show ?thesis using turn_step [OF i _ d] o by simp
next
  case (st_timeout rid op n)
  then show ?thesis using timeout_step [OF i, of rid op "collectTimeout n (so_count op)"] by (simp add: collectTimeout_def)
next
  case (st_return rid op)
  then show ?thesis using return_step [OF i op_node_in [OF i]] by simp
qed

end

end
