(* ===== verification/SyncRead.thy ===== *)
theory SyncRead
  imports SyncInv
begin

text \<open>
  What the synchronous operations promise: a write that returned is stored at a quorum for good, and
  a read that starts after it sees it, at any node, under any loss, delay, duplication or reordering
  of messages, any concurrent updates and gossip, and any iteration order of maps. SyncDemo.thy
  states the two promises as properties and runs a two-node cluster.
\<close>

context proved_type
begin

lemma inv_init: "inv c key ids (sysInit ids)"
proof -
  have "\<not> n_ready (meshNode ids i)" "n_collections (meshNode ids i) = []" "n_pending (meshNode ids i) = []" for i
    by (simp_all add: meshNode_def foldl_AddPeer node_New_def)
  with mesh_init show ?thesis by (simp add: inv_def sysInit_def node_ok_def)
qed

lemma sys_steps_inv:
  assumes "sys_steps ord ids bp s s'" "inv c key ids s" "distinct ids"
    and "plan_col bp c = Some bc" "bc_Spec bc = P" "bc_Key bc = key"
  shows "inv c key ids s' \<and> later c key ids s s'"
  using assms(1,2)
proof (induction rule: sys_steps.induct)
  case (ss_none s)
  then show ?case by (simp add: later_refl)
next
  case (ss_more s s' s'')
  then have i: "inv c key ids s'" and l: "later c key ids s s'" by auto
  from sys_step_inv [OF ss_more(2) i assms(3) refl assms(4-)] later_trans [OF ss_more(4) l] show ?case by blast
qed

text \<open>A phase that starts along the way starts from the states of that moment.\<close>

lemma step_new_op:
  "sys_step ord' ids bp s s' \<Longrightarrow> sy_ops s rid = None \<Longrightarrow> sy_ops s' rid = Some op \<Longrightarrow>
   so_base op = (\<lambda>p. dstate (sy_node s p) (so_ref op))"
  by (induction rule: sys_step.induct) (auto simp: newOp_def split: if_splits)

lemma new_base:
  assumes "sys_steps ord ids bp s s'" "inv c key ids s" "distinct ids"
    and p: "plan_col bp c = Some bc" "bc_Spec bc = P" "bc_Key bc = key"
    and "sy_ops s rid = None" "sy_ops s' rid = Some op" "dr_collection (so_ref op) = c" "q \<in> set ids"
  shows "vec.le (dstate (sy_node s q) (so_ref op)) (so_base op q)"
  using assms(1,2,7-)
proof (induction arbitrary: op rule: sys_steps.induct)
  case (ss_more s s' s'')
  note il = sys_steps_inv [OF ss_more(1) ss_more(4) assms(3) p]
  then have i': "inv c key ids s'" and l: "later c key ids s s'" by auto
  show ?case
  proof (cases "sy_ops s' rid")
    case None
    from step_new_op [OF ss_more(2) None ss_more(6)]
    have b: "so_base op = (\<lambda>p. dstate (sy_node s' p) (so_ref op))" .
    show ?thesis unfolding b using l ss_more(7,8) unfolding later_def advances_def by blast
  next
    case (Some o1)
    from sys_step_inv [OF ss_more(2) i' assms(3) refl p] have "later c key ids s' s''" by blast
    then obtain o2 where "sy_ops s'' rid = Some o2" "same_op o1 o2" using Some unfolding later_def by blast
    with ss_more(6) have "same_op o1 op" by simp
    with ss_more.IH [OF ss_more(4,5) Some] ss_more(7,8) show ?thesis by (simp add: same_op_def)
  qed
qed simp

text \<open>The holders of a finished phase are a quorum.\<close>

lemma finished_quorum:
  assumes "inv c key ids s" "sy_ops s rid = Some op" "so_turn op = Finished"
    and "distinct ids" "length ids < 2 ^ 53" "1 / 2 \<le> so_ratio op"
  shows "holders_quorum (set ids) (insert (so_node op) (so_acks op))"
proof -
  have sh: "so_node op \<in> set ids" "so_acks op \<subseteq> set ids - {so_node op}" "so_count op = card (so_acks op)"
    "reached (length ids) (so_count op) (so_ratio op)"
    using op_get [OF assms(1,2)] assms(3) by (auto simp: op_ok_def op_shape_def)
  have "finite (so_acks op)" using sh(2) finite_subset by blast
  then have "card (insert (so_node op) (so_acks op)) - 1 = so_count op" using sh(2,3) by (simp add: card_insert_if) blast
  with sh assms(4-6) show ?thesis by (auto simp: holders_quorum_def distinct_card)
qed

text \<open>A write that returned is stored at all its holders, and stays so.\<close>

lemma write_stored:
  assumes "inv c key ids s" "sy_ops s rid = Some op" "\<not> so_pull op" "dr_collection (so_ref op) = c"
    and "p \<in> insert (so_node op) (so_acks op)"
  shows "vec.le (so_base op (so_node op)) (dstate (sy_node s p) (so_ref op))"
  using op_get [OF assms(1,2)] assms(3-) by (auto simp: op_ok_def op_shape_def vouched_def)

lemma read_gathers:
  assumes "inv c key ids s" "sy_ops s rid = Some op" "so_pull op" "dr_collection (so_ref op) = c"
    and "p \<in> insert (so_node op) (so_acks op)"
  shows "vec.le (so_base op p) (dstate (sy_node s (so_node op)) (so_ref op))"
  using op_get [OF assms(1,2)] assms(3-) by (auto simp: op_ok_def op_shape_def vouched_def)

lemma read_sees:
  assumes run: "sys_steps ord ids bp (sysInit ids) s0" "sys_steps ord ids bp s0 s1"
    and d: "distinct ids" "length ids < 2 ^ 53"
    and p: "plan_col bp c = Some bc" "bc_Spec bc = P" "bc_Key bc = key"
    and w: "sy_ops s0 rid = Some wr" "\<not> so_pull wr" "so_turn wr = Finished" "1 / 2 \<le> so_ratio wr"
    and r: "sy_ops s0 rid' = None" "sy_ops s1 rid' = Some rd" "so_pull rd" "so_turn rd = Finished" "1 / 2 \<le> so_ratio rd"
    and c: "so_ref rd = so_ref wr" "dr_collection (so_ref wr) = c"
  shows "vec.le (so_base wr (so_node wr)) (dstate (sy_node s1 (so_node rd)) (so_ref wr))"
proof -
  have i0: "inv c key ids s0" using sys_steps_inv [OF run(1) inv_init d(1) p] by blast
  have i1: "inv c key ids s1" using sys_steps_inv [OF run(2) i0 d(1) p] by blast
  have cr: "dr_collection (so_ref rd) = c" using c by simp
  obtain q where q: "q \<in> insert (so_node wr) (so_acks wr)" "q \<in> insert (so_node rd) (so_acks rd)"
    using sync.quorum_meet [OF finished_quorum [OF i0 w(1,3) d w(4)] finished_quorum [OF i1 r(2,4) d r(5)]] by blast
  have qi: "q \<in> set ids" using finished_quorum [OF i0 w(1,3) d w(4)] q(1) by (auto simp: holders_quorum_def)
  have a: "vec.le (so_base wr (so_node wr)) (dstate (sy_node s0 q) (so_ref wr))"
    by (rule write_stored [OF i0 w(1,2) c(2) q(1)])
  have b: "vec.le (dstate (sy_node s0 q) (so_ref wr)) (so_base rd q)"
    using new_base [OF run(2) i0 d(1) p r(1,2) cr qi] c(1) by simp
  have e: "vec.le (so_base rd q) (dstate (sy_node s1 (so_node rd)) (so_ref wr))"
    using read_gathers [OF i1 r(2,3) cr q(2)] c(1) by simp
  have A: "so_base wr (so_node wr) \<in> slots_in D" using op_base_in [OF i0 w(1) c(2) op_node_in [OF i0 w(1)]] .
  have B: "dstate (sy_node s0 q) (so_ref wr) \<in> slots_in D"
    using dstate_in c(2) inv_node [OF i0 qi] by blast
  have C: "so_base rd q \<in> slots_in D" using op_base_in [OF i1 r(2) cr qi] .
  have E: "dstate (sy_node s1 (so_node rd)) (so_ref wr) \<in> slots_in D"
    using dstate_in c(2) inv_node [OF i1 op_node_in [OF i1 r(2)]] by blast
  show ?thesis by (rule vec.le_trans [OF A C E vec.le_trans [OF A B C a b] e])
qed

lemma write_durable:
  assumes run: "sys_steps ord ids bp (sysInit ids) s0" "sys_steps ord ids bp s0 s1"
    and d: "distinct ids" "length ids < 2 ^ 53"
    and p: "plan_col bp c = Some bc" "bc_Spec bc = P" "bc_Key bc = key"
    and w: "sy_ops s0 rid = Some wr" "\<not> so_pull wr" "so_turn wr = Finished" "1 / 2 \<le> so_ratio wr"
    and c: "dr_collection (so_ref wr) = c"
  shows "\<exists>Q. Q \<subseteq> set ids \<and> length ids < 2 * card Q \<and>
    (\<forall>q \<in> Q. vec.le (so_base wr (so_node wr)) (dstate (sy_node s1 q) (so_ref wr)))"
proof (intro exI conjI ballI)
  let ?Q = "insert (so_node wr) (so_acks wr)"
  have i0: "inv c key ids s0" using sys_steps_inv [OF run(1) inv_init d(1) p] by blast
  have l: "later c key ids s0 s1" using sys_steps_inv [OF run(2) i0 d(1) p] by blast
  note hq = finished_quorum [OF i0 w(1,3) d w(4)]
  show Q: "?Q \<subseteq> set ids" using hq by (simp add: holders_quorum_def)
  then have f: "finite ?Q" by (rule finite_subset) simp
  then have "0 < card ?Q" by (simp add: card_gt_0_iff)
  moreover have "card ?Q \<le> length ids" using card_mono [OF _ Q] d(1) by (simp add: distinct_card)
  moreover obtain r where "reached (length ids) (card ?Q - 1) r" "1 / 2 \<le> r"
    using hq d(1) by (auto simp: holders_quorum_def distinct_card)
  ultimately show "length ids < 2 * card ?Q" using reached_majority [of "length ids" "card ?Q - 1" r] d(2) by simp
  fix q assume q: "q \<in> ?Q"
  have b: "so_base wr (so_node wr) \<in> slots_in D" using op_base_in [OF i0 w(1) c op_node_in [OF i0 w(1)]] .
  show "vec.le (so_base wr (so_node wr)) (dstate (sy_node s1 q) (so_ref wr))"
    using later_le [OF i0 l _ c b write_stored [OF i0 w(1,2) c q]] q Q by blast
qed

text \<open>The order of vectors, slot by slot.\<close>

lemma read_sees_slot:
  assumes run: "sys_steps ord ids bp (sysInit ids) s0" "sys_steps ord ids bp s0 s1"
    and d: "distinct ids" "length ids < 2 ^ 53"
    and p: "plan_col bp c = Some bc" "bc_Spec bc = P" "bc_Key bc = key"
    and w: "sy_ops s0 rid = Some wr" "\<not> so_pull wr" "so_turn wr = Finished" "1 / 2 \<le> so_ratio wr"
    and r: "sy_ops s0 rid' = None" "sy_ops s1 rid' = Some rd" "so_pull rd" "so_turn rd = Finished" "1 / 2 \<le> so_ratio rd"
    and c: "so_ref rd = so_ref wr" "dr_collection (so_ref wr) = c"
    and k: "map_of (so_base wr (so_node wr)) k = Some a"
  shows "\<exists>b. map_of (dstate (sy_node s1 (so_node rd)) (so_ref wr)) k = Some b \<and> J a b = b"
proof -
  have i0: "inv c key ids s0" using sys_steps_inv [OF run(1) inv_init d(1) p] by blast
  have i1: "inv c key ids s1" using sys_steps_inv [OF run(2) i0 d(1) p] by blast
  have A: "so_base wr (so_node wr) \<in> slots_in D" using op_base_in [OF i0 w(1) c(2) op_node_in [OF i0 w(1)]] .
  have E: "dstate (sy_node s1 (so_node rd)) (so_ref wr) \<in> slots_in D"
    using dstate_in c(2) inv_node [OF i1 op_node_in [OF i1 r(2)]] by blast
  from le_slots [OF read_sees [OF run d p w r c] A E k] show ?thesis by (auto simp: le_def)
qed

lemma write_durable_slot:
  assumes run: "sys_steps ord ids bp (sysInit ids) s0" "sys_steps ord ids bp s0 s1"
    and d: "distinct ids" "length ids < 2 ^ 53"
    and p: "plan_col bp c = Some bc" "bc_Spec bc = P" "bc_Key bc = key"
    and w: "sy_ops s0 rid = Some wr" "\<not> so_pull wr" "so_turn wr = Finished" "1 / 2 \<le> so_ratio wr"
    and c: "dr_collection (so_ref wr) = c" and k: "map_of (so_base wr (so_node wr)) k = Some a"
  shows "\<exists>Q. Q \<subseteq> set ids \<and> length ids < 2 * card Q \<and>
    (\<forall>q \<in> Q. \<exists>b. map_of (dstate (sy_node s1 q) (so_ref wr)) k = Some b \<and> J a b = b)"
proof -
  have i0: "inv c key ids s0" using sys_steps_inv [OF run(1) inv_init d(1) p] by blast
  have i1: "inv c key ids s1" using sys_steps_inv [OF run(2) i0 d(1) p] by blast
  have A: "so_base wr (so_node wr) \<in> slots_in D" using op_base_in [OF i0 w(1) c op_node_in [OF i0 w(1)]] .
  obtain Q where Q: "Q \<subseteq> set ids" "length ids < 2 * card Q"
    "\<forall>q \<in> Q. vec.le (so_base wr (so_node wr)) (dstate (sy_node s1 q) (so_ref wr))"
    using write_durable [OF run d p w c] by blast
  have "\<exists>b. map_of (dstate (sy_node s1 q) (so_ref wr)) k = Some b \<and> J a b = b" if "q \<in> Q" for q
  proof -
    have "dstate (sy_node s1 q) (so_ref wr) \<in> slots_in D"
      using dstate_in c inv_node [OF i1] Q(1) that by blast
    from le_slots [OF _ A this k] Q(3) that show ?thesis by (auto simp: le_def)
  qed
  with Q show ?thesis by blast
qed

end

end
