(* ===== verification/SyncDemo.thy ===== *)
theory SyncDemo
  imports SyncRead
begin

text \<open>
  The promises of SyncRead.thy as properties, and a run of a two-node cluster in which their
  hypotheses hold: deployment, an update, a push to a quorum, and a pull at the other node.
\<close>

definition demoPlan :: builtPlan where
  "demoPlan = \<lparr> bp_Models = [(''T'', counter)], bp_Functions = mo_Funcs counter,
     bp_Collections = [\<lparr> bc_Name = ''C'', bc_Key = None, bc_Spec = counter \<rparr>], bp_Fingerprint = ''f'' \<rparr>"

abbreviation demoRef :: documentRef where
  "demoRef \<equiv> \<lparr> dr_collection = ''C'', dr_document = [] \<rparr>"

definition demoNode :: "string \<Rightarrow> string \<Rightarrow> rtVal gomap \<Rightarrow> 64 word \<Rightarrow> pendingReq gomap \<Rightarrow> string node" where
  "demoNode i j st sq pend =
     \<lparr> n_id = i, n_ready = True, n_fingerprint = ''f'', n_peers = [j], n_peerByID = [(j, j)],
       n_collections = [(''C'', \<lparr> cs_spec = counter, cs_key = None,
          cs_docs = [([], (New counter i)\<lparr>v_state := st\<rparr>)] \<rparr>)],
       n_reqSeq = sq, n_pending = pend \<rparr>"

definition demoSlots :: "rtVal gomap" where
  "demoSlots = [(''a'', VNum 3)]"

definition demoWire :: "slotWire gomap" where
  "demoWire = [(''a'', SlotWire (RatString 3) None None)]"

lemma demo_init:
  "Initialize (meshNode [''a'', ''b''] ''a'') demoPlan = demoNode ''a'' ''b'' [] 0 []"
  "Initialize (meshNode [''a'', ''b''] ''b'') demoPlan = demoNode ''b'' ''a'' [] 0 []"
  by (simp_all add: meshNode_def AddPeer_def node_New_def Initialize_def newCol_def demoPlan_def demoNode_def
      New_def NewVector_def)

lemma demo_resolve: "resolveDocument (demoNode i j st sq pend) ''C'' [] = Inr demoRef"
  by (simp add: resolveDocument_def demoNode_def)

lemma demo_docs:
  "colOf (demoNode i j st sq pend) demoRef =
     Some \<lparr> cs_spec = counter, cs_key = None, cs_docs = [([], (New counter i)\<lparr>v_state := st\<rparr>)] \<rparr>"
  "docOf (demoNode i j st sq pend) demoRef = Some ((New counter i)\<lparr>v_state := st\<rparr>)"
  "putDoc demoRef ((New counter i)\<lparr>v_state := st'\<rparr>) (demoNode i j st sq pend) = demoNode i j st' sq pend"
  by (simp_all add: demoNode_def colOf_def docOf_def putDoc_def)

lemma demo_apply:
  "ApplyDocument (\<lambda>m. m) (demoNode ''a'' ''b'' [] 0 []) ''C'' [] ''Add'' [GInt 3] = (demoNode ''a'' ''b'' demoSlots 0 [], None)"
proof -
  have e: "(New counter ''a'')\<lparr>v_state := []\<rparr> = New counter ''a''" by (simp add: New_def NewVector_def)
  have "Apply (\<lambda>m. m) ((New counter ''a'')\<lparr>v_state := []\<rparr>) ''Add'' [GInt 3] = ((New counter ''a'')\<lparr>v_state := demoSlots\<rparr>, None)"
    unfolding e demoSlots_def using counter_a_Apply by (simp add: counter_a_def)
  then show ?thesis
    by (simp add: ApplyDocument_def demo_resolve apply_ref_def onDocument_def demo_docs inPlace_def)
qed

lemma demo_good: "counter.good_doc i ((New counter i)\<lparr>v_state := demoSlots\<rparr>)"
  "counter.good_doc i ((New counter i)\<lparr>v_state := []\<rparr>)"
  using counter_conforming counter.conforming_slots
  by (simp_all add: counter.good_doc_def replica_of_update replica_of_New demoSlots_def)

lemma demo_wire: "SnapshotWire ((New counter i)\<lparr>v_state := demoSlots\<rparr>) = Inr demoWire"
  by (simp add: SnapshotWire_def demoSlots_def demoWire_def)

lemma demo_means: "counter.wire_means demoWire demoSlots"
  using counter.wire_SnapshotWire [OF demo_good(1) demo_wire] by simp

lemma demo_join: "vjoin maxVal [] demoSlots = demoSlots" "vjoin maxVal demoSlots demoSlots = demoSlots"
  by (simp_all add: vjoin_def demoSlots_def)

lemma demo_merge:
  assumes "st = [] \<or> st = demoSlots"
  shows "mergeCollection (\<lambda>m. m) (\<lambda>m. m) (demoNode i j st sq pend) demoRef demoWire = (demoNode i j demoSlots sq pend, None)"
proof -
  have g: "counter.good_doc i ((New counter i)\<lparr>v_state := st\<rparr>)" using assms demo_good by auto
  have "MergeWire (\<lambda>m. m) (\<lambda>m. m) ((New counter i)\<lparr>v_state := st\<rparr>) demoWire = ((New counter i)\<lparr>v_state := demoSlots\<rparr>, None)"
    using counter.MergeWire_means [OF g demo_means range_order_id(1)] assms demo_join by auto
  then show ?thesis
    by (simp add: mergeCollection_def demo_docs onDocument_def inPlace_def)
qed

text \<open>The two phases: the messages, the pending requests and the acks.\<close>

abbreviation demoPending :: "string \<Rightarrow> syncAckMsg list \<Rightarrow> unit gomap \<Rightarrow> pendingReq gomap" where
  "demoPending rid ch seen \<equiv> [(rid, \<lparr> pr_ch = ch, pr_cap = 1, pr_seen = seen, pr_document = [] \<rparr>)]"

definition demoPush :: syncPushMsg where
  "demoPush = \<lparr> pu_FromID = ''a'', pu_ReqID = ''a-1'', pu_Collection = ''C'', pu_Document = [],
     pu_Fingerprint = ''f'', pu_Snapshot = demoWire \<rparr>"

definition demoPull :: syncPullMsg where
  "demoPull = \<lparr> pq_FromID = ''b'', pq_ReqID = ''b-1'', pq_Collection = ''C'', pq_Document = [], pq_Fingerprint = ''f'' \<rparr>"

definition demoAck1 :: syncAckMsg where
  "demoAck1 = \<lparr> ak_FromID = ''b'', ak_ReqID = ''a-1'', ak_Document = [], ak_Snapshot = [] \<rparr>"

definition demoAck2 :: syncAckMsg where
  "demoAck2 = \<lparr> ak_FromID = ''a'', ak_ReqID = ''b-1'', ak_Document = [], ak_Snapshot = demoWire \<rparr>"

lemma demo_reached: "reached 2 1 (1 / 2)" "\<not> reached 2 0 (1 / 2)"
  using reached_half_iff [of 1 2] reached_half_iff [of 0 2] by simp_all

lemma demo_size: "clusterSize (demoNode i j st sq pend) = 2"
  by (simp add: clusterSize_def demoNode_def)

lemma nat_String_1: "nat_String 1 = ''1''"
  by code_simp

lemma demo_push:
  "pushStart (demoNode ''a'' ''b'' demoSlots 0 []) demoRef (1 / 2) =
     Inr (demoNode ''a'' ''b'' demoSlots 1 (demoPending ''a-1'' [] []), [(''b'', SyncPush demoPush)], Some ''a-1'')"
  using demo_wire [of "''a''"] nat_String_1
  by (simp add: pushStart_def demo_size demo_reached snapshotCollection_def demo_docs nextReqID_def Let_def
      register_req_def broadcast_def demoPush_def) (simp add: demoNode_def)

lemma demo_push_handled:
  "handleMsg (\<lambda>m. m) (\<lambda>m. m) (\<lambda>m. m) (\<lambda>m. m) (demoNode ''b'' ''a'' [] 0 []) (SyncPush demoPush) =
     Inr (demoNode ''b'' ''a'' demoSlots 0 [], [(''a'', SyncAck demoAck1)])"
  using demo_merge [of "[]" "''b''" "''a''" 0 "[]"]
  by (simp add: handleMsg_def handleSyncPush_def demoPush_def demo_resolve fingerprintMatches_def routeAck_def demoAck1_def)
    (simp add: demoNode_def)

lemma demo_ack_handled:
  "handleMsg (\<lambda>m. m) (\<lambda>m. m) (\<lambda>m. m) (\<lambda>m. m)
     (demoNode ''a'' ''b'' demoSlots 1 (demoPending ''a-1'' [] [])) (SyncAck demoAck1) =
     Inr (demoNode ''a'' ''b'' demoSlots 1 (demoPending ''a-1'' [demoAck1] [(''b'', ())]), [])"
  "handleMsg (\<lambda>m. m) (\<lambda>m. m) (\<lambda>m. m) (\<lambda>m. m)
     (demoNode ''b'' ''a'' demoSlots 1 (demoPending ''b-1'' [] [])) (SyncAck demoAck2) =
     Inr (demoNode ''b'' ''a'' demoSlots 1 (demoPending ''b-1'' [demoAck2] [(''a'', ())]), [])"
  by (simp_all add: handleMsg_def handleSyncAck_def demoNode_def demoAck1_def demoAck2_def Let_def)

lemma demo_pull:
  "pullStart (demoNode ''b'' ''a'' demoSlots 0 []) demoRef (1 / 2) =
     (demoNode ''b'' ''a'' demoSlots 1 (demoPending ''b-1'' [] []), [(''a'', SyncPull demoPull)], Some ''b-1'')"
  using nat_String_1
  by (simp add: pullStart_def demo_size demo_reached nextReqID_def Let_def register_req_def broadcast_def demoPull_def)
    (simp add: demoNode_def)

lemma demo_pull_handled:
  "handleMsg (\<lambda>m. m) (\<lambda>m. m) (\<lambda>m. m) (\<lambda>m. m) (demoNode ''a'' ''b'' demoSlots 1 pend) (SyncPull demoPull) =
     Inr (demoNode ''a'' ''b'' demoSlots 1 pend, [(''b'', SyncAck demoAck2)])"
  using demo_wire [of "''a''"]
  by (simp add: handleMsg_def handleSyncPull_def demoPull_def demo_resolve snapshotCollection_def demo_docs
      fingerprintMatches_def routeAck_def demoAck2_def) (simp add: demoNode_def)

lemma demo_col: "plan_col demoPlan ''C'' = Some \<lparr> bc_Name = ''C'', bc_Key = None, bc_Spec = counter \<rparr>"
  by (simp add: plan_col_def demoPlan_def)

text \<open>The run.\<close>

abbreviation demoIds :: "string list" where
  "demoIds \<equiv> [''a'', ''b'']"

definition demoBase :: "string \<Rightarrow> rtVal gomap" where
  "demoBase p = (if p = ''a'' then demoSlots else [])"

lemma demo_dstate: "dstate (demoNode i j st sq pend) demoRef = st"
  by (simp add: dstate_def demo_docs)

lemma demo_write:
  "\<exists>s wr. sys_steps (\<lambda>m. m) demoIds demoPlan (sysInit demoIds) s \<and> sy_ops s = [''a-1'' \<mapsto> wr] \<and>
     sy_node s ''a'' = demoNode ''a'' ''b'' demoSlots 1 (demoPending ''a-1'' [] [(''b'', ())]) \<and>
     sy_node s ''b'' = demoNode ''b'' ''a'' demoSlots 0 [] \<and>
     \<not> so_pull wr \<and> so_turn wr = Finished \<and> so_ratio wr = 1 / 2 \<and> so_ref wr = demoRef \<and> so_node wr = ''a'' \<and>
     so_base wr ''a'' = demoSlots"
proof -
  let ?R = "sys_steps (\<lambda>m. m) demoIds demoPlan (sysInit demoIds)"
  define s1 where "s1 = emit (PropagatePlan (meshNode demoIds ''a'') demoPlan)
    (setNode ''a'' (Initialize (meshNode demoIds ''a'') demoPlan) (sysInit demoIds))"
  define s2 where "s2 = emit (PropagatePlan (meshNode demoIds ''b'') demoPlan)
    (setNode ''b'' (Initialize (meshNode demoIds ''b'') demoPlan) s1)"
  define s3 where "s3 = setNode ''a'' (demoNode ''a'' ''b'' demoSlots 0 []) s2"
  define wr where "wr = newOp ''a'' False demoRef (1 / 2) s3"
  define s4 where "s4 = setOp ''a-1'' wr (emit [(''b'', SyncPush demoPush)]
    (setNode ''a'' (demoNode ''a'' ''b'' demoSlots 1 (demoPending ''a-1'' [] [])) s3))"
  define s5 where "s5 = emit [(''a'', SyncAck demoAck1)] (setNode ''b'' (demoNode ''b'' ''a'' demoSlots 0 []) s4)"
  define s6 where "s6 = emit [] (setNode ''a'' (demoNode ''a'' ''b'' demoSlots 1 (demoPending ''a-1'' [demoAck1] [(''b'', ())])) s5)"
  define s7 where "s7 = setOp ''a-1'' (counted wr ''b'' 1 Finished)
    (setNode ''a'' (demoNode ''a'' ''b'' demoSlots 1 (demoPending ''a-1'' [] [(''b'', ())])) s6)"
  note defs = s1_def s2_def s3_def s4_def s5_def s6_def s7_def
  have r1: "?R s1"
    unfolding s1_def by (rule ss_more [OF ss_none st_deploy]) (simp_all add: sysInit_def)
  have r2: "?R s2"
    unfolding s2_def by (rule ss_more [OF r1 st_deploy]) (simp_all add: s1_def sysInit_def)
  have n2: "sy_node s2 ''a'' = demoNode ''a'' ''b'' [] 0 []" "sy_node s2 ''b'' = demoNode ''b'' ''a'' [] 0 []"
    by (simp_all add: s1_def s2_def demo_init)
  have r3: "?R s3"
    unfolding s3_def by (rule ss_more [OF r2 st_apply [OF _ _ demo_apply]]) (simp_all add: n2)
  have r4: "?R s4"
    unfolding s4_def wr_def
    by (rule ss_more [OF r3 st_push [OF _ _ _ demo_resolve demo_push]]) (simp_all add: s3_def demoNode_def)
  have r5: "?R s5"
    unfolding s5_def
    by (rule ss_more [OF r4 st_deliver [OF _ _ _ range_order_id(1) range_order_id(1) range_order_id(1) demo_push_handled]])
      (simp_all add: s4_def s3_def n2)
  have r6: "?R s6"
    unfolding s6_def
    by (rule ss_more [OF r5 st_deliver [OF _ _ _ range_order_id(1) range_order_id(1) range_order_id(1) demo_ack_handled(1)]])
      (simp_all add: s5_def s4_def)
  let ?n6 = "demoNode ''a'' ''b'' demoSlots 1 (demoPending ''a-1'' [demoAck1] [(''b'', ())])"
  let ?n7 = "demoNode ''a'' ''b'' demoSlots 1 (demoPending ''a-1'' [] [(''b'', ())])"
  have w: "so_node wr = ''a''" "so_ratio wr = 1 / 2" "so_count wr = 0" "so_turn wr = Waiting" "\<not> so_pull wr" "so_ref wr = demoRef"
    by (simp_all add: wr_def newOp_def)
  have pop: "popAck ?n6 ''a-1'' = Some (demoAck1, ?n7)" by (simp add: popAck_def demoNode_def)
  have f: "ak_FromID demoAck1 = ''b''" by (simp add: demoAck1_def)
  have r7: "?R s7"
    unfolding s7_def
  proof (rule ss_more [OF r6], rule st_collect [of s6 "''a-1''" wr ?n6 "\<lambda>m. m" demoAck1 ?n7 _ ?n7 1 Finished, unfolded w(1) f])
    show "collectAck (onAck (\<lambda>m. m) (\<lambda>m. m) wr) ?n6 ''a-1'' (so_ratio wr) (so_count wr) = Some (?n7, 1, Finished)"
      unfolding collectAck_def pop by (simp add: onAck_def w pushAck_def demo_size demo_reached [simplified])
  qed (simp_all add: s6_def s5_def s4_def w pop [simplified] range_order_id)
  have "so_base wr ''a'' = demoSlots" by (simp add: wr_def newOp_def s3_def demo_dstate)
  then have "so_base (counted wr ''b'' 1 Finished) ''a'' = demoSlots" by (simp add: counted_def)
  with r7 w n2 show ?thesis
    by (intro exI [of _ s7] exI [of _ "counted wr ''b'' 1 Finished"])
      (simp add: defs counted_def sysInit_def fun_eq_iff)
qed

lemma demo_read:
  assumes s: "sy_ops s = [''a-1'' \<mapsto> wr]" 
    "sy_node s ''a'' = demoNode ''a'' ''b'' demoSlots 1 pend" "sy_node s ''b'' = demoNode ''b'' ''a'' demoSlots 0 []"
  shows "\<exists>s' rd. sys_steps (\<lambda>m. m) demoIds demoPlan s s' \<and> sy_ops s' ''b-1'' = Some rd \<and>
     so_pull rd \<and> so_turn rd = Finished \<and> so_ratio rd = 1 / 2 \<and> so_ref rd = demoRef"
proof -
  let ?R = "sys_steps (\<lambda>m. m) demoIds demoPlan s"
  define rd where "rd = newOp ''b'' True demoRef (1 / 2) s"
  define s4 where "s4 = setOp ''b-1'' rd (emit [(''a'', SyncPull demoPull)]
    (setNode ''b'' (demoNode ''b'' ''a'' demoSlots 1 (demoPending ''b-1'' [] [])) s))"
  define s5 where "s5 = emit [(''b'', SyncAck demoAck2)] (setNode ''a'' (demoNode ''a'' ''b'' demoSlots 1 pend) s4)"
  define s6 where "s6 = emit [] (setNode ''b'' (demoNode ''b'' ''a'' demoSlots 1 (demoPending ''b-1'' [demoAck2] [(''a'', ())])) s5)"
  let ?n6 = "demoNode ''b'' ''a'' demoSlots 1 (demoPending ''b-1'' [demoAck2] [(''a'', ())])"
  let ?n7 = "demoNode ''b'' ''a'' demoSlots 1 (demoPending ''b-1'' [] [(''a'', ())])"
  define s7 where "s7 = setOp ''b-1'' (counted rd ''a'' 1 Finished) (setNode ''b'' ?n7 s6)"
  have r4: "?R s4"
    unfolding s4_def rd_def
    by (rule ss_more [OF ss_none st_pull [OF _ _ _ demo_resolve demo_pull]]) (simp_all add: s demoNode_def)
  have r5: "?R s5"
    unfolding s5_def
    by (rule ss_more [OF r4 st_deliver [OF _ _ _ range_order_id(1) range_order_id(1) range_order_id(1) demo_pull_handled]])
      (simp_all add: s4_def s)
  have r6: "?R s6"
    unfolding s6_def
    by (rule ss_more [OF r5 st_deliver [OF _ _ _ range_order_id(1) range_order_id(1) range_order_id(1) demo_ack_handled(2)]])
      (simp_all add: s5_def s4_def)
  have w: "so_node rd = ''b''" "so_ratio rd = 1 / 2" "so_count rd = 0" "so_turn rd = Waiting" "so_pull rd" "so_ref rd = demoRef"
    by (simp_all add: rd_def newOp_def)
  have pop: "popAck ?n6 ''b-1'' = Some (demoAck2, ?n7)" by (simp add: popAck_def demoNode_def)
  have f: "ak_FromID demoAck2 = ''a''" "ak_Snapshot demoAck2 = demoWire" by (simp_all add: demoAck2_def)
  have m: "mergeCollection (\<lambda>m. m) (\<lambda>m. m) ?n7 demoRef demoWire = (?n7, None)" by (rule demo_merge) simp
  have oa: "onAck (\<lambda>m. m) (\<lambda>m. m) rd ?n7 demoAck2 = (?n7, None)"
    unfolding onAck_def pullAck_def w f using w(5) m [simplified] by (simp add: f)
  have r7: "?R s7"
    unfolding s7_def
  proof (rule ss_more [OF r6], rule st_collect [of s6 "''b-1''" rd ?n6 "\<lambda>m. m" demoAck2 ?n7 _ ?n7 1 Finished, unfolded w(1) f])
    show "collectAck (onAck (\<lambda>m. m) (\<lambda>m. m) rd) ?n6 ''b-1'' (so_ratio rd) (so_count rd) = Some (?n7, 1, Finished)"
      unfolding collectAck_def pop by (simp add: oa [simplified] demo_size w demo_reached [simplified])
  qed (simp_all add: s6_def s5_def s4_def w pop [simplified] range_order_id)
  with w show ?thesis
    by (intro exI [of _ s7] exI [of _ "counted rd ''a'' 1 Finished"]) (simp add: s7_def counted_def)
qed

lemma demo_run:
  "\<exists>s0 s1 wr rd. sys_steps (\<lambda>m. m) demoIds demoPlan (sysInit demoIds) s0 \<and> sys_steps (\<lambda>m. m) demoIds demoPlan s0 s1 \<and>
     sy_ops s0 ''a-1'' = Some wr \<and> \<not> so_pull wr \<and> so_turn wr = Finished \<and> so_ratio wr = 1 / 2 \<and>
     so_ref wr = demoRef \<and> so_node wr = ''a'' \<and> so_base wr ''a'' = demoSlots \<and>
     sy_ops s0 ''b-1'' = None \<and> sy_ops s1 ''b-1'' = Some rd \<and> so_pull rd \<and> so_turn rd = Finished \<and>
     so_ratio rd = 1 / 2 \<and> so_ref rd = demoRef"
proof -
  obtain s0 wr where a: "sys_steps (\<lambda>m. m) demoIds demoPlan (sysInit demoIds) s0" "sy_ops s0 = [''a-1'' \<mapsto> wr]"
    "sy_node s0 ''a'' = demoNode ''a'' ''b'' demoSlots 1 (demoPending ''a-1'' [] [(''b'', ())])"
    "sy_node s0 ''b'' = demoNode ''b'' ''a'' demoSlots 0 []"
    "\<not> so_pull wr" "so_turn wr = Finished" "so_ratio wr = 1 / 2" "so_ref wr = demoRef" "so_node wr = ''a''"
    "so_base wr ''a'' = demoSlots"
    using demo_write by blast
  obtain s1 rd where b: "sys_steps (\<lambda>m. m) demoIds demoPlan s0 s1" "sy_ops s1 ''b-1'' = Some rd"
    "so_pull rd" "so_turn rd = Finished" "so_ratio rd = 1 / 2" "so_ref rd = demoRef"
    using demo_read [OF a(2-4)] by blast
  from a(2) have "sy_ops s0 ''a-1'' = Some wr" "sy_ops s0 ''b-1'' = None" by simp_all
  with a b show ?thesis by blast
qed

text \<open>The properties.\<close>

text \<open>
  C28: a quorum read sees a quorum write. When a push phase of a document returned success, and a
  pull phase of the same document that starts afterwards, at any node, returns success too, then the
  reader's replica holds every value the writer's replica held when its push began, merged into
  whatever else arrived. This is for a conforming collection, ratios of at least one half and a
  cluster below two to the 53; in between and around, messages are lost, delayed, duplicated and
  reordered at will, the other nodes update, gossip, push and pull, and maps are iterated in any
  order.
\<close>

theorem quorum_read_sees_write:
  assumes "proved_type P ord fn J"
    and "sys_steps ord ids bp (sysInit ids) s0" "sys_steps ord ids bp s0 s1"
    and "distinct ids" "length ids < 2 ^ 53"
    and "plan_col bp (dr_collection (so_ref wr)) = Some bc" "bc_Spec bc = P"
    and "sy_ops s0 rid = Some wr" "\<not> so_pull wr" "so_turn wr = Finished" "1 / 2 \<le> so_ratio wr"
    and "sy_ops s0 rid' = None" "sy_ops s1 rid' = Some rd" "so_pull rd" "so_turn rd = Finished" "1 / 2 \<le> so_ratio rd"
    and "so_ref rd = so_ref wr" and "map_of (so_base wr (so_node wr)) k = Some a"
  shows "\<exists>b. map_of (dstate (sy_node s1 (so_node rd)) (so_ref wr)) k = Some b \<and> J a b = b"
  by (rule proved_type.read_sees_slot [OF assms(1-7) refl assms(8-17) refl assms(18)])

lemma quorum_read_sees_write_witness:
  "\<exists>s0 s1 rd b. sys_steps (\<lambda>m. m) demoIds demoPlan (sysInit demoIds) s0 \<and> sys_steps (\<lambda>m. m) demoIds demoPlan s0 s1 \<and>
     sy_ops s1 ''b-1'' = Some rd \<and> map_of (dstate (sy_node s1 (so_node rd)) demoRef) ''a'' = Some b \<and> maxVal (VNum 3) b = b"
proof -
  obtain s0 s1 wr rd where r: "sys_steps (\<lambda>m. m) demoIds demoPlan (sysInit demoIds) s0" "sys_steps (\<lambda>m. m) demoIds demoPlan s0 s1"
    and w: "sy_ops s0 ''a-1'' = Some wr" "\<not> so_pull wr" "so_turn wr = Finished" "so_ratio wr = 1 / 2"
      "so_ref wr = demoRef" "so_node wr = ''a''" "so_base wr ''a'' = demoSlots"
    and d: "sy_ops s0 ''b-1'' = None" "sy_ops s1 ''b-1'' = Some rd" "so_pull rd" "so_turn rd = Finished"
      "so_ratio rd = 1 / 2" "so_ref rd = demoRef"
    using demo_run by blast
  have "\<exists>b. map_of (dstate (sy_node s1 (so_node rd)) (so_ref wr)) ''a'' = Some b \<and> maxVal (VNum 3) b = b"
    by (rule quorum_read_sees_write [where bc = "\<lparr> bc_Name = ''C'', bc_Key = None, bc_Spec = counter \<rparr>",
          OF counter.proved_type_axioms r _ _ _ _ w(1-3) _ d(1-4)])
      (simp_all add: w d demo_col demoSlots_def)
  with r d(2) w(5) show ?thesis by auto
qed

text \<open>
  C29: a quorum write is durable. Once a push phase of a document returned success, from then on a
  strict majority of the nodes holds every value that was pushed, merged into whatever else arrived
  there, whatever messages and operations follow. This is for a conforming collection, a ratio of at
  least one half and a cluster below two to the 53.
\<close>

theorem quorum_write_durable:
  assumes "proved_type P ord fn J"
    and "sys_steps ord ids bp (sysInit ids) s0" "sys_steps ord ids bp s0 s1"
    and "distinct ids" "length ids < 2 ^ 53"
    and "plan_col bp (dr_collection (so_ref wr)) = Some bc" "bc_Spec bc = P"
    and "sy_ops s0 rid = Some wr" "\<not> so_pull wr" "so_turn wr = Finished" "1 / 2 \<le> so_ratio wr"
    and "map_of (so_base wr (so_node wr)) k = Some a"
  shows "\<exists>Q. Q \<subseteq> set ids \<and> length ids < 2 * card Q \<and>
    (\<forall>q \<in> Q. \<exists>b. map_of (dstate (sy_node s1 q) (so_ref wr)) k = Some b \<and> J a b = b)"
  by (rule proved_type.write_durable_slot [OF assms(1-7) refl assms(8-11) refl assms(12)])

lemma quorum_write_durable_witness:
  "\<exists>s Q. sys_steps (\<lambda>m. m) demoIds demoPlan (sysInit demoIds) s \<and> Q \<subseteq> set demoIds \<and> 2 < 2 * card Q \<and>
     Q \<subseteq> {q. \<exists>b. map_of (dstate (sy_node s q) demoRef) ''a'' = Some b \<and> maxVal (VNum 3) b = b}"
proof -
  obtain s0 s1 wr where r: "sys_steps (\<lambda>m. m) demoIds demoPlan (sysInit demoIds) s0"
    and w: "sy_ops s0 ''a-1'' = Some wr" "\<not> so_pull wr" "so_turn wr = Finished" "so_ratio wr = 1 / 2"
      "so_ref wr = demoRef" "so_node wr = ''a''" "so_base wr ''a'' = demoSlots"
    using demo_run by blast
  have "\<exists>Q. Q \<subseteq> set demoIds \<and> length demoIds < 2 * card Q \<and>
    (\<forall>q \<in> Q. \<exists>b. map_of (dstate (sy_node s0 q) (so_ref wr)) ''a'' = Some b \<and> maxVal (VNum 3) b = b)"
    by (rule quorum_write_durable [where bc = "\<lparr> bc_Name = ''C'', bc_Key = None, bc_Spec = counter \<rparr>",
          OF counter.proved_type_axioms r ss_none _ _ _ _ w(1-3)])
      (simp_all add: w demo_col demoSlots_def)
  then obtain Q where Q: "Q \<subseteq> set demoIds" "2 < 2 * card Q"
    "\<forall>q \<in> Q. \<exists>b. map_of (dstate (sy_node s0 q) demoRef) ''a'' = Some b \<and> maxVal (VNum 3) b = b"
    using w(5) by auto
  with r show ?thesis by blast
qed

end
