(* ===== verification/NodeSync.thy ===== *)
theory NodeSync
  imports SyncDemo
begin

text \<open>
  node/node.go, the synchronous calls: \<open>applySync\<close> and \<open>querySync\<close> as what they do up to the next wait
  for acks. A call that waits is resumed with the outcome of the wait: the ratio was reached, or the
  time was up. Then, for any sequence of calls, messages and acks: the channel of a pending request
  has room for every ack that counts.
\<close>

datatype syncCall =
    Replied "nodeErr + goAny option"
  | WriteWait string
  | GatherWait string
  | WriteBackWait string
  | Crashed rtErr

definition startPush ::
  "'p node \<Rightarrow> documentRef \<Rightarrow> rat \<Rightarrow> (string \<Rightarrow> syncCall) \<Rightarrow> ('p node \<Rightarrow> syncCall) \<Rightarrow> 'p node \<times> 'p sends \<times> syncCall"
where
  "startPush n ref ratio wait now =
     (case pushStart n ref ratio of
        Inl p \<Rightarrow> (n, [], Crashed p)
      | Inr (n', out, None) \<Rightarrow> (n', out, now n')
      | Inr (n', out, Some rid) \<Rightarrow> (n', out, wait rid))"

definition applySync ::
  "(rtVal gomap \<Rightarrow> rtVal gomap) \<Rightarrow> 'p node \<Rightarrow> documentRef \<Rightarrow> string \<Rightarrow> goAny list \<Rightarrow> rat \<Rightarrow> 'p node \<times> 'p sends \<times> syncCall"
where
  "applySync ord n ref act payload ratio =
     (case apply_ref ord n ref act payload of
        (n', Some e) \<Rightarrow> (n', [], Replied (Inl e))
      | (n', None) \<Rightarrow> startPush n' ref ratio WriteWait (\<lambda>_. Replied (Inr None)))"

definition answer ::
  "(rtVal gomap \<Rightarrow> rtVal gomap) \<Rightarrow> documentRef \<Rightarrow> string \<Rightarrow> goAny list \<Rightarrow> 'p node \<Rightarrow> syncCall"
where
  "answer ord ref query params n = Replied (rmap Some (query_ref ord n ref query params))"

definition writeBack ::
  "(rtVal gomap \<Rightarrow> rtVal gomap) \<Rightarrow> 'p node \<Rightarrow> documentRef \<Rightarrow> string \<Rightarrow> goAny list \<Rightarrow> rat \<Rightarrow> 'p node \<times> 'p sends \<times> syncCall"
where
  "writeBack ord n ref query params ratio = startPush n ref ratio WriteBackWait (answer ord ref query params)"

definition querySync ::
  "(rtVal gomap \<Rightarrow> rtVal gomap) \<Rightarrow> 'p node \<Rightarrow> documentRef \<Rightarrow> string \<Rightarrow> goAny list \<Rightarrow> rat \<Rightarrow> 'p node \<times> 'p sends \<times> syncCall"
where
  "querySync ord n ref query params ratio =
     (case validate_ref n ref query params of
        Inl e \<Rightarrow> (n, [], Replied (Inl e))
      | Inr _ \<Rightarrow>
          (case pullStart n ref ratio of
             (n', out, None) \<Rightarrow> writeBack ord n' ref query params ratio
           | (n', out, Some rid) \<Rightarrow> (n', out, GatherWait rid)))"

text \<open>The end of a wait: the deferred \<open>cancel\<close>, then the rest of the call.\<close>

definition resumeSync ::
  "(rtVal gomap \<Rightarrow> rtVal gomap) \<Rightarrow> 'p node \<Rightarrow> documentRef \<Rightarrow> string \<Rightarrow> goAny list \<Rightarrow> rat \<Rightarrow> syncCall \<Rightarrow> nodeErr option \<Rightarrow>
   'p node \<times> 'p sends \<times> syncCall"
where
  "resumeSync ord n ref query params ratio call res =
     (case (call, res) of
        (WriteWait rid, None) \<Rightarrow> (cancel n rid, [], Replied (Inr None))
      | (WriteWait rid, Some e) \<Rightarrow> (cancel n rid, [], Replied (Inl e))
      | (GatherWait rid, None) \<Rightarrow> writeBack ord (cancel n rid) ref query params ratio
      | (GatherWait rid, Some e) \<Rightarrow> (cancel n rid, [], Replied (Inl e))
      | (WriteBackWait rid, None) \<Rightarrow> (cancel n rid, [], answer ord ref query params (cancel n rid))
      | (WriteBackWait rid, Some e) \<Rightarrow> (cancel n rid, [], Replied (Inl e))
      | _ \<Rightarrow> (n, [], call))"

definition ApplySync ::
  "(rtVal gomap \<Rightarrow> rtVal gomap) \<Rightarrow> 'p node \<Rightarrow> string \<Rightarrow> string \<Rightarrow> goAny list \<Rightarrow> rat \<Rightarrow> 'p node \<times> 'p sends \<times> syncCall"
where
  "ApplySync ord n collection act payload ratio =
     (case resolveDocument n collection [] of
        Inl e \<Rightarrow> (n, [], Replied (Inl e))
      | Inr ref \<Rightarrow> applySync ord n ref act payload ratio)"

definition ApplyDocumentSync ::
  "(rtVal gomap \<Rightarrow> rtVal gomap) \<Rightarrow> 'p node \<Rightarrow> string \<Rightarrow> string \<Rightarrow> string \<Rightarrow> goAny list \<Rightarrow> rat \<Rightarrow> 'p node \<times> 'p sends \<times> syncCall"
where
  "ApplyDocumentSync ord n collection doc act payload ratio =
     (case resolveDocument n collection doc of
        Inl e \<Rightarrow> (n, [], Replied (Inl e))
      | Inr ref \<Rightarrow> applySync ord n ref act payload ratio)"

definition QuerySync ::
  "(rtVal gomap \<Rightarrow> rtVal gomap) \<Rightarrow> 'p node \<Rightarrow> string \<Rightarrow> string \<Rightarrow> goAny list \<Rightarrow> rat \<Rightarrow> 'p node \<times> 'p sends \<times> syncCall"
where
  "QuerySync ord n collection query params ratio =
     (case resolveDocument n collection [] of
        Inl e \<Rightarrow> (n, [], Replied (Inl e))
      | Inr ref \<Rightarrow> querySync ord n ref query params ratio)"

definition QueryDocumentSync ::
  "(rtVal gomap \<Rightarrow> rtVal gomap) \<Rightarrow> 'p node \<Rightarrow> string \<Rightarrow> string \<Rightarrow> string \<Rightarrow> goAny list \<Rightarrow> rat \<Rightarrow> 'p node \<times> 'p sends \<times> syncCall"
where
  "QueryDocumentSync ord n collection doc query params ratio =
     (case resolveDocument n collection doc of
        Inl e \<Rightarrow> (n, [], Replied (Inl e))
      | Inr ref \<Rightarrow> querySync ord n ref query params ratio)"

subsection \<open>Everything a started node does\<close>

inductive node_step :: "'p node \<Rightarrow> 'p node \<Rightarrow> bool" where
  ns_msg: "handleMsg ord lord cord dord n msg = Inr (n', out) \<Longrightarrow> node_step n n'"
| ns_apply: "ApplyDocument ord n col doc act ps = (n', e) \<Longrightarrow> node_step n n'"
| ns_write: "ApplyDocumentSync ord n col doc act ps ratio = (n', out, call) \<Longrightarrow> node_step n n'"
| ns_read: "QueryDocumentSync ord n col doc q ps ratio = (n', out, call) \<Longrightarrow> node_step n n'"
| ns_push_ack: "collectAck pushAck n rid ratio cnt = Some (n', cnt', t) \<Longrightarrow> node_step n n'"
| ns_pull_ack: "collectAck (pullAck ord lord ref) n rid ratio cnt = Some (n', cnt', t) \<Longrightarrow> node_step n n'"
| ns_resume: "resumeSync ord n ref q ps ratio call res = (n', out, call') \<Longrightarrow> node_step n n'"

inductive started :: "'p node \<Rightarrow> bool" where
  sd_new: "started (foldl (\<lambda>n (i, p). AddPeer n i p) (node_New i) peers)"
| sd_step: "started n \<Longrightarrow> node_step n n' \<Longrightarrow> started n'"

definition pend_wf :: "'p node \<Rightarrow> bool" where
  "pend_wf n \<longleftrightarrow>
     card (dom (map_of (n_peerByID n))) \<le> length (n_peers n) \<and> wfm (n_pending n) \<and>
     (\<forall>rid pr. map_of (n_pending n) rid = Some pr \<longrightarrow>
        pr_cap pr = length (n_peers n) \<and> length (pr_ch pr) \<le> card (dom (map_of (pr_seen pr))) \<and>
        dom (map_of (pr_seen pr)) \<subseteq> dom (map_of (n_peerByID n)))"

lemma AddPeer_room:
  assumes "pend_wf n" "n_pending n = []"
  shows "pend_wf (AddPeer n i p)" "n_pending (AddPeer n i p) = []"
proof -
  have "dom (map_of (mput i p (n_peerByID n))) = insert i (dom (map_of (n_peerByID n)))" by auto
  then have "card (dom (map_of (mput i p (n_peerByID n)))) \<le> Suc (card (dom (map_of (n_peerByID n))))"
    by (simp add: card_insert_if finite_dom_map_of)
  with assms show "pend_wf (AddPeer n i p)" "n_pending (AddPeer n i p) = []"
    unfolding pend_wf_def AddPeer_def by simp_all
qed

lemma pend_wf_New: "pend_wf (foldl (\<lambda>n (i, p). AddPeer n i p) (node_New i) peers)"
proof -
  have "pend_wf (foldl (\<lambda>n (i, p). AddPeer n i p) n peers)" if "pend_wf n" "n_pending n = []" for n
    using that by (induction peers arbitrary: n) (auto simp: AddPeer_room)
  moreover have "pend_wf (node_New i)" "n_pending (node_New i) = []" by (simp_all add: pend_wf_def node_New_def)
  ultimately show ?thesis by blast
qed

lemma pend_wf_frame: "pend_wf n \<Longrightarrow> same_frame n n' \<Longrightarrow> pend_wf n'"
  by (simp add: pend_wf_def same_frame_fields)

lemma pend_wf_put:
  assumes "pend_wf n" "pr_cap pr = length (n_peers n)" "length (pr_ch pr) \<le> card (dom (map_of (pr_seen pr)))"
    "dom (map_of (pr_seen pr)) \<subseteq> dom (map_of (n_peerByID n))"
  shows "pend_wf (n\<lparr>n_pending := mput rid pr (n_pending n)\<rparr>)"
  using assms by (simp add: pend_wf_def)

lemma pend_wf_seq: "pend_wf n \<Longrightarrow> pend_wf (n\<lparr>n_reqSeq := s\<rparr>)"
  by (simp add: pend_wf_def)

lemma pend_wf_cancel: "pend_wf n \<Longrightarrow> pend_wf (cancel n rid)"
  by (auto simp: pend_wf_def cancel_def split: if_splits)

lemma pend_wf_register: "pend_wf n \<Longrightarrow> pend_wf (register_req n rid d)"
  unfolding register_req_def by (rule pend_wf_put) simp_all

lemma pend_wf_nextReqID: "pend_wf n \<Longrightarrow> nextReqID n = (rid, n') \<Longrightarrow> pend_wf n'"
  by (auto simp: nextReqID_def Let_def pend_wf_seq)

lemma pend_wf_pushStart: "pend_wf n \<Longrightarrow> pushStart n ref ratio = Inr (n', out, r) \<Longrightarrow> pend_wf n'"
  using pend_wf_nextReqID [of n "fst (nextReqID n)" "snd (nextReqID n)"]
  by (auto simp: pushStart_def Let_def case_prod_beta split: if_splits intro: pend_wf_register)

lemma pend_wf_pullStart: "pend_wf n \<Longrightarrow> pullStart n ref ratio = (n', out, r) \<Longrightarrow> pend_wf n'"
  using pend_wf_nextReqID [of n "fst (nextReqID n)" "snd (nextReqID n)"]
  by (auto simp: pullStart_def Let_def case_prod_beta split: if_splits intro: pend_wf_register)

lemma pend_wf_startPush: "pend_wf n \<Longrightarrow> startPush n ref ratio w now = (n', out, c) \<Longrightarrow> pend_wf n'"
  by (auto simp: startPush_def split: sum.splits prod.splits option.splits intro: pend_wf_pushStart)

lemma pend_wf_apply_ref: "pend_wf n \<Longrightarrow> apply_ref ord n ref act ps = (n', e) \<Longrightarrow> pend_wf n'"
  using pend_wf_frame same_frame_onDocument unfolding apply_ref_def by (metis fst_conv)

lemma pend_wf_mergeCollection: "pend_wf n \<Longrightarrow> mergeCollection ord lord n ref w = (n', e) \<Longrightarrow> pend_wf n'"
  using pend_wf_frame same_frame_mergeCollection by (metis fst_conv)

lemma ack_room:
  assumes "pend_wf n" "map_of (n_pending n) rid = Some pr" "map_of (n_peerByID n) i \<noteq> None" "map_of (pr_seen pr) i = None"
  shows "length (pr_ch pr) < pr_cap pr" "Suc (length (pr_ch pr)) \<le> card (insert i (dom (map_of (pr_seen pr))))"
proof -
  have p: "pr_cap pr = length (n_peers n)" "length (pr_ch pr) \<le> card (dom (map_of (pr_seen pr)))"
    "dom (map_of (pr_seen pr)) \<subseteq> dom (map_of (n_peerByID n))" "card (dom (map_of (n_peerByID n))) \<le> length (n_peers n)"
    using assms(1,2) by (auto simp: pend_wf_def)
  have "insert i (dom (map_of (pr_seen pr))) \<subseteq> dom (map_of (n_peerByID n))" using assms(3) p(3) by auto
  from card_mono [OF finite_dom_map_of this]
  have c: "card (insert i (dom (map_of (pr_seen pr)))) \<le> length (n_peers n)" using p(4) by simp
  have i: "card (insert i (dom (map_of (pr_seen pr)))) = Suc (card (dom (map_of (pr_seen pr))))"
    using assms(4) by (simp add: card_insert_if finite_dom_map_of domIff)
  show "length (pr_ch pr) < pr_cap pr" "Suc (length (pr_ch pr)) \<le> card (insert i (dom (map_of (pr_seen pr))))"
    using c i p by simp_all
qed

lemma ack_kept:
  assumes "pend_wf n" "map_of (n_pending n) (ak_ReqID m) = Some pr" "map_of (n_peerByID n) (ak_FromID m) \<noteq> None"
    and "map_of (pr_seen pr) (ak_FromID m) = None" "ak_Document m = pr_document pr"
  shows "handleSyncAck n m = n\<lparr>n_pending := mput (ak_ReqID m)
    (pr\<lparr>pr_ch := pr_ch pr @ [m], pr_seen := mput (ak_FromID m) () (pr_seen pr)\<rparr>) (n_pending n)\<rparr>"
proof -
  obtain p where "map_of (n_peerByID n) (ak_FromID m) = Some p" using assms(3) by blast
  with assms(2,4,5) ack_room(1) [OF assms(1-4)] show ?thesis by (simp add: handleSyncAck_def Let_def)
qed

lemma pend_wf_handleSyncAck:
  assumes "pend_wf n"
  shows "pend_wf (handleSyncAck n m)"
proof (cases "\<exists>pr. map_of (n_pending n) (ak_ReqID m) = Some pr \<and> map_of (n_peerByID n) (ak_FromID m) \<noteq> None \<and>
    map_of (pr_seen pr) (ak_FromID m) = None \<and> ak_Document m = pr_document pr")
  case True
  then obtain pr where pr: "map_of (n_pending n) (ak_ReqID m) = Some pr" "map_of (n_peerByID n) (ak_FromID m) \<noteq> None"
    "map_of (pr_seen pr) (ak_FromID m) = None" "ak_Document m = pr_document pr" by blast
  have d: "dom (map_of (mput (ak_FromID m) () (pr_seen pr))) = insert (ak_FromID m) (dom (map_of (pr_seen pr)))" by auto
  let ?pr = "pr\<lparr>pr_ch := pr_ch pr @ [m], pr_seen := mput (ak_FromID m) () (pr_seen pr)\<rparr>"
  have "pr_cap ?pr = length (n_peers n)" "length (pr_ch ?pr) \<le> card (dom (map_of (pr_seen ?pr)))"
    "dom (map_of (pr_seen ?pr)) \<subseteq> dom (map_of (n_peerByID n))"
    using ack_room(2) [OF assms pr(1-3)] assms pr d by (auto simp: pend_wf_def)
  from pend_wf_put [OF assms this] show ?thesis unfolding ack_kept [OF assms pr] .
next
  case False
  then have "handleSyncAck n m = n" by (auto simp: handleSyncAck_def split: option.split)
  with assms show ?thesis by simp
qed

lemma pend_wf_popAck:
  assumes "pend_wf n" "popAck n rid = Some (m, n')"
  shows "pend_wf n'"
proof -
  from assms(2) obtain pr ms where pr: "map_of (n_pending n) rid = Some pr" "pr_ch pr = m # ms"
    "n' = n\<lparr>n_pending := mput rid (pr\<lparr>pr_ch := ms\<rparr>) (n_pending n)\<rparr>"
    by (auto simp: popAck_def split: option.splits list.splits)
  show ?thesis
    unfolding pr(3) by (rule pend_wf_put [OF assms(1)]) (use assms(1) pr(1,2) in \<open>force simp: pend_wf_def\<close>)+
qed

lemma pend_wf_collectAck:
  assumes "pend_wf n" "collectAck f n rid ratio cnt = Some (n', cnt', t)" "\<And>n m n' e. pend_wf n \<Longrightarrow> f n m = (n', e) \<Longrightarrow> pend_wf n'"
  shows "pend_wf n'"
proof -
  obtain m n1 where p: "popAck n rid = Some (m, n1)" using assms(2) by (auto simp: collectAck_def split: option.splits)
  obtain n2 e where f: "f n1 m = (n2, e)" by (cases "f n1 m")
  have "n' = n2" using assms(2) by (auto simp: collectAck_def p f split: option.splits)
  with assms(3) [OF pend_wf_popAck [OF assms(1) p] f] show ?thesis by simp
qed

lemma pend_wf_handleMsg:
  assumes "pend_wf n" "handleMsg ord lord cord dord n msg = Inr (n', out)"
  shows "pend_wf n'"
proof (cases msg)
  case (GossipMsg sid snap)
  with assms same_frame_MergeSnapshot [of n ord lord cord dord snap] show ?thesis
    by (auto simp: handleMsg_def intro: pend_wf_frame split: if_splits)
next
  case (DeployMsg plan)
  with assms(2) have "n' = Initialize n plan" by (simp add: handleMsg_def)
  with assms(1) show ?thesis by (cases "n_ready n") (simp_all add: Initialize_def pend_wf_def)
next
  case (SyncPush m)
  then have h: "handleSyncPush ord lord n m = (n', out)" using assms(2) by (simp add: handleMsg_def)
  show ?thesis
    using h assms(1) by (auto simp: handleSyncPush_def split: if_splits sum.splits prod.splits option.splits intro: pend_wf_mergeCollection)
next
  case (SyncPull m)
  with assms show ?thesis by (auto simp: handleMsg_def)
next
  case (SyncAck m)
  with assms show ?thesis by (auto simp: handleMsg_def pend_wf_handleSyncAck)
next
  case OtherMsg
  with assms show ?thesis by (simp add: handleMsg_def)
qed

lemma pend_wf_step: "node_step n n' \<Longrightarrow> pend_wf n \<Longrightarrow> pend_wf n'"
proof (induction rule: node_step.induct)
  case (ns_msg ord lord cord dord n msg n' out)
  then show ?case using pend_wf_handleMsg by blast
next
  case (ns_apply ord n col doc act ps n' e)
  then show ?case by (auto simp: ApplyDocument_def split: sum.splits intro: pend_wf_apply_ref)
next
  case (ns_write ord n col doc act ps ratio n' out call)
  then show ?case
    by (auto simp: ApplyDocumentSync_def applySync_def split: sum.splits prod.splits option.splits
        intro: pend_wf_apply_ref pend_wf_startPush)
next
  case (ns_read ord n col doc q ps ratio n' out call)
  then show ?case
    by (auto simp: QueryDocumentSync_def querySync_def writeBack_def split: sum.splits prod.splits option.splits
        intro: pend_wf_pullStart pend_wf_startPush)
next
  case (ns_push_ack n rid ratio cnt n' cnt' t)
  show ?case by (rule pend_wf_collectAck [OF ns_push_ack(2,1)]) (simp add: pushAck_def)
next
  case (ns_pull_ack ord lord ref n rid ratio cnt n' cnt' t)
  show ?case by (rule pend_wf_collectAck [OF ns_pull_ack(2,1)]) (auto simp: pullAck_def intro: pend_wf_mergeCollection)
next
  case (ns_resume ord n ref q ps ratio call res n' out call')
  then show ?case
    by (auto simp: resumeSync_def writeBack_def split: syncCall.splits option.splits intro: pend_wf_cancel pend_wf_startPush)
qed

lemma started_pend_wf: "started n \<Longrightarrow> pend_wf n"
  by (induction rule: started.induct) (auto simp: pend_wf_New pend_wf_step)

text \<open>
  C31: an ack that counts is never dropped. Whatever calls, messages, timeouts and acks a node has
  gone through since its peers were registered, the first ack of a registered peer to a pending
  request, for its document, is put into the request's channel: the channel, as long as the list of
  peers, is never full then, so the default branch of the select is unreachable.
\<close>

theorem first_ack_enqueued:
  assumes "started n" and "map_of (n_pending n) (ak_ReqID m) = Some pr"
    and "map_of (n_peerByID n) (ak_FromID m) \<noteq> None" and "map_of (pr_seen pr) (ak_FromID m) = None"
    and "ak_Document m = pr_document pr"
  shows "length (pr_ch pr) < pr_cap pr \<and>
    handleSyncAck n m = n\<lparr>n_pending := mput (ak_ReqID m)
      (pr\<lparr>pr_ch := pr_ch pr @ [m], pr_seen := mput (ak_FromID m) () (pr_seen pr)\<rparr>) (n_pending n)\<rparr>"
  using ack_room(1) [OF started_pend_wf [OF assms(1)] assms(2-4)] ack_kept [OF started_pend_wf [OF assms(1)] assms(2-)] by simp

lemma demo_started: "started (demoNode ''a'' ''b'' demoSlots 1 (demoPending ''a-1'' [] []))"
proof -
  have "started (foldl (\<lambda>n (i, p). AddPeer n i p) (node_New ''a'') [(''b'', ''b'')])" by (rule sd_new)
  then have "started (meshNode [''a'', ''b''] ''a'')" by (simp add: meshNode_def)
  from sd_step [OF this ns_msg [of "\<lambda>m. m" "\<lambda>m. m" "\<lambda>m. m" "\<lambda>m. m" _ "DeployMsg demoPlan"]]
  have "started (demoNode ''a'' ''b'' [] 0 [])" by (simp add: handleMsg_def demo_init)
  moreover have "ApplyDocumentSync (\<lambda>m. m) (demoNode ''a'' ''b'' [] 0 []) ''C'' [] ''Add'' [GInt 3] (1 / 2) =
     (demoNode ''a'' ''b'' demoSlots 1 (demoPending ''a-1'' [] []), [(''b'', SyncPush demoPush)], WriteWait ''a-1'')"
    using demo_apply demo_push
    by (simp add: ApplyDocumentSync_def ApplyDocument_def demo_resolve applySync_def startPush_def)
  ultimately show ?thesis by (rule sd_step [OF _ ns_write])
qed

lemma first_ack_enqueued_witness:
  "handleSyncAck (demoNode ''a'' ''b'' demoSlots 1 (demoPending ''a-1'' [] [])) demoAck1 =
     (demoNode ''a'' ''b'' demoSlots 1 (demoPending ''a-1'' [] []))
       \<lparr>n_pending := mput ''a-1'' \<lparr> pr_ch = [demoAck1], pr_cap = 1, pr_seen = [(''b'', ())], pr_document = [] \<rparr>
          (demoPending ''a-1'' [] [])\<rparr>"
proof -
  let ?n = "demoNode ''a'' ''b'' demoSlots 1 (demoPending ''a-1'' [] [])"
  have p: "n_pending ?n = demoPending ''a-1'' [] []" by (simp add: demoNode_def)
  from first_ack_enqueued [OF demo_started, of demoAck1 "\<lparr> pr_ch = [], pr_cap = 1, pr_seen = [], pr_document = [] \<rparr>"]
  have "handleSyncAck ?n demoAck1 = ?n\<lparr>n_pending := mput ''a-1''
      \<lparr> pr_ch = [demoAck1], pr_cap = 1, pr_seen = [(''b'', ())], pr_document = [] \<rparr> (n_pending ?n)\<rparr>"
    by (simp add: p demoAck1_def) (simp add: demoNode_def)
  then show ?thesis unfolding p .
qed

end
