(* ===== verification/Combinators.thy ===== *)
theory Combinators
  imports Prelude Utf8
begin

text \<open>
  parser/stream.go, parser/result.go and parser/combinators.go: backtracking parsers over runes. A
  parser is a function from a position to a result; a failure that has consumed input is committed,
  \<open>Or\<close> tries its second parser only after an uncommitted one, and \<open>Try\<close> takes the commitment back.

  The loop of \<open>Many\<close> runs on fuel, one unit more than the runes that are left; \<open>Starved\<close> is a loop
  that would need more, or a parser called deeper than its fuel. The contract \<open>good n p\<close> says what a
  parser owes its callers where fewer than \<open>n\<close> runes are left: it does not starve, stays inside the
  text, never steps back, reports consumption exactly, and points its errors at the right line and
  column. Every combinator keeps it.
\<close>

type_synonym rune = nat

record stream =
  st_Items :: "rune list"
  st_Pos :: nat

record parseError =
  pe_Pos :: nat
  pe_Line :: nat
  pe_Col :: nat
  pe_Message :: string

datatype 'a parseResult =
    Success 'a stream bool
  | Failure parseError bool
  | Starved

type_synonym 'a parser = "stream \<Rightarrow> 'a parseResult"

subsection \<open>Streams\<close>

definition NewStream :: "rune list \<Rightarrow> stream" where
  "NewStream items = \<lparr> st_Items = items, st_Pos = 0 \<rparr>"

definition Head :: "stream \<Rightarrow> rune option" where
  "Head s = (if length (st_Items s) \<le> st_Pos s then None else Some (st_Items s ! st_Pos s))"

definition Advance :: "stream \<Rightarrow> stream" where
  "Advance s = s\<lparr>st_Pos := st_Pos s + 1\<rparr>"

definition IsEmpty :: "stream \<Rightarrow> bool" where
  "IsEmpty s \<longleftrightarrow> length (st_Items s) \<le> st_Pos s"

fun runePos_loop :: "rune list \<Rightarrow> nat \<Rightarrow> nat \<Rightarrow> nat \<Rightarrow> nat \<times> nat" where
  "runePos_loop (r # rs) (Suc pos) line col =
     (if r = byte (CHR 0x0A) then runePos_loop rs pos (line + 1) 1 else runePos_loop rs pos line (col + 1))"
| "runePos_loop rs pos line col = (line, col)"

definition runePos :: "rune list \<Rightarrow> nat \<Rightarrow> nat \<times> nat" where
  "runePos runes pos = runePos_loop runes pos 1 1"

text \<open>A \<open>ParseError\<close> with its position, as every parser builds it.\<close>

definition errorAt :: "stream \<Rightarrow> string \<Rightarrow> parseError" where
  "errorAt s msg =
     (case runePos (st_Items s) (st_Pos s) of (line, col) \<Rightarrow>
        \<lparr> pe_Pos = st_Pos s, pe_Line = line, pe_Col = col, pe_Message = msg \<rparr>)"

subsection \<open>Primitives\<close>

definition Succeed :: "'a \<Rightarrow> 'a parser" where
  "Succeed v s = Success v s False"

definition Fail :: "string \<Rightarrow> 'a parser" where
  "Fail msg s = Failure (errorAt s msg) False"

definition Satisfy :: "(rune \<Rightarrow> bool) \<Rightarrow> string \<Rightarrow> rune parser" where
  "Satisfy pred label s =
     (case Head s of
        None \<Rightarrow> Failure (errorAt s (''unexpected end of input, expected '' @ label)) False
      | Some r \<Rightarrow>
          if \<not> pred r then Failure (errorAt s (''unexpected '' @ string_of_runes [r] @ '', expected '' @ label)) False
          else Success r (Advance s) True)"

definition EOF :: "unit parser" where
  "EOF s =
     (case Head s of
        None \<Rightarrow> Success () s False
      | Some r \<Rightarrow> Failure (errorAt s (''unexpected '' @ string_of_runes [r] @ '', expected end of input'')) False)"

definition MapP :: "'a parser \<Rightarrow> ('a \<Rightarrow> 'b) \<Rightarrow> 'b parser" where
  "MapP p f s =
     (case p s of
        Failure e c \<Rightarrow> Failure e c
      | Success v nx c \<Rightarrow> Success (f v) nx c
      | Starved \<Rightarrow> Starved)"

definition Discard :: "'a parser \<Rightarrow> unit parser" where
  "Discard p = MapP p (\<lambda>_. ())"

subsection \<open>Sequences\<close>

text \<open>\<open>andThen\<close> is one step of a sequence: the consumption of what came before is added.\<close>

definition andThen :: "bool \<Rightarrow> 'a parseResult \<Rightarrow> ('a \<Rightarrow> stream \<Rightarrow> bool \<Rightarrow> 'b parseResult) \<Rightarrow> 'b parseResult" where
  "andThen ahead r k =
     (case r of
        Failure e c \<Rightarrow> Failure e (ahead \<or> c)
      | Success v nx c \<Rightarrow> k v nx (ahead \<or> c)
      | Starved \<Rightarrow> Starved)"

definition Sequence2 :: "'a parser \<Rightarrow> 'b parser \<Rightarrow> ('a \<times> 'b) parser" where
  "Sequence2 p1 p2 s =
     andThen False (p1 s) (\<lambda>v1 s1 c1.
     andThen c1 (p2 s1) (\<lambda>v2 s2 c2. Success (v1, v2) s2 c2))"

definition Sequence3 :: "'a parser \<Rightarrow> 'b parser \<Rightarrow> 'c parser \<Rightarrow> ('a \<times> 'b \<times> 'c) parser" where
  "Sequence3 p1 p2 p3 s =
     andThen False (p1 s) (\<lambda>v1 s1 c1.
     andThen c1 (p2 s1) (\<lambda>v2 s2 c2.
     andThen c2 (p3 s2) (\<lambda>v3 s3 c3. Success (v1, v2, v3) s3 c3)))"

definition Sequence4 :: "'a parser \<Rightarrow> 'b parser \<Rightarrow> 'c parser \<Rightarrow> 'd parser \<Rightarrow> ('a \<times> 'b \<times> 'c \<times> 'd) parser" where
  "Sequence4 p1 p2 p3 p4 s =
     andThen False (p1 s) (\<lambda>v1 s1 c1.
     andThen c1 (p2 s1) (\<lambda>v2 s2 c2.
     andThen c2 (p3 s2) (\<lambda>v3 s3 c3.
     andThen c3 (p4 s3) (\<lambda>v4 s4 c4. Success (v1, v2, v3, v4) s4 c4))))"

definition Sequence5 ::
  "'a parser \<Rightarrow> 'b parser \<Rightarrow> 'c parser \<Rightarrow> 'd parser \<Rightarrow> 'e parser \<Rightarrow> ('a \<times> 'b \<times> 'c \<times> 'd \<times> 'e) parser"
where
  "Sequence5 p1 p2 p3 p4 p5 s =
     andThen False (p1 s) (\<lambda>v1 s1 c1.
     andThen c1 (p2 s1) (\<lambda>v2 s2 c2.
     andThen c2 (p3 s2) (\<lambda>v3 s3 c3.
     andThen c3 (p4 s3) (\<lambda>v4 s4 c4.
     andThen c4 (p5 s4) (\<lambda>v5 s5 c5. Success (v1, v2, v3, v4, v5) s5 c5)))))"

definition Prefix :: "'a parser \<Rightarrow> 'b parser \<Rightarrow> 'b parser" where
  "Prefix pre p = MapP (Sequence2 pre p) snd"

definition Suffix :: "'a parser \<Rightarrow> 'b parser \<Rightarrow> 'b parser" where
  "Suffix suf p = MapP (Sequence2 p suf) fst"

subsection \<open>Choice and repetition\<close>

definition Or :: "'a parser \<Rightarrow> 'a parser \<Rightarrow> 'a parser" where
  "Or left right s =
     (case left s of
        Failure e c \<Rightarrow> if c then Failure e c else right s
      | r \<Rightarrow> r)"

definition Try :: "'a parser \<Rightarrow> 'a parser" where
  "Try p s = (case p s of Failure e c \<Rightarrow> Failure e False | r \<Rightarrow> r)"

definition left_runes :: "stream \<Rightarrow> nat" where
  "left_runes s = length (st_Items s) - st_Pos s"

fun many_loop :: "'a parser \<Rightarrow> nat \<Rightarrow> 'a list \<Rightarrow> bool \<Rightarrow> 'a list parser" where
  "many_loop p 0 items consumed cur = Starved"
| "many_loop p (Suc n) items consumed cur =
     (case p cur of
        Failure e c \<Rightarrow> if c then Failure e True else Success items cur consumed
      | Success v nx c \<Rightarrow>
          if st_Pos nx = st_Pos cur then Success (items @ [v]) nx (consumed \<or> c)
          else many_loop p n (items @ [v]) (consumed \<or> c) nx
      | Starved \<Rightarrow> Starved)"

definition Many :: "'a parser \<Rightarrow> 'a list parser" where
  "Many p s = many_loop p (Suc (left_runes s)) [] False s"

definition Many1 :: "'a parser \<Rightarrow> 'a list parser" where
  "Many1 p s =
     andThen False (p s) (\<lambda>v nx c.
     andThen c (Many p nx) (\<lambda>vs nx' c'. Success (v # vs) nx' c'))"

fun sep_loop :: "'a parser \<Rightarrow> 'b parser \<Rightarrow> nat \<Rightarrow> 'a list \<Rightarrow> bool \<Rightarrow> 'a list parser" where
  "sep_loop p sep 0 items consumed cur = Starved"
| "sep_loop p sep (Suc n) items consumed cur =
     (case sep cur of
        Failure e c \<Rightarrow> if c then Failure e True else Success items cur consumed
      | Success _ s1 c1 \<Rightarrow>
          andThen (consumed \<or> c1) (p s1) (\<lambda>v s2 c2. sep_loop p sep n (items @ [v]) c2 s2)
      | Starved \<Rightarrow> Starved)"

definition SepBy :: "'a parser \<Rightarrow> 'b parser \<Rightarrow> 'a list parser" where
  "SepBy p sep s =
     (case p s of
        Failure e c \<Rightarrow> if c then Failure e True else Success [] s False
      | Success v nx c \<Rightarrow> sep_loop p sep (Suc (left_runes nx)) [v] c nx
      | Starved \<Rightarrow> Starved)"

subsection \<open>Runes and identifiers\<close>

definition RuneP :: "rune \<Rightarrow> rune parser" where
  "RuneP r = Satisfy (\<lambda>c. c = r) (string_of_runes [r])"

fun string_loop :: "rune list \<Rightarrow> string \<Rightarrow> bool \<Rightarrow> string parser" where
  "string_loop [] str consumed cur = Success str cur consumed"
| "string_loop (r # rs) str consumed cur =
     andThen consumed (RuneP r cur) (\<lambda>_ nx _. string_loop rs str True nx)"

definition StringP :: "string \<Rightarrow> string parser" where
  "StringP str = string_loop (go_runes str) str False"

definition is_space :: "rune \<Rightarrow> bool" where
  "is_space r \<longleftrightarrow> r = byte (CHR '' '') \<or> r = byte (CHR 0x09)"

definition SpacesP :: "unit parser" where
  "SpacesP = MapP (Many (Satisfy is_space ''space'')) (\<lambda>_. ())"

definition Spaces1P :: "unit parser" where
  "Spaces1P = MapP (Many1 (Satisfy is_space ''space'')) (\<lambda>_. ())"

text \<open>\<open>unicode.IsLetter\<close> and \<open>unicode.IsDigit\<close> are the tables of the Unicode version Go ships.\<close>

record unicode =
  IsLetter :: "rune \<Rightarrow> bool"
  IsDigit :: "rune \<Rightarrow> bool"

definition ident_head :: "unicode \<Rightarrow> rune \<Rightarrow> bool" where
  "ident_head u r \<longleftrightarrow> r = byte (CHR ''_'') \<or> IsLetter u r"

definition ident_char :: "unicode \<Rightarrow> rune \<Rightarrow> bool" where
  "ident_char u r \<longleftrightarrow> r = byte (CHR ''_'') \<or> IsLetter u r \<or> IsDigit u r"

definition IdentP :: "unicode \<Rightarrow> string parser" where
  "IdentP u =
     MapP (Sequence2 (Satisfy (ident_head u) ''identifier'') (Many (Satisfy (ident_char u) ''identifier char'')))
       (\<lambda>(r, rs). string_of_runes (r # rs))"

definition TillEOL :: "string parser" where
  "TillEOL = MapP (Many (Satisfy (\<lambda>r. r \<noteq> byte (CHR 0x0A)) ''non-newline'')) string_of_runes"

subsection \<open>The contract\<close>

definition valid :: "stream \<Rightarrow> bool" where
  "valid s \<longleftrightarrow> st_Pos s \<le> length (st_Items s)"

text \<open>An error at or behind the position the parser started from, with its line and column.\<close>

definition located :: "stream \<Rightarrow> parseError \<Rightarrow> bool" where
  "located s e \<longleftrightarrow>
     st_Pos s \<le> pe_Pos e \<and> pe_Pos e \<le> length (st_Items s) \<and>
     (pe_Line e, pe_Col e) = runePos (st_Items s) (pe_Pos e)"

definition onward :: "stream \<Rightarrow> stream \<Rightarrow> bool" where
  "onward s s' \<longleftrightarrow> st_Items s' = st_Items s \<and> st_Pos s \<le> st_Pos s' \<and> valid s'"

definition fair :: "stream \<Rightarrow> 'a parseResult \<Rightarrow> bool" where
  "fair s r =
     (case r of
        Success v s' c \<Rightarrow> onward s s' \<and> (c \<longleftrightarrow> st_Pos s < st_Pos s')
      | Failure e c \<Rightarrow> located s e
      | Starved \<Rightarrow> False)"

definition good :: "nat \<Rightarrow> 'a parser \<Rightarrow> bool" where
  "good n p \<longleftrightarrow> (\<forall>s. valid s \<longrightarrow> left_runes s < n \<longrightarrow> fair s (p s))"

text \<open>A parser that consumes whenever it succeeds.\<close>

definition eats :: "nat \<Rightarrow> 'a parser \<Rightarrow> bool" where
  "eats n p \<longleftrightarrow>
     (\<forall>s. valid s \<longrightarrow> left_runes s < n \<longrightarrow> (\<forall>v s' c. p s = Success v s' c \<longrightarrow> st_Pos s < st_Pos s'))"

named_theorems good_rules

lemma fair_simps [simp]:
  "fair s (Success v s' c) \<longleftrightarrow> onward s s' \<and> (c \<longleftrightarrow> st_Pos s < st_Pos s')"
  "fair s (Failure e c) \<longleftrightarrow> located s e" "\<not> fair s Starved"
  by (simp_all add: fair_def)

lemma onward_refl: "valid s \<Longrightarrow> onward s s"
  by (simp add: onward_def)

lemma onward_trans: "onward s s' \<Longrightarrow> onward s' s'' \<Longrightarrow> onward s s''"
  by (simp add: onward_def)

lemma onward_left: "onward s s' \<Longrightarrow> left_runes s' \<le> left_runes s"
  by (auto simp: onward_def left_runes_def)

lemma onward_left_less: "onward s s' \<Longrightarrow> st_Pos s < st_Pos s' \<Longrightarrow> left_runes s' < left_runes s"
  by (auto simp: onward_def left_runes_def valid_def)

lemma located_later: "onward s s' \<Longrightarrow> located s' e \<Longrightarrow> located s e"
  by (simp add: onward_def located_def)

lemma located_errorAt: "onward s s' \<Longrightarrow> located s (errorAt s' msg)"
  by (auto simp: located_def errorAt_def onward_def valid_def split: prod.split)

lemma goodD: "good n p \<Longrightarrow> valid s \<Longrightarrow> left_runes s < n \<Longrightarrow> fair s (p s)"
  by (simp add: good_def)

lemma good_mono: "good n p \<Longrightarrow> m \<le> n \<Longrightarrow> good m p"
  by (auto simp: good_def)

lemma good_Succeed [good_rules]: "good n (Succeed v)"
  by (simp add: good_def Succeed_def onward_refl)

lemma good_Fail [good_rules]: "good n (Fail msg)"
  by (simp add: good_def Fail_def located_errorAt onward_refl)

lemma good_Satisfy [good_rules]: "good n (Satisfy pred label)"
  by (auto simp: good_def Satisfy_def Head_def Advance_def located_errorAt onward_refl)
    (auto simp: onward_def valid_def)

lemma eats_Satisfy [good_rules]: "eats n (Satisfy pred label)"
  by (auto simp: eats_def Satisfy_def Advance_def split: option.splits if_splits)

lemma good_EOF [good_rules]: "good n EOF"
  by (auto simp: good_def EOF_def Head_def located_errorAt onward_refl)

lemma good_MapP [good_rules]: "good n p \<Longrightarrow> good n (MapP p f)"
  by (auto simp: good_def MapP_def fair_def split: parseResult.splits)

lemma eats_MapP [good_rules]: "eats n p \<Longrightarrow> eats n (MapP p f)"
  by (auto simp: eats_def MapP_def split: parseResult.splits)

lemma good_Discard [good_rules]: "good n p \<Longrightarrow> good n (Discard p)"
  by (simp add: Discard_def good_MapP)

lemma eats_Discard [good_rules]: "eats n p \<Longrightarrow> eats n (Discard p)"
  by (simp add: Discard_def eats_MapP)

text \<open>One step of a sequence.\<close>

lemma fair_andThen:
  assumes "onward s s1" "b \<longleftrightarrow> st_Pos s < st_Pos s1" "fair s1 r"
    and "\<And>v s2 c. r = Success v s2 c \<Longrightarrow> onward s s2 \<Longrightarrow> onward s1 s2 \<Longrightarrow> fair s (k v s2 (st_Pos s < st_Pos s2))"
  shows "fair s (andThen b r k)"
proof (cases r)
  case (Success v s2 c)
  with assms(3) have o: "onward s1 s2" "c \<longleftrightarrow> st_Pos s1 < st_Pos s2" by auto
  have "(b \<or> c) = (st_Pos s < st_Pos s2)" using assms(1,2) o by (auto simp: onward_def)
  with assms(4) [OF Success onward_trans [OF assms(1) o(1)] o(1)] Success show ?thesis by (simp add: andThen_def)
next
  case (Failure e c)
  with assms(1,3) located_later show ?thesis by (auto simp: andThen_def)
next
  case Starved
  with assms(3) show ?thesis by simp
qed

lemma onward_good:
  assumes "good n p" "valid s" "left_runes s < n" "onward s s'"
  shows "fair s' (p s')"
  using assms(4) by (intro goodD [OF assms(1)]) (use assms(3) onward_left [OF assms(4)] in \<open>auto simp: onward_def\<close>)

lemma fair_then:
  assumes "good n p" "valid s" "left_runes s < n" "onward s s1" "b \<longleftrightarrow> st_Pos s < st_Pos s1"
    and "\<And>v s2 c. p s1 = Success v s2 c \<Longrightarrow> onward s s2 \<Longrightarrow> onward s1 s2 \<Longrightarrow> fair s (k v s2 (st_Pos s < st_Pos s2))"
  shows "fair s (andThen b (p s1) k)"
  using fair_andThen [OF assms(4,5) onward_good [OF assms(1-4)], of k] assms(6) by blast

lemma fair_first:
  assumes "good n p" "valid s" "left_runes s < n"
    and "\<And>v s2 c. p s = Success v s2 c \<Longrightarrow> onward s s2 \<Longrightarrow> fair s (k v s2 (st_Pos s < st_Pos s2))"
  shows "fair s (andThen False (p s) k)"
  by (rule fair_then [OF assms(1-3) onward_refl [OF assms(2)]]) (simp_all add: assms(4))

lemma good_Sequence2 [good_rules]: "good n p1 \<Longrightarrow> good n p2 \<Longrightarrow> good n (Sequence2 p1 p2)"
  unfolding good_def [of n "Sequence2 p1 p2"] Sequence2_def
  by (intro allI impI, rule fair_first [where n = n], assumption+,
      rule fair_then [where n = n], assumption+, rule refl, simp)

text \<open>The longer sequences are nested pairs.\<close>

lemma andThen_pair:
  "andThen b (andThen False r (\<lambda>v s c. andThen c (q s) (\<lambda>w t d. Success (v, w) t d))) (\<lambda>x t d. Success (y, x) t d) =
   andThen b r (\<lambda>v s c. andThen c (q s) (\<lambda>w t d. Success (y, v, w) t d))"
  by (cases r; simp add: andThen_def split: parseResult.split)

lemma Sequence3_eq: "Sequence3 p1 p2 p3 = Sequence2 p1 (Sequence2 p2 p3)"
  by (rule ext) (simp add: Sequence3_def Sequence2_def andThen_pair)

lemma Sequence4_eq: "Sequence4 p1 p2 p3 p4 = Sequence2 p1 (Sequence3 p2 p3 p4)"
  by (rule ext, simp add: Sequence4_def Sequence3_def Sequence2_def andThen_def split: parseResult.split)

lemma Sequence5_eq: "Sequence5 p1 p2 p3 p4 p5 = Sequence2 p1 (Sequence4 p2 p3 p4 p5)"
  by (rule ext, simp add: Sequence5_def Sequence4_def Sequence2_def andThen_def split: parseResult.split)

lemmas Sequence_eqs = Sequence3_eq Sequence4_eq Sequence5_eq

text \<open>
  Behind a parser that eats, one rune fewer is left: the rule that lets a grammar be recursive.
\<close>

lemma good_Sequence2_eats:
  assumes "good (Suc n) p1" "eats (Suc n) p1" "good n p2"
  shows "good (Suc n) (Sequence2 p1 p2)" "eats (Suc n) (Sequence2 p1 p2)"
proof -
  have b: "left_runes s1 < n \<and> valid s1 \<and> onward s s1 \<and> st_Pos s < st_Pos s1"
    if "valid s" "left_runes s < Suc n" "p1 s = Success v s1 c" for s v s1 c
  proof -
    have "onward s s1" using goodD [OF assms(1) that(1,2)] that(3) by simp
    moreover have "st_Pos s < st_Pos s1" using assms(2) that by (auto simp: eats_def)
    ultimately show ?thesis using onward_left_less [of s s1] that(2) by (auto simp: onward_def)
  qed
  show "good (Suc n) (Sequence2 p1 p2)"
    unfolding good_def Sequence2_def
  proof (intro allI impI, rule fair_first [OF assms(1)], assumption+)
    fix s v s1 c assume s: "valid s" "left_runes s < Suc n" "p1 s = Success v s1 c"
    note b = b [OF s]
    then have "fair s1 (p2 s1)" using goodD [OF assms(3)] by blast
    from fair_andThen [OF _ refl this, of s "\<lambda>v2 s2. Success (v, v2) s2"] b
    show "fair s (andThen (st_Pos s < st_Pos s1) (p2 s1) (\<lambda>v2 s2. Success (v, v2) s2))" by simp
  qed
  show "eats (Suc n) (Sequence2 p1 p2)"
    unfolding eats_def
  proof (intro allI impI)
    fix s w s2 d assume s: "valid s" "left_runes s < Suc n" and p: "Sequence2 p1 p2 s = Success w s2 d"
    from p obtain v s1 c v2 c2 where r: "p1 s = Success v s1 c" "p2 s1 = Success v2 s2 c2"
      by (auto simp: Sequence2_def andThen_def split: parseResult.splits)
    note b = b [OF s r(1)]
    with goodD [OF assms(3), of s1] r(2) have "onward s1 s2" by simp
    with b show "st_Pos s < st_Pos s2" by (simp add: onward_def)
  qed
qed

lemma eats_Sequence2 [good_rules]:
  assumes "eats n p1" "good n p1" "good n p2"
  shows "eats n (Sequence2 p1 p2)"
proof (cases n)
  case (Suc m)
  with good_Sequence2_eats(2) [of m p1 p2] assms good_mono [OF assms(3), of m] show ?thesis by simp
qed (simp add: eats_def)

lemma good_Sequence3 [good_rules]: "good n p1 \<Longrightarrow> good n p2 \<Longrightarrow> good n p3 \<Longrightarrow> good n (Sequence3 p1 p2 p3)"
  by (simp add: Sequence_eqs good_rules)

lemma good_Sequence4 [good_rules]:
  "good n p1 \<Longrightarrow> good n p2 \<Longrightarrow> good n p3 \<Longrightarrow> good n p4 \<Longrightarrow> good n (Sequence4 p1 p2 p3 p4)"
  by (simp add: Sequence_eqs good_rules)

lemma good_Sequence5 [good_rules]:
  "good n p1 \<Longrightarrow> good n p2 \<Longrightarrow> good n p3 \<Longrightarrow> good n p4 \<Longrightarrow> good n p5 \<Longrightarrow> good n (Sequence5 p1 p2 p3 p4 p5)"
  by (simp add: Sequence_eqs good_rules)

lemma good_Prefix [good_rules]: "good n p \<Longrightarrow> good n q \<Longrightarrow> good n (Prefix p q)"
  by (simp add: Prefix_def good_rules)

lemma good_Suffix [good_rules]: "good n p \<Longrightarrow> good n q \<Longrightarrow> good n (Suffix p q)"
  by (simp add: Suffix_def good_rules)

lemma good_Prefix_eats:
  assumes "good (Suc n) p" "eats (Suc n) p" "good n q"
  shows "good (Suc n) (Prefix p q)" "eats (Suc n) (Prefix p q)"
  using good_Sequence2_eats [OF assms] by (simp_all add: Prefix_def good_rules)

lemma eats_Prefix [good_rules]: "eats n p \<Longrightarrow> good n p \<Longrightarrow> good n q \<Longrightarrow> eats n (Prefix p q)"
  by (simp add: Prefix_def good_rules)

lemma good_Or [good_rules]:
  assumes "good n p" "good n q"
  shows "good n (Or p q)"
  unfolding good_def
proof (intro allI impI)
  fix s assume "valid s" "left_runes s < n"
  with assms have "fair s (p s)" "fair s (q s)" by (simp_all add: goodD)
  then show "fair s (Or p q s)" by (cases "p s") (simp_all add: Or_def)
qed

lemma eats_Or [good_rules]: "eats n p \<Longrightarrow> eats n q \<Longrightarrow> eats n (Or p q)"
  by (auto simp: eats_def Or_def split: parseResult.splits if_splits)

lemma good_Try [good_rules]:
  assumes "good n p"
  shows "good n (Try p)"
  unfolding good_def
proof (intro allI impI)
  fix s assume "valid s" "left_runes s < n"
  with assms have "fair s (p s)" by (simp add: goodD)
  then show "fair s (Try p s)" by (cases "p s") (simp_all add: Try_def)
qed

lemma eats_Try [good_rules]: "eats n p \<Longrightarrow> eats n (Try p)"
  by (auto simp: eats_def Try_def split: parseResult.splits)

text \<open>Loops: the fuel is enough because every turn but the last moves on.\<close>

lemma fair_many_loop:
  assumes "good n p" "valid s" "left_runes s < n"
  shows "onward s cur \<Longrightarrow> left_runes cur < k \<Longrightarrow> b = (st_Pos s < st_Pos cur) \<Longrightarrow> fair s (many_loop p k items b cur)"
proof (induction k arbitrary: items b cur)
  case (Suc k)
  have f: "fair cur (p cur)" by (rule onward_good [OF assms Suc.prems(1)])
  show ?case
  proof (cases "p cur")
    case (Success v nx c)
    with f have o: "onward cur nx" "c \<longleftrightarrow> st_Pos cur < st_Pos nx" by auto
    from onward_trans [OF Suc.prems(1) o(1)] have o2: "onward s nx" .
    have b: "(b \<or> c) = (st_Pos s < st_Pos nx)" using Suc.prems o by (auto simp: onward_def)
    show ?thesis
    proof (cases "st_Pos nx = st_Pos cur")
      case True
      with Success o2 b show ?thesis by simp
    next
      case False
      then have "left_runes nx < k" using onward_left_less [OF o(1)] o(1) Suc.prems(2) by (auto simp: onward_def)
      from Suc.IH [OF o2 this b] False Success show ?thesis by simp
    qed
  next
    case (Failure e c)
    with f located_later [OF Suc.prems(1)] Suc.prems show ?thesis by simp
  next
    case Starved
    with f show ?thesis by simp
  qed
qed simp

lemma good_Many [good_rules]: "good n p \<Longrightarrow> good n (Many p)"
  unfolding good_def [of n "Many p"] Many_def
  by (intro allI impI, rule fair_many_loop) (simp_all add: onward_refl)

lemma good_Many1 [good_rules]: "good n p \<Longrightarrow> good n (Many1 p)"
  unfolding good_def [of n "Many1 p"] Many1_def
  by (intro allI impI, rule fair_first [where n = n], assumption+,
      rule fair_then [where n = n, OF good_Many], assumption+, rule refl, simp)

lemma eats_Many1 [good_rules]:
  assumes "eats n p" "good n p"
  shows "eats n (Many1 p)"
proof -
  have "Many1 p = MapP (Sequence2 p (Many p)) (\<lambda>(v, vs). v # vs)"
    by (rule ext) (simp add: Many1_def MapP_def Sequence2_def andThen_def split: parseResult.split)
  with assms show ?thesis by (simp add: good_rules)
qed

lemma fair_sep_loop:
  assumes g: "good n p" "good n sep" "eats n sep" and s: "valid s" "left_runes s < n"
  shows "onward s cur \<Longrightarrow> left_runes cur < k \<Longrightarrow> b = (st_Pos s < st_Pos cur) \<Longrightarrow> fair s (sep_loop p sep k items b cur)"
proof (induction k arbitrary: items b cur)
  case (Suc k)
  have f: "fair cur (sep cur)" by (rule onward_good [OF g(2) s Suc.prems(1)])
  show ?case
  proof (cases "sep cur")
    case (Success v nx c)
    with f have o: "onward cur nx" "c \<longleftrightarrow> st_Pos cur < st_Pos nx" by auto
    from onward_trans [OF Suc.prems(1) o(1)] have o2: "onward s nx" .
    have b: "(b \<or> c) = (st_Pos s < st_Pos nx)" using Suc.prems o by (auto simp: onward_def)
    have "left_runes cur < n" "valid cur" using onward_left [OF Suc.prems(1)] s Suc.prems(1) by (auto simp: onward_def)
    with g(3) Success have "st_Pos cur < st_Pos nx" by (auto simp: eats_def)
    then have l: "left_runes nx < k" using onward_left_less [OF o(1)] Suc.prems(2) by simp
    have "fair s (andThen (b \<or> c) (p nx) (\<lambda>v s2 c2. sep_loop p sep k (items @ [v]) c2 s2))"
    proof (rule fair_then [OF g(1) s o2 b])
      fix v' s2 c' assume "onward s s2" "onward nx s2"
      with Suc.IH [of s2] onward_left [of nx s2] l
      show "fair s (sep_loop p sep k (items @ [v']) (st_Pos s < st_Pos s2) s2)" by simp
    qed
    with Success show ?thesis by simp
  next
    case (Failure e c)
    with f located_later [OF Suc.prems(1)] Suc.prems show ?thesis by simp
  next
    case Starved
    with f show ?thesis by simp
  qed
qed simp

lemma good_SepBy [good_rules]:
  assumes "good n p" "good n sep" "eats n sep"
  shows "good n (SepBy p sep)"
  unfolding good_def
proof (intro allI impI)
  fix s assume s: "valid s" "left_runes s < n"
  from goodD [OF assms(1) s] fair_sep_loop [OF assms s] s show "fair s (SepBy p sep s)"
    by (cases "p s") (simp_all add: SepBy_def onward_refl del: sep_loop.simps)
qed

lemma good_RuneP [good_rules]: "good n (RuneP r)"
  by (simp add: RuneP_def good_rules)

lemma eats_RuneP [good_rules]: "eats n (RuneP r)"
  by (simp add: RuneP_def good_rules)

lemma fair_string_loop:
  assumes "valid s"
  shows "onward s cur \<Longrightarrow> b = (st_Pos s < st_Pos cur) \<Longrightarrow> fair s (string_loop rs str b cur)"
proof (induction rs arbitrary: b cur)
  case (Cons r rs)
  show ?case
  proof (simp only: string_loop.simps, rule fair_then [OF good_RuneP assms _ Cons.prems])
    show "left_runes s < Suc (left_runes s)" by simp
    fix v s2 c assume r: "RuneP r cur = Success v s2 c" "onward s s2" "onward cur s2"
    have "valid cur" using Cons.prems by (simp add: onward_def)
    then have "st_Pos cur < st_Pos s2" using eats_RuneP [of "Suc (left_runes cur)" r] r(1) by (auto simp: eats_def)
    with Cons.prems(1) have "st_Pos s < st_Pos s2" by (simp add: onward_def)
    with Cons.IH [OF r(2), of True] show "fair s (string_loop rs str True s2)" by simp
  qed
qed simp

lemma good_StringP [good_rules]: "good n (StringP str)"
  by (simp add: good_def StringP_def fair_string_loop onward_refl)

lemma string_loop_flag: "string_loop (r # rs) str b s = Success (v :: string) s' c \<Longrightarrow> c"
proof (induction rs arbitrary: r b s)
  case (Cons a rs)
  then obtain w nx c' where "RuneP r s = Success w nx c'" "string_loop (a # rs) str True nx = Success v s' c"
    by (auto simp: andThen_def simp del: string_loop.simps(2) simp: string_loop.simps(2) [of r] split: parseResult.splits)
  with Cons.IH show ?case by blast
qed (auto simp: andThen_def split: parseResult.splits)

lemma eats_StringP [good_rules]: "go_runes str \<noteq> [] \<Longrightarrow> eats n (StringP str)"
  unfolding eats_def
proof (intro allI impI)
  fix s v s' c assume "go_runes str \<noteq> []" "valid s" and p: "StringP str s = Success v s' c"
  then have "c" using string_loop_flag unfolding StringP_def by (metis neq_Nil_conv)
  with goodD [OF good_StringP \<open>valid s\<close>, of "Suc (left_runes s)" str] p show "st_Pos s < st_Pos s'" by simp
qed

lemma good_SpacesP [good_rules]: "good n SpacesP"
  by (simp add: SpacesP_def good_rules)

lemma good_Spaces1P [good_rules]: "good n Spaces1P" "eats n Spaces1P"
  by (simp_all add: Spaces1P_def good_rules)

lemma good_IdentP [good_rules]: "good n (IdentP u)" "eats n (IdentP u)"
  by (simp_all add: IdentP_def good_rules)

lemma good_TillEOL [good_rules]: "good n TillEOL"
  by (simp add: TillEOL_def good_rules)

end
