(* ===== verification/Dsl.thy ===== *)
theory Dsl
  imports Combinators GoText Syntax
begin

text \<open>
  parser/dsl.go and parser/parser.go: the grammar of programs. Expressions nest, and the code ties
  the knot by building the parser of an atom again at every nested position; here that parser is a
  parameter \<open>atom\<close> of everything that contains expressions, and \<open>atomP u n\<close> is the parser of an atom
  that may nest \<open>n\<close> deep. \<open>Parse\<close> gives it one level more than the text has runes. \<open>u\<close> are the
  Unicode tables.
\<close>

abbreviation rn :: "char \<Rightarrow> rune" where
  "rn \<equiv> byte"

abbreviation NL :: rune where
  "NL \<equiv> byte (CHR 0x0A)"

abbreviation TAB :: rune where
  "TAB \<equiv> byte (CHR 0x09)"

abbreviation QUOTE :: rune where
  "QUOTE \<equiv> byte (CHR 0x22)"

abbreviation BACKSLASH :: rune where
  "BACKSLASH \<equiv> byte (CHR 0x5C)"

subsection \<open>Lexical elements\<close>

definition commentP :: "unit parser" where
  "commentP = Discard (Sequence2 (RuneP (rn CHR ''#'')) TillEOL)"

definition newlineOrEOF :: "unit parser" where
  "newlineOrEOF = Prefix (Or commentP (Succeed ())) (Or (Discard (RuneP NL)) EOF)"

definition blankOrCommentP :: "unit parser" where
  "blankOrCommentP = Discard (Sequence2 SpacesP newlineOrEOF)"

definition is_digit :: "rune \<Rightarrow> bool" where
  "is_digit r \<longleftrightarrow> rn CHR ''0'' \<le> r \<and> r \<le> rn CHR ''9''"

definition digitsP :: "string parser" where
  "digitsP = MapP (Many1 (Satisfy is_digit ''digit'')) string_of_runes"

definition signP :: "string parser" where
  "signP = Or (Try (MapP (RuneP (rn CHR ''-'')) (\<lambda>_. ''-''))) (Succeed [])"

definition fracP :: "string parser" where
  "fracP = Or (Try (MapP (Sequence2 (RuneP (rn CHR ''.'')) digitsP) (\<lambda>(_, ds). ''.'' @ ds))) (Succeed [])"

definition numberP :: "rat parser" where
  "numberP s =
     (case Sequence3 signP digitsP fracP s of
        Failure e c \<Rightarrow> Failure e c
      | Success (v1, v2, v3) nx c \<Rightarrow>
          (case Rat_SetString (v1 @ v2 @ v3) of
             None \<Rightarrow> Failure (errorAt s (''invalid number: '' @ v1 @ v2 @ v3)) c
           | Some q \<Rightarrow> Success q nx c)
      | Starved \<Rightarrow> Starved)"

text \<open>The escape sequences of a string literal.\<close>

definition escaped :: "rune \<Rightarrow> rune option" where
  "escaped e =
     (if e = QUOTE then Some QUOTE
      else if e = BACKSLASH then Some BACKSLASH
      else if e = rn CHR ''n'' then Some NL
      else if e = rn CHR ''t'' then Some TAB
      else None)"

fun string_body :: "nat \<Rightarrow> rune list \<Rightarrow> expr parser" where
  "string_body 0 sb cur = Starved"
| "string_body (Suc n) sb cur =
     (case Head cur of
        None \<Rightarrow> Failure (errorAt cur ''unterminated string literal'') True
      | Some r \<Rightarrow>
          if r = QUOTE then Success (EStrLit (string_of_runes sb)) (Advance cur) True
          else if r = BACKSLASH then
            (case Head (Advance cur) of
               None \<Rightarrow> Failure (errorAt (Advance cur) ''unterminated escape in string literal'') True
             | Some e \<Rightarrow>
                 (case escaped e of
                    None \<Rightarrow> Failure (errorAt (Advance cur) (''invalid escape '' @ [CHR 0x5C] @ string_of_runes [e])) True
                  | Some r' \<Rightarrow> string_body n (sb @ [r']) (Advance (Advance cur))))
          else string_body n (sb @ [r]) (Advance cur))"

definition stringLitP :: "expr parser" where
  "stringLitP s =
     (case RuneP QUOTE s of
        Failure e c \<Rightarrow> Failure e c
      | Success _ nx _ \<Rightarrow> string_body (Suc (left_runes nx)) [] nx
      | Starved \<Rightarrow> Starved)"

definition lit :: "string \<Rightarrow> string parser" where
  "lit str = Try (StringP str)"

definition symOpP :: "string parser" where
  "symOpP =
     Or (lit ''+'') (Or (lit ''*'') (Or (lit ''-'')
       (Or (lit ''>='') (Or (lit ''<='') (Or (lit ''=='') (Or (lit ''/='')
         (Or (lit ''>'') (lit ''<''))))))))"

definition memberP :: "unicode \<Rightarrow> string parser" where
  "memberP u = Try (MapP (Sequence2 (RuneP (rn CHR ''.'')) (IdentP u)) (\<lambda>(_, m). ''.'' @ m))"

definition typeSignP :: "string parser" where
  "typeSignP =
     Or (Try (MapP (RuneP (rn CHR ''+'')) (\<lambda>_. ''+'')))
       (Or (Try (MapP (RuneP (rn CHR ''-'')) (\<lambda>_. ''-''))) (Succeed []))"

definition typeNameP :: "unicode \<Rightarrow> string parser" where
  "typeNameP u = MapP (Sequence2 (IdentP u) (Or (memberP u) typeSignP)) (\<lambda>(t, x). t @ x)"

definition paramP :: "unicode \<Rightarrow> paramSpec parser" where
  "paramP u =
     MapP (Sequence3 (IdentP u) (Sequence2 (RuneP (rn CHR '':'')) (RuneP (rn CHR '':''))) (typeNameP u))
       (\<lambda>(x, _, t). \<lparr> p_Name = x, p_Type = t \<rparr>)"

definition paramsP :: "unicode \<Rightarrow> paramSpec list parser" where
  "paramsP u = Many (Try (Prefix Spaces1P (paramP u)))"

definition paramsP1 :: "unicode \<Rightarrow> paramSpec list parser" where
  "paramsP1 u = Many1 (Try (Prefix Spaces1P (paramP u)))"

definition nameP :: "unicode \<Rightarrow> expr parser" where
  "nameP u = MapP (Or symOpP (IdentP u)) EName"

definition oneWSCharP :: "rune parser" where
  "oneWSCharP = Satisfy (\<lambda>r. r = rn CHR '' '' \<or> r = TAB \<or> r = NL) ''whitespace''"

definition wsP :: "unit parser" where
  "wsP = Discard (Many (Or (Discard oneWSCharP) commentP))"

definition ws1P :: "unit parser" where
  "ws1P = Discard (Many1 (Or (Discard oneWSCharP) commentP))"

subsection \<open>Expressions\<close>

definition applicationP :: "expr parser \<Rightarrow> expr parser" where
  "applicationP atom =
     MapP (Sequence2 atom (Many (Try (Prefix Spaces1P atom))))
       (\<lambda>(h, args). if args = [] then h else EApp (Some h) args)"

definition exprP :: "expr parser \<Rightarrow> expr parser" where
  "exprP atom = applicationP atom"

definition structFieldP :: "unicode \<Rightarrow> expr parser \<Rightarrow> structField parser" where
  "structFieldP u atom =
     MapP (Sequence5 (IdentP u) (Prefix wsP (RuneP (rn CHR '':''))) wsP (exprP atom) (Succeed ()))
       (\<lambda>(x, _, _, v, _). StructField x (Some v))"

definition commaP :: "(unit \<times> rune) parser" where
  "commaP = Sequence2 wsP (RuneP (rn CHR '',''))"

definition structLitP :: "unicode \<Rightarrow> expr parser \<Rightarrow> expr parser" where
  "structLitP u atom =
     MapP (Sequence5
         (RuneP (rn CHR ''{''))
         (Prefix wsP (structFieldP u atom))
         (Many (Try (Prefix commaP (Prefix wsP (structFieldP u atom)))))
         (Prefix (Sequence2 (Or (Try (Discard commaP)) (Succeed ())) wsP) (RuneP (rn CHR ''}'')))
         (Succeed ()))
       (\<lambda>(_, f, fs, _, _). EStructLit (f # fs))"

definition reduceFormP :: "expr parser \<Rightarrow> expr parser" where
  "reduceFormP atom =
     MapP (Sequence5 (Prefix (Sequence2 (StringP ''reduce'') Spaces1P) atom) Spaces1P atom Spaces1P atom)
       (\<lambda>(f, _, i, _, v). EReduce (Some f) (Some i) (Some v))"

definition parenP :: "expr parser \<Rightarrow> expr parser" where
  "parenP atom =
     MapP (Sequence3 (RuneP (rn CHR ''('')) (Prefix SpacesP (exprP atom)) (Sequence2 SpacesP (RuneP (rn CHR '')''))))
       (\<lambda>(_, e, _). e)"

definition baseAtomP :: "unicode \<Rightarrow> expr parser \<Rightarrow> expr parser" where
  "baseAtomP u atom =
     Or (MapP (Try numberP) ENumLit) (Or stringLitP (Or (Try (reduceFormP atom)) (Or (Try (structLitP u atom))
       (Or (parenP atom) (nameP u)))))"

definition atomBody :: "unicode \<Rightarrow> expr parser \<Rightarrow> expr parser" where
  "atomBody u atom =
     MapP (Sequence2 (baseAtomP u atom) (Many (Try (Prefix (RuneP (rn CHR ''.'')) (IdentP u)))))
       (\<lambda>(e, fs). foldl (\<lambda>e f. EField (Some e) f) e fs)"

primrec atomP :: "unicode \<Rightarrow> nat \<Rightarrow> expr parser" where
  "atomP u 0 = (\<lambda>s. Starved)"
| "atomP u (Suc n) = atomBody u (atomP u n)"

subsection \<open>Types\<close>

definition fieldSpecP :: "unicode \<Rightarrow> fieldSpec parser" where
  "fieldSpecP u =
     MapP (Sequence2 (IdentP u) (Prefix Spaces1P (typeNameP u))) (\<lambda>(x, t). \<lparr> fs_Name = x, fs_Type = t \<rparr>)"

definition structTypeP :: "unicode \<Rightarrow> fieldSpec list parser" where
  "structTypeP u =
     MapP (Sequence4
         (RuneP (rn CHR ''{''))
         (Prefix wsP (fieldSpecP u))
         (Many (Try (Prefix ws1P (fieldSpecP u))))
         (Prefix wsP (RuneP (rn CHR ''}''))))
       (\<lambda>(_, f, fs, _). f # fs)"

definition elemTypeP :: "unicode \<Rightarrow> elemType parser" where
  "elemTypeP u =
     (let structElem = MapP (structTypeP u) KindVectorInner;
          tokenElem = MapP (typeNameP u) KindVector;
          vec = Prefix (Sequence2 (StringP ''vector'') Spaces1P) (Or structElem tokenElem);
          elemRef = MapP (Sequence3 (IdentP u) (RuneP (rn CHR ''.'')) (IdentP u)) (\<lambda>(b, _, m). KindElemRef (b @ ''.'' @ m))
      in Or (MapP (structTypeP u) KindStruct) (Or (Try vec) elemRef))"

subsection \<open>Statements\<close>

datatype lineResult =
    LineType typeDef
  | LineFn fnDef
  | LineMerge mergeDef
  | LineQuery queryDef
  | LineUpdate updateDef
  | LineCollection collectionSpec
  | LineNone

definition eqP :: "(unit \<times> rune \<times> unit) parser" where
  "eqP = Sequence3 SpacesP (RuneP (rn CHR ''='')) SpacesP"

definition endP :: "(unit \<times> unit) parser" where
  "endP = Sequence2 SpacesP newlineOrEOF"

text \<open>The keyword of a statement with the spaces behind it, and the right-hand side with its line end.\<close>

definition keywordP :: "string \<Rightarrow> (string \<times> unit) parser" where
  "keywordP kw = Try (Sequence2 (StringP kw) Spaces1P)"

definition rhsP :: "'a parser \<Rightarrow> 'a parser" where
  "rhsP p = Prefix eqP (Suffix endP p)"

definition typeDefLineP :: "unicode \<Rightarrow> lineResult parser" where
  "typeDefLineP u =
     Prefix (keywordP ''type'')
       (MapP (Sequence2 (IdentP u) (rhsP (elemTypeP u)))
         (\<lambda>(x, t). LineType \<lparr> td_Name = x, td_Elem = t \<rparr>))"

definition otherwiseP :: "expr parser \<Rightarrow> guardCase parser" where
  "otherwiseP atom =
     MapP (Sequence2 (StringP ''otherwise'') (rhsP (exprP atom))) (\<lambda>(_, r). GuardCase None (Some r) True)"

definition caseP :: "expr parser \<Rightarrow> guardCase parser" where
  "caseP atom =
     MapP (Sequence2 (exprP atom) (rhsP (exprP atom))) (\<lambda>(c, r). GuardCase (Some c) (Some r) False)"

definition guardLineP :: "expr parser \<Rightarrow> guardCase parser" where
  "guardLineP atom =
     Prefix (Sequence2 (Sequence2 SpacesP (RuneP (rn CHR ''|''))) SpacesP) (Or (Try (otherwiseP atom)) (caseP atom))"

definition retP :: "unicode \<Rightarrow> string parser" where
  "retP u =
     Or (Try (Prefix (Sequence2 Spaces1P (StringP ''->'')) (Prefix Spaces1P (typeNameP u)))) (Succeed [])"

definition guardSepP :: "unit parser" where
  "guardSepP = Discard (Many (Try blankOrCommentP))"

definition guardedBodyP :: "expr parser \<Rightarrow> expr parser" where
  "guardedBodyP atom = MapP (Prefix endP (Many1 (Try (Prefix guardSepP (guardLineP atom))))) EGuards"

definition fnLineP :: "unicode \<Rightarrow> expr parser \<Rightarrow> lineResult parser" where
  "fnLineP u atom =
     Prefix (keywordP ''fn'')
       (MapP (Sequence3 (Sequence2 (IdentP u) (paramsP1 u)) (retP u) (Or (Try (rhsP (exprP atom))) (guardedBodyP atom)))
         (\<lambda>((x, ps), ret, body). LineFn \<lparr> fd_Name = x, fd_Params = ps, fd_Body = body, fd_RetType = ret \<rparr>))"

definition zipP :: "expr parser \<Rightarrow> expr parser" where
  "zipP atom = MapP (Prefix (Sequence2 (StringP ''zip'') Spaces1P) atom) (\<lambda>f. EZip (Some f))"

definition mergeLineP :: "unicode \<Rightarrow> expr parser \<Rightarrow> lineResult parser" where
  "mergeLineP u atom =
     Prefix (keywordP ''merge'')
       (MapP (Sequence2 (IdentP u) (rhsP (zipP atom))) (\<lambda>(x, e). LineMerge \<lparr> md_TypeName = x, md_Body = e \<rparr>))"

definition methodP :: "unicode \<Rightarrow> (string \<times> rune \<times> string \<times> paramSpec list) parser" where
  "methodP u = Sequence4 (IdentP u) (RuneP (rn CHR ''.'')) (IdentP u) (paramsP u)"

definition queryLineP :: "unicode \<Rightarrow> expr parser \<Rightarrow> lineResult parser" where
  "queryLineP u atom =
     Prefix (keywordP ''query'')
       (MapP (Sequence2 (methodP u) (rhsP (exprP atom)))
         (\<lambda>((t, _, m, ps), e). LineQuery \<lparr> qd_TypeName = t, qd_MethodName = m, qd_Params = ps, qd_Body = e \<rparr>))"

definition combP :: "expr parser \<Rightarrow> string \<Rightarrow> (expr option \<Rightarrow> expr) \<Rightarrow> expr parser" where
  "combP atom kw kind = MapP (Prefix (Sequence2 (StringP kw) Spaces1P) atom) (\<lambda>f. kind (Some f))"

definition updateLineP :: "unicode \<Rightarrow> expr parser \<Rightarrow> lineResult parser" where
  "updateLineP u atom =
     Prefix (keywordP ''update'')
       (MapP (Sequence2 (methodP u) (rhsP (Or (Try (combP atom ''local'' ELocal)) (combP atom ''write'' EWrite))))
         (\<lambda>((t, _, m, ps), e). LineUpdate \<lparr> ud_TypeName = t, ud_MethodName = m, ud_Params = ps, ud_Body = e \<rparr>))"

definition keyP :: "unicode \<Rightarrow> paramSpec option parser" where
  "keyP u =
     Or (Try (MapP (Sequence3 (RuneP (rn CHR ''['')) (paramP u) (RuneP (rn CHR '']''))) (\<lambda>(_, p, _). Some p)))
       (Succeed None)"

definition collectionLineP :: "unicode \<Rightarrow> lineResult parser" where
  "collectionLineP u =
     Prefix (keywordP ''collection'')
       (MapP (Sequence3 (IdentP u) (keyP u) (rhsP (IdentP u)))
         (\<lambda>(x, k, t). LineCollection \<lparr> cs_Name = x, cs_Key = k, cs_Type = t \<rparr>))"

definition blankOrCommentLineP :: "lineResult parser" where
  "blankOrCommentLineP = MapP (Try blankOrCommentP) (\<lambda>_. LineNone)"

definition unknownLineP :: "lineResult parser" where
  "unknownLineP s = Failure (errorAt s ''unrecognized statement'') True"

definition barLineP :: "lineResult parser" where
  "barLineP s =
     (case Try (Sequence2 SpacesP (RuneP (rn CHR ''|''))) s of
        Failure e c \<Rightarrow> Failure e False
      | Success _ _ _ \<Rightarrow>
          Failure (errorAt s (''unexpected `|`: guard lines must directly follow a `fn` header'')) True
      | Starved \<Rightarrow> Starved)"

definition lineP :: "unicode \<Rightarrow> expr parser \<Rightarrow> lineResult parser" where
  "lineP u atom =
     Or (typeDefLineP u) (Or (fnLineP u atom) (Or (mergeLineP u atom) (Or (queryLineP u atom)
       (Or (updateLineP u atom) (Or (collectionLineP u) (Or barLineP (Or blankOrCommentLineP unknownLineP)))))))"

definition emptyPlan :: plan where
  "emptyPlan =
     \<lparr> pl_Types = [], pl_Functions = [], pl_Merges = [], pl_Queries = [], pl_Updates = [], pl_Collections = [] \<rparr>"

definition addLine :: "plan \<Rightarrow> lineResult \<Rightarrow> plan" where
  "addLine pl r =
     (case r of
        LineType d \<Rightarrow> pl\<lparr>pl_Types := pl_Types pl @ [d]\<rparr>
      | LineFn d \<Rightarrow> pl\<lparr>pl_Functions := pl_Functions pl @ [d]\<rparr>
      | LineMerge d \<Rightarrow> pl\<lparr>pl_Merges := pl_Merges pl @ [d]\<rparr>
      | LineQuery d \<Rightarrow> pl\<lparr>pl_Queries := pl_Queries pl @ [d]\<rparr>
      | LineUpdate d \<Rightarrow> pl\<lparr>pl_Updates := pl_Updates pl @ [d]\<rparr>
      | LineCollection d \<Rightarrow> pl\<lparr>pl_Collections := pl_Collections pl @ [d]\<rparr>
      | LineNone \<Rightarrow> pl)"

definition dslParser :: "unicode \<Rightarrow> expr parser \<Rightarrow> plan parser" where
  "dslParser u atom = MapP (Suffix EOF (Many (lineP u atom))) (foldl addLine emptyPlan)"

definition Parse :: "unicode \<Rightarrow> string \<Rightarrow> parseError option + plan" where
  "Parse u input =
     (case dslParser u (atomP u (Suc (length (go_runes input)))) (NewStream (go_runes input)) of
        Success pl _ _ \<Rightarrow> Inr pl
      | Failure e _ \<Rightarrow> Inl (Some e)
      | Starved \<Rightarrow> Inl None)"

subsection \<open>The contract holds of the grammar\<close>

lemma go_runes_ascii: "list_all (\<lambda>c. byte c < 128) str \<Longrightarrow> go_runes str = map byte str"
proof (induction str)
  case (Cons c cs)
  have "utf8_encode (byte c) = [c]" using Cons.prems by (simp add: utf8_encode_def)
  moreover have "is_scalar (byte c)" using Cons.prems by (simp add: is_scalar_def)
  ultimately have "go_runes (c # cs) = byte c # go_runes cs" using go_runes_encode [of "byte c" cs] by simp
  with Cons show ?case by simp
qed simp

lemma eats_keyword [good_rules]: "str \<noteq> [] \<Longrightarrow> list_all (\<lambda>c. byte c < 128) str \<Longrightarrow> eats n (StringP str)"
  by (rule eats_StringP) (simp add: go_runes_ascii)

lemma good_lexical [good_rules]:
  "good n commentP" "good n newlineOrEOF" "good n blankOrCommentP" "good n digitsP" "eats n digitsP" "good n signP" "good n fracP"
  by (simp_all add: commentP_def newlineOrEOF_def blankOrCommentP_def digitsP_def signP_def fracP_def good_rules)

lemma good_numberP [good_rules]: "good n numberP"
  unfolding good_def
proof (intro allI impI)
  fix s assume s: "valid s" "left_runes s < n"
  have "good n (Sequence3 signP digitsP fracP)" by (simp add: good_rules)
  from goodD [OF this s] s show "fair s (numberP s)"
    by (cases "Sequence3 signP digitsP fracP s")
      (auto simp: numberP_def located_errorAt onward_refl split: option.split)
qed

lemma onward_Advance: "onward s cur \<Longrightarrow> Head cur = Some r \<Longrightarrow> onward s (Advance cur) \<and> st_Pos s < st_Pos (Advance cur)"
  by (auto simp: onward_def valid_def Head_def Advance_def split: if_splits)

lemma Head_left: "Head cur = Some r \<Longrightarrow> Suc (left_runes (Advance cur)) = left_runes cur"
  by (auto simp: Head_def Advance_def left_runes_def split: if_splits)

lemma fair_string_body: "onward s cur \<Longrightarrow> left_runes cur < n \<Longrightarrow> fair s (string_body n sb cur)"
proof (induction n arbitrary: sb cur)
  case (Suc n)
  show ?case
  proof (cases "Head cur")
    case None
    with Suc.prems show ?thesis by (simp add: located_errorAt)
  next
    case (Some r)
    note a = onward_Advance [OF Suc.prems(1) Some]
    have l: "left_runes (Advance cur) < n" using Head_left [OF Some] Suc.prems(2) by simp
    show ?thesis
    proof (cases "r = BACKSLASH")
      case True
      show ?thesis
      proof (cases "Head (Advance cur)")
        case None
        with Some True a show ?thesis by (simp add: located_errorAt)
      next
        case (Some e)
        have "left_runes (Advance (Advance cur)) < n" using Head_left [OF Some] l by simp
        with Suc.IH onward_Advance [OF conjunct1 [OF a] Some] a Some \<open>Head cur = Some r\<close> True show ?thesis
          by (simp add: located_errorAt split: option.split)
      qed
    next
      case False
      with Some a Suc.IH [OF conjunct1 [OF a] l] show ?thesis by simp
    qed
  qed
qed simp

lemma good_stringLitP [good_rules]: "good n stringLitP"
  unfolding good_def
proof (intro allI impI)
  fix s assume s: "valid s" "left_runes s < n"
  have "fair s (case r of Failure e c \<Rightarrow> Failure e c
      | Success _ nx _ \<Rightarrow> string_body (Suc (left_runes nx)) [] nx | Starved \<Rightarrow> Starved)" if "fair s r" for r :: "rune parseResult"
    using that by (cases r) (simp_all add: fair_string_body del: string_body.simps)
  from this [OF goodD [OF good_RuneP s]] show "fair s (stringLitP s)" by (simp only: stringLitP_def)
qed

lemma good_names [good_rules]:
  "good n (lit str)" "good n symOpP" "good n (memberP u)" "good n typeSignP" "good n (typeNameP u)" "eats n (typeNameP u)"
  "good n (paramP u)" "good n (paramsP u)" "good n (paramsP1 u)" "good n (nameP u)" "good n wsP" "good n ws1P" "good n commaP"
  by (simp_all add: lit_def symOpP_def memberP_def typeSignP_def typeNameP_def paramP_def paramsP_def paramsP1_def
      nameP_def wsP_def ws1P_def oneWSCharP_def commaP_def good_rules)

lemma good_exprP [good_rules]: "good n atom \<Longrightarrow> good n (exprP atom)"
  by (simp add: exprP_def applicationP_def good_rules)

lemma good_structFieldP [good_rules]: "good n atom \<Longrightarrow> good n (structFieldP u atom)"
  by (simp add: structFieldP_def good_rules)

lemma good_nested:
  assumes "good n atom"
  shows "good (Suc n) (structLitP u atom)" "good (Suc n) (reduceFormP atom)" "good (Suc n) (parenP atom)"
proof -
  show "good (Suc n) (structLitP u atom)" "good (Suc n) (parenP atom)"
    using assms unfolding structLitP_def parenP_def Sequence_eqs
    by (auto intro!: good_MapP good_Sequence2_eats simp: good_rules)
  have "eats (Suc n) (Sequence2 (StringP ''reduce'') Spaces1P)" by (simp add: good_rules)
  with assms show "good (Suc n) (reduceFormP atom)"
    unfolding reduceFormP_def Sequence_eqs
    by (auto intro!: good_MapP good_Sequence2_eats good_Prefix_eats simp: good_rules)
qed

lemma good_atomBody: "good n atom \<Longrightarrow> good (Suc n) (atomBody u atom)"
  by (simp add: atomBody_def baseAtomP_def good_rules good_nested)

lemma good_atomP [good_rules]: "good n (atomP u n)"
proof (induction n)
  case 0
  show ?case by (simp add: good_def)
next
  case (Suc n)
  then show ?case by (simp add: good_atomBody)
qed

lemma good_types [good_rules]: "good n (fieldSpecP u)" "good n (structTypeP u)" "good n (elemTypeP u)"
  by (simp_all add: fieldSpecP_def structTypeP_def elemTypeP_def Let_def good_rules)

lemma good_rhsP [good_rules]: "good n p \<Longrightarrow> good n (rhsP p)" "good n endP"
  by (simp_all add: rhsP_def eqP_def endP_def good_rules)

lemma good_barLineP [good_rules]: "good n barLineP"
  unfolding good_def
proof (intro allI impI)
  fix s assume s: "valid s" "left_runes s < n"
  have "good n (Try (Sequence2 SpacesP (RuneP (rn CHR ''|''))))" by (simp add: good_rules)
  from goodD [OF this s] s show "fair s (barLineP s)"
    by (cases "Try (Sequence2 SpacesP (RuneP (rn CHR ''|''))) s")
      (auto simp: barLineP_def located_errorAt onward_refl)
qed

lemma good_unknownLineP [good_rules]: "good n unknownLineP"
  by (simp add: good_def unknownLineP_def located_errorAt onward_refl)

lemma good_lines [good_rules]:
  assumes "good n atom"
  shows "good n (typeDefLineP u)" "good n (fnLineP u atom)" "good n (mergeLineP u atom)" "good n (queryLineP u atom)"
    "good n (updateLineP u atom)" "good n (collectionLineP u)" "good n blankOrCommentLineP"
  using assms
  by (simp_all add: typeDefLineP_def fnLineP_def mergeLineP_def queryLineP_def updateLineP_def collectionLineP_def
      blankOrCommentLineP_def keywordP_def guardedBodyP_def guardSepP_def guardLineP_def otherwiseP_def caseP_def retP_def zipP_def
      methodP_def combP_def keyP_def good_rules)

lemma good_dslParser: "good n atom \<Longrightarrow> good n (dslParser u atom)"
  by (simp add: dslParser_def lineP_def good_rules)

text \<open>
  C33: the parser always returns, and points at the mistake. On every input \<open>Parse\<close> gives a plan or an
  error; no loop and no recursion of the grammar runs out of the fuel the text's length gives it. The
  position of an error lies in the text, and its line and column are those of that position.
\<close>

theorem Parse_total:
  "(\<exists>pl. Parse u input = Inr pl) \<or>
   (\<exists>e. Parse u input = Inl (Some e) \<and> pe_Pos e \<le> length (go_runes input) \<and>
      (pe_Line e, pe_Col e) = runePos (go_runes input) (pe_Pos e))"
proof -
  let ?s = "NewStream (go_runes input)" and ?n = "Suc (length (go_runes input))"
  have "fair ?s (dslParser u (atomP u ?n) ?s)"
    by (rule goodD [OF good_dslParser [OF good_atomP]]) (simp_all add: valid_def NewStream_def left_runes_def)
  then show ?thesis
    by (cases "dslParser u (atomP u ?n) ?s") (auto simp: Parse_def located_def NewStream_def)
qed

end
