(* ===== verification/DslText.thy ===== *)
theory DslText
  imports Dsl
begin

text \<open>
  The language of docs/dsl.md as a grammar: which texts spell which tree. The parser is sound for it:
  what \<open>Parse\<close> returns is spelled by the whole input, statement by statement, with nothing between
  the statements but blank lines and comments. \<open>reads p R\<close> is the interface between a parser and the
  grammar: when \<open>p\<close> succeeds, the runes it consumed, before the rest, spell its value.
\<close>

subsection \<open>Words and spaces\<close>

abbreviation spaces :: "rune list \<Rightarrow> bool" where
  "spaces xs \<equiv> list_all is_space xs"

definition comment_text :: "rune list \<Rightarrow> bool" where
  "comment_text xs \<longleftrightarrow> (\<exists>cs. xs = rn CHR ''#'' # cs \<and> NL \<notin> set cs)"

inductive ws_text :: "rune list \<Rightarrow> bool" where
  ws_none: "ws_text []"
| ws_char: "c \<in> {rn CHR '' '', TAB, NL} \<Longrightarrow> ws_text xs \<Longrightarrow> ws_text (c # xs)"
| ws_comment: "comment_text cs \<Longrightarrow> ws_text xs \<Longrightarrow> ws_text (cs @ xs)"

text \<open>The end of a line: spaces, a comment perhaps, and the newline or the end of the input.\<close>

definition eol_text :: "rune list \<Rightarrow> rune list \<Rightarrow> bool" where
  "eol_text xs rest \<longleftrightarrow>
     (\<exists>sp cm nl. xs = sp @ cm @ nl \<and> spaces sp \<and> (cm = [] \<or> comment_text cm) \<and> (nl = [NL] \<or> nl = [] \<and> rest = []))"

definition ident_text :: "unicode \<Rightarrow> rune list \<Rightarrow> string \<Rightarrow> bool" where
  "ident_text u xs x \<longleftrightarrow>
     (\<exists>r rs. xs = r # rs \<and> ident_head u r \<and> list_all (ident_char u) rs) \<and> x = string_of_runes xs"

definition ops :: "string list" where
  "ops = [''+'', ''*'', ''-'', ''>='', ''<='', ''=='', ''/='', ''>'', ''<'']"

definition name_text :: "unicode \<Rightarrow> rune list \<Rightarrow> string \<Rightarrow> bool" where
  "name_text u xs x \<longleftrightarrow> (x \<in> set ops \<and> xs = map byte x) \<or> ident_text u xs x"

definition digits_text :: "rune list \<Rightarrow> bool" where
  "digits_text xs \<longleftrightarrow> xs \<noteq> [] \<and> list_all is_digit xs"

definition number_text :: "rune list \<Rightarrow> rat \<Rightarrow> bool" where
  "number_text xs q \<longleftrightarrow>
     (\<exists>sg ds fr. xs = sg @ ds @ fr \<and> (sg = [] \<or> sg = [rn CHR ''-'']) \<and> digits_text ds \<and>
        (fr = [] \<or> (\<exists>es. fr = rn CHR ''.'' # es \<and> digits_text es))) \<and>
     Rat_SetString (string_of_runes xs) = Some q"

inductive quoted_text :: "rune list \<Rightarrow> rune list \<Rightarrow> bool" where
  qt_end: "quoted_text [QUOTE] []"
| qt_rune: "r \<noteq> QUOTE \<Longrightarrow> r \<noteq> BACKSLASH \<Longrightarrow> quoted_text xs cs \<Longrightarrow> quoted_text (r # xs) (r # cs)"
| qt_escape: "escaped e = Some r \<Longrightarrow> quoted_text xs cs \<Longrightarrow> quoted_text (BACKSLASH # e # xs) (r # cs)"

text \<open>A type: a name, with a sign or a member.\<close>

definition type_text :: "unicode \<Rightarrow> rune list \<Rightarrow> string \<Rightarrow> bool" where
  "type_text u xs t \<longleftrightarrow>
     (\<exists>ys zs. xs = ys @ zs \<and> t = string_of_runes xs \<and> ident_text u ys (string_of_runes ys) \<and>
        (zs = [] \<or> zs = [rn CHR ''+''] \<or> zs = [rn CHR ''-''] \<or>
         (\<exists>ms. zs = rn CHR ''.'' # ms \<and> ident_text u ms (string_of_runes ms))))"

definition param_text :: "unicode \<Rightarrow> rune list \<Rightarrow> paramSpec \<Rightarrow> bool" where
  "param_text u xs p \<longleftrightarrow>
     (\<exists>ys zs. xs = ys @ map byte ''::'' @ zs \<and> ident_text u ys (p_Name p) \<and> type_text u zs (p_Type p))"

inductive params_text :: "unicode \<Rightarrow> rune list \<Rightarrow> paramSpec list \<Rightarrow> bool" for u where
  ps_none: "params_text u [] []"
| ps_more: "spaces sp \<Longrightarrow> sp \<noteq> [] \<Longrightarrow> param_text u xs p \<Longrightarrow> params_text u ys ps \<Longrightarrow> params_text u (sp @ xs @ ys) (p # ps)"

subsection \<open>Expressions\<close>

inductive atom_text :: "unicode \<Rightarrow> rune list \<Rightarrow> expr \<Rightarrow> bool"
  and args_text :: "unicode \<Rightarrow> rune list \<Rightarrow> expr list \<Rightarrow> bool"
  and expr_text :: "unicode \<Rightarrow> rune list \<Rightarrow> expr \<Rightarrow> bool"
  and field_text :: "unicode \<Rightarrow> rune list \<Rightarrow> structField \<Rightarrow> bool"
  and fields_text :: "unicode \<Rightarrow> rune list \<Rightarrow> structField list \<Rightarrow> bool"
  for u
where
  at_number: "number_text xs q \<Longrightarrow> atom_text u xs (ENumLit q)"
| at_string: "quoted_text xs cs \<Longrightarrow> atom_text u (QUOTE # xs) (EStrLit (string_of_runes cs))"
| at_name: "name_text u xs x \<Longrightarrow> atom_text u xs (EName x)"
| at_paren: "spaces s1 \<Longrightarrow> expr_text u xs e \<Longrightarrow> spaces s2 \<Longrightarrow>
    atom_text u (rn CHR ''('' # s1 @ xs @ s2 @ [rn CHR '')'']) e"
| at_reduce: "spaces s1 \<Longrightarrow> s1 \<noteq> [] \<Longrightarrow> atom_text u xs f \<Longrightarrow> spaces s2 \<Longrightarrow> s2 \<noteq> [] \<Longrightarrow> atom_text u ys i \<Longrightarrow>
    spaces s3 \<Longrightarrow> s3 \<noteq> [] \<Longrightarrow> atom_text u zs v \<Longrightarrow>
    atom_text u (map byte ''reduce'' @ s1 @ xs @ s2 @ ys @ s3 @ zs) (EReduce (Some f) (Some i) (Some v))"
| at_struct: "ws_text w1 \<Longrightarrow> field_text u xs f \<Longrightarrow> fields_text u ys fs \<Longrightarrow>
    tc = [] \<or> (\<exists>w. ws_text w \<and> tc = w @ [rn CHR '','']) \<Longrightarrow> ws_text w2 \<Longrightarrow>
    atom_text u (rn CHR ''{'' # w1 @ xs @ ys @ tc @ w2 @ [rn CHR ''}'']) (EStructLit (f # fs))"
| at_member: "atom_text u xs e \<Longrightarrow> ident_text u ys f \<Longrightarrow> atom_text u (xs @ rn CHR ''.'' # ys) (EField (Some e) f)"
| ar_none: "args_text u [] []"
| ar_more: "spaces sp \<Longrightarrow> sp \<noteq> [] \<Longrightarrow> atom_text u xs e \<Longrightarrow> args_text u ys es \<Longrightarrow> args_text u (sp @ xs @ ys) (e # es)"
| ex_atom: "atom_text u xs e \<Longrightarrow> expr_text u xs e"
| ex_app: "atom_text u xs h \<Longrightarrow> args_text u ys es \<Longrightarrow> es \<noteq> [] \<Longrightarrow> expr_text u (xs @ ys) (EApp (Some h) es)"
| fd_field: "ident_text u xs x \<Longrightarrow> ws_text w1 \<Longrightarrow> ws_text w2 \<Longrightarrow> expr_text u ys e \<Longrightarrow>
    field_text u (xs @ w1 @ rn CHR '':'' # w2 @ ys) (StructField x (Some e))"
| fs_none: "fields_text u [] []"
| fs_more: "ws_text w1 \<Longrightarrow> ws_text w2 \<Longrightarrow> field_text u xs f \<Longrightarrow> fields_text u ys fs \<Longrightarrow>
    fields_text u (w1 @ rn CHR '','' # w2 @ xs @ ys) (f # fs)"

subsection \<open>Statements\<close>

definition rhs_text :: "(rune list \<Rightarrow> 'a \<Rightarrow> bool) \<Rightarrow> rune list \<Rightarrow> rune list \<Rightarrow> 'a \<Rightarrow> bool" where
  "rhs_text R xs rest v \<longleftrightarrow>
     (\<exists>s1 s2 ys el. xs = s1 @ rn CHR ''='' # s2 @ ys @ el \<and> spaces s1 \<and> spaces s2 \<and> R ys v \<and> eol_text el rest)"

definition fieldSpec_text :: "unicode \<Rightarrow> rune list \<Rightarrow> fieldSpec \<Rightarrow> bool" where
  "fieldSpec_text u xs f \<longleftrightarrow>
     (\<exists>ys sp zs. xs = ys @ sp @ zs \<and> ident_text u ys (fs_Name f) \<and> spaces sp \<and> sp \<noteq> [] \<and> type_text u zs (fs_Type f))"

inductive fieldSpecs_text :: "unicode \<Rightarrow> rune list \<Rightarrow> fieldSpec list \<Rightarrow> bool" for u where
  fp_none: "fieldSpecs_text u [] []"
| fp_more: "ws_text w \<Longrightarrow> w \<noteq> [] \<Longrightarrow> fieldSpec_text u xs f \<Longrightarrow> fieldSpecs_text u ys fs \<Longrightarrow>
    fieldSpecs_text u (w @ xs @ ys) (f # fs)"

definition structType_text :: "unicode \<Rightarrow> rune list \<Rightarrow> fieldSpec list \<Rightarrow> bool" where
  "structType_text u xs fs \<longleftrightarrow>
     (\<exists>w1 ys zs w2 f fs'. xs = rn CHR ''{'' # w1 @ ys @ zs @ w2 @ [rn CHR ''}''] \<and> ws_text w1 \<and> fieldSpec_text u ys f \<and>
        fieldSpecs_text u zs fs' \<and> ws_text w2 \<and> fs = f # fs')"

inductive elemType_text :: "unicode \<Rightarrow> rune list \<Rightarrow> elemType \<Rightarrow> bool" for u where
  et_struct: "structType_text u xs fs \<Longrightarrow> elemType_text u xs (KindStruct fs)"
| et_inner: "spaces sp \<Longrightarrow> sp \<noteq> [] \<Longrightarrow> structType_text u xs fs \<Longrightarrow> elemType_text u (map byte ''vector'' @ sp @ xs) (KindVectorInner fs)"
| et_vector: "spaces sp \<Longrightarrow> sp \<noteq> [] \<Longrightarrow> type_text u xs t \<Longrightarrow> elemType_text u (map byte ''vector'' @ sp @ xs) (KindVector t)"
| et_elem: "ident_text u xs b \<Longrightarrow> ident_text u ys m \<Longrightarrow> elemType_text u (xs @ rn CHR ''.'' # ys) (KindElemRef (b @ ''.'' @ m))"

inductive guard_text :: "unicode \<Rightarrow> rune list \<Rightarrow> rune list \<Rightarrow> guardCase \<Rightarrow> bool" for u where
  gd_otherwise: "spaces s1 \<Longrightarrow> spaces s2 \<Longrightarrow> rhs_text (expr_text u) ys rest r \<Longrightarrow>
    guard_text u (s1 @ rn CHR ''|'' # s2 @ map byte ''otherwise'' @ ys) rest (GuardCase None (Some r) True)"
| gd_case: "spaces s1 \<Longrightarrow> spaces s2 \<Longrightarrow> expr_text u xs c \<Longrightarrow> rhs_text (expr_text u) ys rest r \<Longrightarrow>
    guard_text u (s1 @ rn CHR ''|'' # s2 @ xs @ ys) rest (GuardCase (Some c) (Some r) False)"

text \<open>Blank lines may stand before a case.\<close>

inductive blanks_text :: "rune list \<Rightarrow> rune list \<Rightarrow> bool" where
  bl_none: "blanks_text [] rest"
| bl_more: "eol_text xs (ys @ rest) \<Longrightarrow> blanks_text ys rest \<Longrightarrow> blanks_text (xs @ ys) rest"

inductive guards_text :: "unicode \<Rightarrow> rune list \<Rightarrow> rune list \<Rightarrow> guardCase list \<Rightarrow> bool" for u where
  gs_none: "guards_text u [] rest []"
| gs_more: "blanks_text bs (xs @ ys @ rest) \<Longrightarrow> guard_text u xs (ys @ rest) g \<Longrightarrow> guards_text u ys rest gs \<Longrightarrow>
    guards_text u (bs @ xs @ ys) rest (g # gs)"

definition body_text :: "unicode \<Rightarrow> rune list \<Rightarrow> rune list \<Rightarrow> expr \<Rightarrow> bool" where
  "body_text u xs rest e \<longleftrightarrow>
     rhs_text (expr_text u) xs rest e \<or>
     (\<exists>el ys gs. xs = el @ ys \<and> eol_text el (ys @ rest) \<and> guards_text u ys rest gs \<and> gs \<noteq> [] \<and> e = EGuards gs)"

definition ret_text :: "unicode \<Rightarrow> rune list \<Rightarrow> string \<Rightarrow> bool" where
  "ret_text u xs t \<longleftrightarrow>
     (xs = [] \<and> t = []) \<or>
     (\<exists>s1 s2 ys. xs = s1 @ map byte ''->'' @ s2 @ ys \<and> spaces s1 \<and> s1 \<noteq> [] \<and> spaces s2 \<and> s2 \<noteq> [] \<and> type_text u ys t)"

definition method_text :: "unicode \<Rightarrow> rune list \<Rightarrow> string \<Rightarrow> string \<Rightarrow> paramSpec list \<Rightarrow> bool" where
  "method_text u xs t m ps \<longleftrightarrow>
     (\<exists>ys zs ws. xs = ys @ rn CHR ''.'' # zs @ ws \<and> ident_text u ys t \<and> ident_text u zs m \<and> params_text u ws ps)"

text \<open>A keyword, a space and an atom, behind which a combinator stands.\<close>

definition comb_text :: "unicode \<Rightarrow> string \<Rightarrow> (expr option \<Rightarrow> expr) \<Rightarrow> rune list \<Rightarrow> expr \<Rightarrow> bool" where
  "comb_text u kw kind xs e \<longleftrightarrow>
     (\<exists>sp ys f. xs = map byte kw @ sp @ ys \<and> spaces sp \<and> sp \<noteq> [] \<and> atom_text u ys f \<and> e = kind (Some f))"

definition key_text :: "unicode \<Rightarrow> rune list \<Rightarrow> paramSpec option \<Rightarrow> bool" where
  "key_text u xs k \<longleftrightarrow>
     (xs = [] \<and> k = None) \<or> (\<exists>ys p. xs = rn CHR ''['' # ys @ [rn CHR '']''] \<and> param_text u ys p \<and> k = Some p)"

inductive stmt_text :: "unicode \<Rightarrow> rune list \<Rightarrow> rune list \<Rightarrow> lineResult \<Rightarrow> bool" for u where
  sm_blank: "eol_text xs rest \<Longrightarrow> stmt_text u xs rest LineNone"
| sm_type: "spaces sp \<Longrightarrow> sp \<noteq> [] \<Longrightarrow> ident_text u xs x \<Longrightarrow> rhs_text (elemType_text u) ys rest t \<Longrightarrow>
    stmt_text u (map byte ''type'' @ sp @ xs @ ys) rest (LineType \<lparr> td_Name = x, td_Elem = t \<rparr>)"
| sm_fn: "spaces sp \<Longrightarrow> sp \<noteq> [] \<Longrightarrow> ident_text u xs x \<Longrightarrow> params_text u ys ps \<Longrightarrow> ps \<noteq> [] \<Longrightarrow> ret_text u zs t \<Longrightarrow>
    body_text u ws rest e \<Longrightarrow>
    stmt_text u (map byte ''fn'' @ sp @ xs @ ys @ zs @ ws) rest
      (LineFn \<lparr> fd_Name = x, fd_Params = ps, fd_Body = e, fd_RetType = t \<rparr>)"
| sm_merge: "spaces sp \<Longrightarrow> sp \<noteq> [] \<Longrightarrow> ident_text u xs x \<Longrightarrow> rhs_text (comb_text u ''zip'' EZip) ys rest e \<Longrightarrow>
    stmt_text u (map byte ''merge'' @ sp @ xs @ ys) rest (LineMerge \<lparr> md_TypeName = x, md_Body = e \<rparr>)"
| sm_query: "spaces sp \<Longrightarrow> sp \<noteq> [] \<Longrightarrow> method_text u xs t m ps \<Longrightarrow> rhs_text (expr_text u) ys rest e \<Longrightarrow>
    stmt_text u (map byte ''query'' @ sp @ xs @ ys) rest
      (LineQuery \<lparr> qd_TypeName = t, qd_MethodName = m, qd_Params = ps, qd_Body = e \<rparr>)"
| sm_update: "spaces sp \<Longrightarrow> sp \<noteq> [] \<Longrightarrow> method_text u xs t m ps \<Longrightarrow>
    rhs_text (\<lambda>zs e. comb_text u ''local'' ELocal zs e \<or> comb_text u ''write'' EWrite zs e) ys rest e \<Longrightarrow>
    stmt_text u (map byte ''update'' @ sp @ xs @ ys) rest
      (LineUpdate \<lparr> ud_TypeName = t, ud_MethodName = m, ud_Params = ps, ud_Body = e \<rparr>)"
| sm_collection: "spaces sp \<Longrightarrow> sp \<noteq> [] \<Longrightarrow> ident_text u xs x \<Longrightarrow> key_text u ks k \<Longrightarrow> rhs_text (ident_text u) ys rest t \<Longrightarrow>
    stmt_text u (map byte ''collection'' @ sp @ xs @ ks @ ys) rest
      (LineCollection \<lparr> cs_Name = x, cs_Key = k, cs_Type = t \<rparr>)"

inductive program_text :: "unicode \<Rightarrow> rune list \<Rightarrow> lineResult list \<Rightarrow> bool" for u where
  pg_none: "program_text u [] []"
| pg_more: "stmt_text u xs ys r \<Longrightarrow> program_text u ys rs \<Longrightarrow> program_text u (xs @ ys) (r # rs)"

subsection \<open>Parsers read texts\<close>

abbreviation ahead_of :: "stream \<Rightarrow> rune list" where
  "ahead_of s \<equiv> drop (st_Pos s) (st_Items s)"

definition reads :: "'a parser \<Rightarrow> (rune list \<Rightarrow> rune list \<Rightarrow> 'a \<Rightarrow> bool) \<Rightarrow> bool" where
  "reads p R \<longleftrightarrow>
     (\<forall>s v s' c. p s = Success v s' c \<longrightarrow>
        (\<exists>xs. ahead_of s = xs @ ahead_of s' \<and> R xs (ahead_of s') v))"

named_theorems reads_rules

lemma readsD:
  assumes "reads p R" "p s = Success v s' c"
  obtains xs where "ahead_of s = xs @ ahead_of s'" "R xs (ahead_of s') v"
  using assms unfolding reads_def by blast

lemma readsI: "reads p R \<Longrightarrow> (\<And>xs rest v. R xs rest v \<Longrightarrow> Q xs rest v) \<Longrightarrow> reads p Q"
  unfolding reads_def by blast

lemma ahead_of_Head: "Head s = Some r \<Longrightarrow> ahead_of s = r # ahead_of (Advance s)"
  by (auto simp: Head_def Advance_def Cons_nth_drop_Suc split: if_splits)

lemma ahead_of_end: "Head s = None \<Longrightarrow> ahead_of s = []"
  by (auto simp: Head_def split: if_splits)

lemma reads_Succeed [reads_rules]: "reads (Succeed v) (\<lambda>xs rest w. xs = [] \<and> w = v)"
  by (auto simp: reads_def Succeed_def)

lemma reads_Satisfy [reads_rules]: "reads (Satisfy pred label) (\<lambda>xs rest r. xs = [r] \<and> pred r)"
  by (auto simp: reads_def Satisfy_def ahead_of_Head split: option.splits if_splits)

lemma reads_EOF [reads_rules]: "reads EOF (\<lambda>xs rest w. xs = [] \<and> rest = [])"
  by (auto simp: reads_def EOF_def dest: ahead_of_end split: option.splits)

lemma reads_MapP [reads_rules]: "reads p R \<Longrightarrow> reads (MapP p f) (\<lambda>xs rest w. \<exists>v. R xs rest v \<and> w = f v)"
  unfolding reads_def MapP_def by (fastforce split: parseResult.splits)

lemma reads_Discard [reads_rules]: "reads p R \<Longrightarrow> reads (Discard p) (\<lambda>xs rest w. \<exists>v. R xs rest v)"
  unfolding Discard_def by (rule readsI [OF reads_MapP]) auto

lemma Sequence2_Success:
  "Sequence2 p q s = Success w s2 d \<Longrightarrow> \<exists>v s1 c v' c'. p s = Success v s1 c \<and> q s1 = Success v' s2 c' \<and> w = (v, v')"
  by (auto simp: Sequence2_def andThen_def split: parseResult.splits)

lemma reads_Sequence2 [reads_rules]:
  assumes "reads p R" "reads q Q"
  shows "reads (Sequence2 p q) (\<lambda>xs rest w. \<exists>ys zs v v'. xs = ys @ zs \<and> R ys (zs @ rest) v \<and> Q zs rest v' \<and> w = (v, v'))"
  unfolding reads_def
proof (intro allI impI)
  fix s w s2 d assume "Sequence2 p q s = Success w s2 d"
  then obtain v s1 c v' c' where r: "p s = Success v s1 c" "q s1 = Success v' s2 c'" "w = (v, v')"
    using Sequence2_Success by blast
  from readsD [OF assms(1) r(1)] obtain xs where x: "ahead_of s = xs @ ahead_of s1" "R xs (ahead_of s1) v" .
  from readsD [OF assms(2) r(2)] obtain ys where y: "ahead_of s1 = ys @ ahead_of s2" "Q ys (ahead_of s2) v'" .
  from x y r(3) show "\<exists>xs. ahead_of s = xs @ ahead_of s2 \<and>
      (\<exists>ys zs v v'. xs = ys @ zs \<and> R ys (zs @ ahead_of s2) v \<and> Q zs (ahead_of s2) v' \<and> w = (v, v'))"
    by (intro exI [of _ "xs @ ys"]) auto
qed

lemma reads_Sequence3 [reads_rules]:
  assumes "reads p R" "reads (Sequence2 q r) Q"
  shows "reads (Sequence3 p q r) (\<lambda>xs rest w. \<exists>ys zs v v'. xs = ys @ zs \<and> R ys (zs @ rest) v \<and> Q zs rest v' \<and> w = (v, v'))"
  unfolding Sequence3_eq by (rule reads_Sequence2 [OF assms])

lemma reads_Sequence4 [reads_rules]:
  assumes "reads p R" "reads (Sequence3 q r t) Q"
  shows "reads (Sequence4 p q r t) (\<lambda>xs rest w. \<exists>ys zs v v'. xs = ys @ zs \<and> R ys (zs @ rest) v \<and> Q zs rest v' \<and> w = (v, v'))"
  unfolding Sequence4_eq by (rule reads_Sequence2 [OF assms])

lemma reads_Sequence5 [reads_rules]:
  assumes "reads p R" "reads (Sequence4 q r t k) Q"
  shows "reads (Sequence5 p q r t k) (\<lambda>xs rest w. \<exists>ys zs v v'. xs = ys @ zs \<and> R ys (zs @ rest) v \<and> Q zs rest v' \<and> w = (v, v'))"
  unfolding Sequence5_eq by (rule reads_Sequence2 [OF assms])

lemma reads_Prefix [reads_rules]:
  assumes "reads p R" "reads q Q"
  shows "reads (Prefix p q) (\<lambda>xs rest w. \<exists>ys zs. xs = ys @ zs \<and> (\<exists>v. R ys (zs @ rest) v) \<and> Q zs rest w)"
  unfolding Prefix_def by (rule readsI [OF reads_MapP [OF reads_Sequence2 [OF assms]]]) auto

lemma reads_Suffix [reads_rules]:
  assumes "reads p R" "reads q Q"
  shows "reads (Suffix p q) (\<lambda>xs rest w. \<exists>ys zs. xs = ys @ zs \<and> Q ys (zs @ rest) w \<and> (\<exists>v. R zs rest v))"
  unfolding Suffix_def by (rule readsI [OF reads_MapP [OF reads_Sequence2 [OF assms(2,1)]]]) auto

lemma reads_Or [reads_rules]: "reads p R \<Longrightarrow> reads q Q \<Longrightarrow> reads (Or p q) (\<lambda>xs rest w. R xs rest w \<or> Q xs rest w)"
  unfolding reads_def Or_def by (fastforce split: parseResult.splits if_splits)

lemma reads_Try [reads_rules]: "reads p R \<Longrightarrow> reads (Try p) R"
  unfolding reads_def Try_def by (fastforce split: parseResult.splits)

text \<open>A repetition: any relation that holds of nothing and takes one more in front.\<close>

lemma many_loop_reads:
  assumes "reads p R" and nil: "\<And>rest. N [] rest []"
    and cons: "\<And>xs ys rest v vs. R xs (ys @ rest) v \<Longrightarrow> N ys rest vs \<Longrightarrow> N (xs @ ys) rest (v # vs)"
  shows "many_loop p k items b cur = Success ws s' c \<Longrightarrow>
    \<exists>xs vs. ahead_of cur = xs @ ahead_of s' \<and> ws = items @ vs \<and> N xs (ahead_of s') vs"
proof (induction k arbitrary: items b cur)
  case (Suc k)
  show ?case
  proof (cases "p cur")
    case (Success v nx d)
    from readsD [OF assms(1) Success] obtain xs where x: "ahead_of cur = xs @ ahead_of nx" "R xs (ahead_of nx) v" .
    show ?thesis
    proof (cases "st_Pos nx = st_Pos cur")
      case True
      with Success Suc.prems have "ws = items @ [v]" "s' = nx" by auto
      with x cons [of xs "[]" "ahead_of nx" v "[]"] nil show ?thesis by auto
    next
      case False
      with Success Suc.prems have "many_loop p k (items @ [v]) (b \<or> d) nx = Success ws s' c" by simp
      from Suc.IH [OF this] obtain ys vs where "ahead_of nx = ys @ ahead_of s'" "ws = (items @ [v]) @ vs" "N ys (ahead_of s') vs"
        by blast
      with x cons [of xs ys "ahead_of s'" v vs] show ?thesis by (intro exI [of _ "xs @ ys"] exI [of _ "v # vs"]) auto
    qed
  next
    case (Failure e d)
    with Suc.prems nil show ?thesis by (auto split: if_splits)
  next
    case Starved
    with Suc.prems show ?thesis by simp
  qed
qed simp

lemma reads_Many:
  assumes "reads p R" "\<And>rest. N [] rest []"
    and "\<And>xs ys rest v vs. R xs (ys @ rest) v \<Longrightarrow> N ys rest vs \<Longrightarrow> N (xs @ ys) rest (v # vs)"
  shows "reads (Many p) N"
  unfolding reads_def Many_def using many_loop_reads [OF assms, where items = "[]"] by fastforce

lemma reads_Many1:
  assumes "reads p R" "\<And>rest. N [] rest []"
    and "\<And>xs ys rest v vs. R xs (ys @ rest) v \<Longrightarrow> N ys rest vs \<Longrightarrow> N (xs @ ys) rest (v # vs)"
  shows "reads (Many1 p) (\<lambda>xs rest vs. N xs rest vs \<and> vs \<noteq> [])"
proof -
  have e: "Many1 p = MapP (Sequence2 p (Many p)) (\<lambda>(v, vs). v # vs)"
    by (rule ext) (simp add: Many1_def MapP_def Sequence2_def andThen_def split: parseResult.split)
  show ?thesis
    unfolding e by (rule readsI [OF reads_MapP [OF reads_Sequence2 [OF assms(1) reads_Many [OF assms]]]])
      (use assms(3) in auto)
qed

lemma reads_RuneP [reads_rules]: "reads (RuneP r) (\<lambda>xs rest v. xs = [r] \<and> v = r)"
  unfolding RuneP_def by (rule readsI [OF reads_Satisfy]) auto

lemma string_loop_reads:
  "string_loop rs str b s = Success v s' c \<Longrightarrow> ahead_of s = rs @ ahead_of s' \<and> v = str"
proof (induction rs arbitrary: b s)
  case (Cons r rs)
  then obtain w nx d where r: "RuneP r s = Success w nx d" "string_loop rs str True nx = Success v s' c"
    by (auto simp: andThen_def split: parseResult.splits)
  from readsD [OF reads_RuneP r(1)] Cons.IH [OF r(2)] show ?case by auto
qed simp

lemma reads_StringP [reads_rules]:
  "list_all (\<lambda>c. byte c < 128) str \<Longrightarrow> reads (StringP str) (\<lambda>xs rest v. xs = map byte str \<and> v = str)"
  unfolding reads_def StringP_def by (auto simp: go_runes_ascii dest: string_loop_reads)

lemma reads_chars:
  "reads (Many (Satisfy P label)) (\<lambda>xs rest v. xs = v \<and> list_all P v)"
  "reads (Many1 (Satisfy P label)) (\<lambda>xs rest v. xs = v \<and> list_all P v \<and> v \<noteq> [])"
  using reads_Many [OF reads_Satisfy, of "\<lambda>xs rest v. xs = v \<and> list_all P v" P label]
    reads_Many1 [OF reads_Satisfy, of "\<lambda>xs rest v. xs = v \<and> list_all P v" P label] by auto

lemma reads_SpacesP [reads_rules]: "reads SpacesP (\<lambda>xs rest v. spaces xs)"
  unfolding SpacesP_def by (rule readsI [OF reads_MapP [OF reads_chars(1)]]) auto

lemma reads_Spaces1P [reads_rules]: "reads Spaces1P (\<lambda>xs rest v. spaces xs \<and> xs \<noteq> [])"
  unfolding Spaces1P_def by (rule readsI [OF reads_MapP [OF reads_chars(2)]]) auto

lemma reads_IdentP [reads_rules]: "reads (IdentP u) (\<lambda>xs rest x. ident_text u xs x)"
  unfolding IdentP_def
  by (rule readsI [OF reads_MapP [OF reads_Sequence2 [OF reads_Satisfy reads_chars(1)]]]) (auto simp: ident_text_def)

subsection \<open>Lexical elements\<close>

lemma reads_TillEOL [reads_rules]: "reads TillEOL (\<lambda>xs rest v. NL \<notin> set xs)"
  unfolding TillEOL_def by (rule readsI [OF reads_MapP [OF reads_chars(1)]]) (auto simp: list_all_iff)

lemma reads_commentP [reads_rules]: "reads commentP (\<lambda>xs rest v. comment_text xs)"
  unfolding commentP_def by (rule readsI, (rule reads_rules)+) (auto simp: comment_text_def)

lemma reads_newlineOrEOF [reads_rules]:
  "reads newlineOrEOF (\<lambda>xs rest v. \<exists>cm nl. xs = cm @ nl \<and> (cm = [] \<or> comment_text cm) \<and> (nl = [NL] \<or> nl = [] \<and> rest = []))"
  unfolding newlineOrEOF_def by (rule readsI, (rule reads_rules)+) auto

lemma reads_blankOrCommentP [reads_rules]: "reads blankOrCommentP (\<lambda>xs rest v. eol_text xs rest)"
  unfolding blankOrCommentP_def by (rule readsI, (rule reads_rules)+) (auto simp: eol_text_def)

lemma reads_endP [reads_rules]: "reads endP (\<lambda>xs rest v. eol_text xs rest)"
  unfolding endP_def by (rule readsI, (rule reads_rules)+) (auto simp: eol_text_def)

lemma reads_eqP [reads_rules]:
  "reads eqP (\<lambda>xs rest v. \<exists>s1 s2. xs = s1 @ rn CHR ''='' # s2 \<and> spaces s1 \<and> spaces s2)"
  unfolding eqP_def by (rule readsI, (rule reads_rules)+) auto

lemma reads_rhsP [reads_rules]: "reads p (\<lambda>xs rest v. R xs v) \<Longrightarrow> reads (rhsP p) (rhs_text R)"
  unfolding rhsP_def by (rule readsI, (rule reads_rules | assumption)+) (fastforce simp: rhs_text_def)

lemma reads_digitsP [reads_rules]: "reads digitsP (\<lambda>xs rest v. digits_text xs \<and> v = string_of_runes xs)"
  unfolding digitsP_def by (rule readsI [OF reads_MapP [OF reads_chars(2)]]) (auto simp: digits_text_def)

lemma string_of_runes_append [simp]: "string_of_runes (xs @ ys) = string_of_runes xs @ string_of_runes ys"
  by (simp add: string_of_runes_def)

lemma encode_ascii: "n < 128 \<Longrightarrow> utf8_encode n = [chr n]"
  by (simp add: utf8_encode_def)

lemma string_of_ascii: "list_all (\<lambda>c. byte c < 128) str \<Longrightarrow> string_of_runes (map byte str) = str"
  by (induction str) (auto simp: encode_ascii)

lemma encode_chars:
  "utf8_encode (rn CHR ''-'') = ''-''" "utf8_encode (rn CHR ''+'') = ''+''" "utf8_encode (rn CHR ''.'') = ''.''"
  by code_simp+

lemma reads_signP [reads_rules]:
  "reads signP (\<lambda>xs rest v. (xs = [] \<or> xs = [rn CHR ''-'']) \<and> v = string_of_runes xs)"
  unfolding signP_def by (rule readsI, (rule reads_rules)+) (auto simp: encode_chars [simplified])

lemma reads_fracP [reads_rules]:
  "reads fracP (\<lambda>xs rest v. (xs = [] \<or> (\<exists>es. xs = rn CHR ''.'' # es \<and> digits_text es)) \<and> v = string_of_runes xs)"
  unfolding fracP_def by (rule readsI, (rule reads_rules)+) (auto simp: encode_chars [simplified])

lemma reads_number3: "reads (Sequence3 signP digitsP fracP) (\<lambda>xs rest w. fst w @ fst (snd w) @ snd (snd w) = string_of_runes xs \<and>
     (\<exists>sg ds fr. xs = sg @ ds @ fr \<and> (sg = [] \<or> sg = [rn CHR ''-'']) \<and> digits_text ds \<and>
        (fr = [] \<or> (\<exists>es. fr = rn CHR ''.'' # es \<and> digits_text es))))"
  by (rule readsI, (rule reads_rules)+) (clarsimp, intro exI conjI, rule refl, assumption+)

lemma reads_numberP [reads_rules]: "reads numberP (\<lambda>xs rest q. number_text xs q)"
  unfolding reads_def
proof (intro allI impI)
  fix s q s' c assume "numberP s = Success q s' c"
  then obtain v1 v2 v3 where p: "Sequence3 signP digitsP fracP s = Success (v1, v2, v3) s' c" and q: "Rat_SetString (v1 @ v2 @ v3) = Some q"
    by (auto simp: numberP_def split: parseResult.splits option.splits)
  obtain xs0 where x0: "ahead_of s = xs0 @ ahead_of s'"
    and w: "v1 @ v2 @ v3 = string_of_runes xs0" and t0: "\<exists>sg ds fr. xs0 = sg @ ds @ fr \<and> (sg = [] \<or> sg = [rn CHR ''-'']) \<and>
      digits_text ds \<and> (fr = [] \<or> (\<exists>es. fr = rn CHR ''.'' # es \<and> digits_text es))"
    using reads_number3 [unfolded reads_def, rule_format, OF p] unfolding fst_conv snd_conv by blast
  have "number_text xs0 q" unfolding number_text_def using t0 q unfolding w by (rule conjI)
  with x0 show "\<exists>xs. ahead_of s = xs @ ahead_of s' \<and> number_text xs q" by blast
qed

lemma string_body_reads:
  "string_body n sb s = Success v s' c \<Longrightarrow>
   \<exists>xs cs. ahead_of s = xs @ ahead_of s' \<and> quoted_text xs cs \<and> v = EStrLit (string_of_runes (sb @ cs))"
proof (induction n arbitrary: sb s)
  case (Suc n)
  from Suc.prems obtain r where r: "Head s = Some r" by (auto split: option.splits)
  show ?case
  proof (cases "r = QUOTE")
    case True
    with Suc.prems r ahead_of_Head [OF r] qt_end show ?thesis by (intro exI [of _ "[r]"] exI [of _ "[]"]) auto
  next
    case q: False
    show ?thesis
    proof (cases "r = BACKSLASH")
      case True
      with Suc.prems r q obtain e r' where e: "Head (Advance s) = Some e" "escaped e = Some r'"
        and b: "string_body n (sb @ [r']) (Advance (Advance s)) = Success v s' c" by (auto split: option.splits)
      from Suc.IH [OF b] obtain xs cs where x: "ahead_of (Advance (Advance s)) = xs @ ahead_of s'" "quoted_text xs cs"
        "v = EStrLit (string_of_runes ((sb @ [r']) @ cs))" by blast
      with ahead_of_Head [OF r] ahead_of_Head [OF e(1)] True qt_escape [OF e(2) x(2)] show ?thesis
        by (intro exI [of _ "BACKSLASH # e # xs"] exI [of _ "r' # cs"]) auto
    next
      case False
      with Suc.prems r q have b: "string_body n (sb @ [r]) (Advance s) = Success v s' c" by simp
      from Suc.IH [OF b] obtain xs cs where x: "ahead_of (Advance s) = xs @ ahead_of s'" "quoted_text xs cs"
        "v = EStrLit (string_of_runes ((sb @ [r]) @ cs))" by blast
      with ahead_of_Head [OF r] qt_rune [OF q False x(2)] show ?thesis
        by (intro exI [of _ "r # xs"] exI [of _ "r # cs"]) auto
    qed
  qed
qed simp

lemma reads_stringLitP [reads_rules]:
  "reads stringLitP (\<lambda>xs rest v. \<exists>ys cs. xs = QUOTE # ys \<and> quoted_text ys cs \<and> v = EStrLit (string_of_runes cs))"
  unfolding reads_def
proof (intro allI impI)
  fix s v s' c assume "stringLitP s = Success v s' c"
  then obtain w nx d where p: "RuneP QUOTE s = Success w nx d" "string_body (Suc (left_runes nx)) [] nx = Success v s' c"
    unfolding stringLitP_def by (auto split: parseResult.splits simp del: string_body.simps)
  from readsD [OF reads_RuneP p(1)] have a: "ahead_of s = QUOTE # ahead_of nx" by auto
  from string_body_reads [OF p(2)] obtain xs cs where "ahead_of nx = xs @ ahead_of s'" "quoted_text xs cs"
    "v = EStrLit (string_of_runes ([] @ cs))" by blast
  with a show "\<exists>xs. ahead_of s = xs @ ahead_of s' \<and> (\<exists>ys cs. xs = QUOTE # ys \<and> quoted_text ys cs \<and> v = EStrLit (string_of_runes cs))"
    by (intro exI [of _ "QUOTE # xs"]) auto
qed

lemma reads_lit: "list_all (\<lambda>c. byte c < 128) str \<Longrightarrow> reads (lit str) (\<lambda>xs rest v. xs = map byte str \<and> v = str)"
  unfolding lit_def by (rule reads_Try [OF reads_StringP])

lemma reads_symOpP [reads_rules]: "reads symOpP (\<lambda>xs rest v. v \<in> set ops \<and> xs = map byte v)"
  unfolding symOpP_def
  by (rule readsI, (rule reads_Or | (rule reads_lit, (simp; fail)))+) (elim disjE conjE; simp add: ops_def)

lemma reads_nameP [reads_rules]: "reads (nameP u) (\<lambda>xs rest v. \<exists>x. name_text u xs x \<and> v = EName x)"
  unfolding nameP_def by (rule readsI, (rule reads_rules)+) (auto simp: name_text_def)

lemma reads_typeNameP [reads_rules]: "reads (typeNameP u) (\<lambda>xs rest t. type_text u xs t)"
proof -
  have m: "reads (Or (memberP u) typeSignP) (\<lambda>xs rest v. v = string_of_runes xs \<and>
     (xs = [] \<or> xs = [rn CHR ''+''] \<or> xs = [rn CHR ''-''] \<or>
      (\<exists>ms. xs = rn CHR ''.'' # ms \<and> ident_text u ms (string_of_runes ms))))"
    unfolding memberP_def typeSignP_def
    by (rule readsI, (rule reads_rules)+) (auto simp: ident_text_def encode_chars [simplified])
  have i: "ident_text u ys x \<Longrightarrow> x = string_of_runes ys" for ys x by (simp add: ident_text_def)
  show ?thesis
    unfolding typeNameP_def
  proof (rule readsI [OF reads_MapP [OF reads_Sequence2 [OF reads_IdentP m]]], elim exE conjE, simp only: prod.case)
    fix ys zs x assume "ident_text u ys x" and z: "zs = [] \<or> zs = [rn CHR ''+''] \<or> zs = [rn CHR ''-''] \<or>
      (\<exists>ms. zs = rn CHR ''.'' # ms \<and> ident_text u ms (string_of_runes ms))"
    with i have "ident_text u ys (string_of_runes ys)" "x = string_of_runes ys" by auto
    with z show "type_text u (ys @ zs) (x @ string_of_runes zs)"
      unfolding type_text_def by (intro exI [of _ ys] exI [of _ zs]) simp
  qed
qed

lemma reads_paramP [reads_rules]: "reads (paramP u) (\<lambda>xs rest p. param_text u xs p)"
  unfolding paramP_def by (rule readsI, (rule reads_rules)+) (clarsimp simp: param_text_def, intro exI conjI, rule refl, assumption+)

lemma reads_param_sp: "reads (Try (Prefix Spaces1P (paramP u)))
    (\<lambda>xs rest p. \<exists>sp ys. xs = sp @ ys \<and> spaces sp \<and> sp \<noteq> [] \<and> param_text u ys p)"
  by (rule readsI, (rule reads_rules)+) blast

lemma reads_paramsP [reads_rules]:
  "reads (paramsP u) (\<lambda>xs rest ps. params_text u xs ps)" "reads (paramsP1 u) (\<lambda>xs rest ps. params_text u xs ps \<and> ps \<noteq> [])"
  unfolding paramsP_def paramsP1_def
  by (rule reads_Many [OF reads_param_sp] reads_Many1 [OF reads_param_sp];
      auto intro: params_text.intros simp: ps_more [simplified])+

lemma reads_ws_char: "reads (Or (Discard oneWSCharP) commentP)
    (\<lambda>xs rest v. (\<exists>c. xs = [c] \<and> c \<in> {rn CHR '' '', TAB, NL}) \<or> comment_text xs)"
  unfolding oneWSCharP_def by (rule readsI, (rule reads_rules)+) auto

lemma comment_not_Nil: "comment_text xs \<Longrightarrow> xs \<noteq> []"
  by (auto simp: comment_text_def)

lemma reads_wsP [reads_rules]: "reads wsP (\<lambda>xs rest v. ws_text xs)" "reads ws1P (\<lambda>xs rest v. ws_text xs \<and> xs \<noteq> [])"
proof -
  have c: "ws_text (xs @ ys)" if "(\<exists>c. xs = [c] \<and> c \<in> {rn CHR '' '', TAB, NL}) \<or> comment_text xs" "ws_text ys" for xs ys
    using that ws_char ws_comment by fastforce
  show "reads wsP (\<lambda>xs rest v. ws_text xs)"
    unfolding wsP_def
    by (rule readsI [OF reads_Discard [OF reads_Many [OF reads_ws_char, of "\<lambda>xs rest v. ws_text xs"]]])
      (use c ws_none in \<open>auto simp del: insert_iff\<close>)
  show "reads ws1P (\<lambda>xs rest v. ws_text xs \<and> xs \<noteq> [])"
    unfolding ws1P_def
    by (rule readsI [OF reads_Discard [OF reads_Many1 [OF reads_ws_char, of "\<lambda>xs rest v. ws_text xs \<and> (v \<noteq> [] \<longrightarrow> xs \<noteq> [])"]]])
      (use c ws_none comment_not_Nil in \<open>auto simp del: insert_iff\<close>)
qed

subsection \<open>Expressions\<close>

text \<open>What is assumed of the parser of nested atoms, and shown of the parser one level up.\<close>

lemma reads_exprP [reads_rules]:
  assumes "reads atom (\<lambda>xs rest e. atom_text u xs e)"
  shows "reads (exprP atom) (\<lambda>xs rest e. expr_text u xs e)"
proof -
  have a: "reads (Try (Prefix Spaces1P atom)) (\<lambda>xs rest e. \<exists>sp ys. xs = sp @ ys \<and> spaces sp \<and> sp \<noteq> [] \<and> atom_text u ys e)"
    by (rule readsI, (rule reads_rules assms)+) blast
  have "reads (Many (Try (Prefix Spaces1P atom))) (\<lambda>xs rest es. args_text u xs es)"
    by (rule reads_Many [OF a]) (auto intro: atom_text_args_text_expr_text_field_text_fields_text.intros ar_more [simplified])
  from reads_MapP [OF reads_Sequence2 [OF assms this]] show ?thesis
    unfolding exprP_def applicationP_def
  proof (rule readsI, elim exE conjE, simp only: prod.case)
    fix ys zs e es assume "atom_text u ys e" "args_text u zs es"
    then show "expr_text u (ys @ zs) (if es = [] then e else EApp (Some e) es)"
      using ex_atom ex_app by (auto elim: args_text.cases)
  qed
qed

lemma reads_commaP [reads_rules]: "reads commaP (\<lambda>xs rest v. \<exists>w. xs = w @ [rn CHR '',''] \<and> ws_text w)"
  unfolding commaP_def by (rule readsI, (rule reads_rules)+) auto

lemma reads_structFieldP [reads_rules]:
  assumes "reads atom (\<lambda>xs rest e. atom_text u xs e)"
  shows "reads (structFieldP u atom) (\<lambda>xs rest f. field_text u xs f)"
  unfolding structFieldP_def
proof (rule readsI, (rule reads_rules assms)+, elim exE conjE, simp only: prod.case append_Nil2 prod.inject)
qed (use fd_field in auto)

lemma reads_structLitP:
  assumes "reads atom (\<lambda>xs rest e. atom_text u xs e)"
  shows "reads (structLitP u atom) (\<lambda>xs rest e. atom_text u xs e)"
proof -
  have m: "reads (Try (Prefix commaP (Prefix wsP (structFieldP u atom))))
      (\<lambda>xs rest f. \<exists>w1 w2 ys. xs = w1 @ rn CHR '','' # w2 @ ys \<and> ws_text w1 \<and> ws_text w2 \<and> field_text u ys f)"
    by (rule readsI, (rule reads_rules assms)+) (clarsimp, intro exI conjI, rule refl, assumption+)
  have fs: "reads (Many (Try (Prefix commaP (Prefix wsP (structFieldP u atom))))) (\<lambda>xs rest fs. fields_text u xs fs)"
    by (rule reads_Many [OF m], rule fs_none) (elim exE conjE, simp add: fs_more [simplified])
  have tc: "reads (Prefix (Sequence2 (Or (Try (Discard commaP)) (Succeed ())) wsP) (RuneP (rn CHR ''}'')))
      (\<lambda>xs rest v. \<exists>tc w. xs = tc @ w @ [rn CHR ''}''] \<and> (tc = [] \<or> (\<exists>w. ws_text w \<and> tc = w @ [rn CHR '','']) ) \<and> ws_text w)"
    by (rule readsI, (rule reads_rules)+) (elim exE conjE, hypsubst, intro exI conjI, rule append_assoc, auto)
  show ?thesis
    unfolding structLitP_def
    apply (rule readsI, (rule fs tc reads_rules assms)+)
    apply (elim exE conjE)
    apply (simp only: prod.inject prod.case append_assoc append_Cons append_Nil append_Nil2)
    apply (rule at_struct; assumption)
    done
qed

lemma reads_reduceFormP:
  assumes "reads atom (\<lambda>xs rest e. atom_text u xs e)"
  shows "reads (reduceFormP atom) (\<lambda>xs rest e. atom_text u xs e)"
  unfolding reduceFormP_def
  apply (rule readsI, (rule reads_rules assms | (simp; fail))+)
  apply (elim exE conjE)
  apply (simp only: prod.inject prod.case append_assoc)
  apply (rule at_reduce; assumption)
  done

lemma reads_parenP:
  assumes "reads atom (\<lambda>xs rest e. atom_text u xs e)"
  shows "reads (parenP atom) (\<lambda>xs rest e. atom_text u xs e)"
  unfolding parenP_def
  apply (rule readsI, (rule reads_rules assms)+)
  apply (elim exE conjE)
  apply (simp only: prod.inject prod.case append_assoc append_Cons append_Nil)
  apply (rule at_paren; assumption)
  done

lemma reads_atomBody:
  assumes "reads atom (\<lambda>xs rest e. atom_text u xs e)"
  shows "reads (atomBody u atom) (\<lambda>xs rest e. atom_text u xs e)"
proof -
  have b: "reads (baseAtomP u atom) (\<lambda>xs rest e. atom_text u xs e)"
    unfolding baseAtomP_def
    apply (rule readsI, (rule reads_structLitP reads_reduceFormP reads_parenP reads_rules assms)+)
    apply (auto intro: at_number at_string [simplified] at_name)
    done
  have m: "reads (Try (Prefix (RuneP (rn CHR ''.'')) (IdentP u))) (\<lambda>xs rest f. \<exists>ys. xs = rn CHR ''.'' # ys \<and> ident_text u ys f)"
    by (rule readsI, (rule reads_rules)+) auto
  have ms: "reads (Many (Try (Prefix (RuneP (rn CHR ''.'')) (IdentP u))))
      (\<lambda>xs rest fs. \<forall>ys e. atom_text u ys e \<longrightarrow> atom_text u (ys @ xs) (foldl (\<lambda>e f. EField (Some e) f) e fs))"
  proof (rule reads_Many [OF m])
    fix xs ys f fs
    assume "\<exists>zs. xs = rn CHR ''.'' # zs \<and> ident_text u zs f"
      and n: "\<forall>zs e. atom_text u zs e \<longrightarrow> atom_text u (zs @ ys) (foldl (\<lambda>e f. EField (Some e) f) e fs)"
    then obtain zs where zs: "xs = rn CHR ''.'' # zs" "ident_text u zs f" by blast
    show "\<forall>ws e. atom_text u ws e \<longrightarrow> atom_text u (ws @ xs @ ys) (foldl (\<lambda>e f. EField (Some e) f) e (f # fs))"
    proof (intro allI impI)
      fix ws e assume "atom_text u ws e"
      from n [rule_format, OF at_member [OF this zs(2)]] zs(1)
      show "atom_text u (ws @ xs @ ys) (foldl (\<lambda>e f. EField (Some e) f) e (f # fs))" by simp
    qed
  qed simp
  show ?thesis
    unfolding atomBody_def
    by (rule readsI [OF reads_MapP [OF reads_Sequence2 [OF b ms]]]) auto
qed

lemma reads_atomP: "reads (atomP u n) (\<lambda>xs rest e. atom_text u xs e)"
proof (induction n)
  case 0
  show ?case by (simp add: reads_def)
next
  case (Suc n)
  then show ?case by (simp add: reads_atomBody)
qed

subsection \<open>Types and statements\<close>

lemma reads_fieldSpecP [reads_rules]: "reads (fieldSpecP u) (\<lambda>xs rest f. fieldSpec_text u xs f)"
  unfolding fieldSpecP_def
  by (rule readsI, (rule reads_rules)+) (clarsimp simp: fieldSpec_text_def, intro exI conjI, rule refl, assumption+)

lemma reads_structTypeP [reads_rules]: "reads (structTypeP u) (\<lambda>xs rest fs. structType_text u xs fs)"
proof -
  have m: "reads (Try (Prefix ws1P (fieldSpecP u)))
      (\<lambda>xs rest f. \<exists>w ys. xs = w @ ys \<and> ws_text w \<and> w \<noteq> [] \<and> fieldSpec_text u ys f)"
    by (rule readsI, (rule reads_rules)+) blast
  have fs: "reads (Many (Try (Prefix ws1P (fieldSpecP u)))) (\<lambda>xs rest fs. fieldSpecs_text u xs fs)"
    by (rule reads_Many [OF m], rule fp_none) (elim exE conjE, simp add: fp_more [simplified])
  show ?thesis
    unfolding structTypeP_def
    apply (rule readsI, (rule fs reads_rules)+)
    apply (clarsimp simp: structType_text_def)
    apply (intro exI conjI, rule refl, assumption+)
    done
qed

lemma reads_elemTypeP [reads_rules]: "reads (elemTypeP u) (\<lambda>xs rest t. elemType_text u xs t)"
proof -
  have v: "reads (Try (Prefix (Sequence2 (StringP ''vector'') Spaces1P)
      (Or (MapP (structTypeP u) KindVectorInner) (MapP (typeNameP u) KindVector)))) (\<lambda>xs rest t. elemType_text u xs t)"
    apply (rule readsI, (rule reads_rules | (simp; fail))+)
    apply (elim exE conjE disjE)
     apply (simp only: append_assoc, rule et_inner; assumption)
    apply (simp only: append_assoc, rule et_vector; assumption)
    done
  have e: "reads (MapP (Sequence3 (IdentP u) (RuneP (rn CHR ''.'')) (IdentP u)) (\<lambda>(b, _, m). KindElemRef (b @ ''.'' @ m)))
      (\<lambda>xs rest t. elemType_text u xs t)"
    apply (rule readsI, (rule reads_rules)+)
    apply (elim exE conjE)
    apply (simp only: prod.inject prod.case append_Cons append_Nil)
    apply (rule et_elem [unfolded append_Cons append_Nil]; assumption)
    done
  have s: "reads (MapP (structTypeP u) KindStruct) (\<lambda>xs rest t. elemType_text u xs t)"
    by (rule readsI, (rule reads_rules)+) (auto intro: et_struct)
  show ?thesis
    unfolding elemTypeP_def Let_def by (rule readsI [OF reads_Or [OF s reads_Or [OF v e]]]) auto
qed

lemma reads_keywordP [reads_rules]:
  "list_all (\<lambda>c. byte c < 128) kw \<Longrightarrow> reads (keywordP kw) (\<lambda>xs rest v. \<exists>sp. xs = map byte kw @ sp \<and> spaces sp \<and> sp \<noteq> [])"
  unfolding keywordP_def by (rule readsI, (rule reads_rules, assumption?)+) auto

lemma reads_typeDefLineP: "reads (typeDefLineP u) (\<lambda>xs rest r. stmt_text u xs rest r)"
  unfolding typeDefLineP_def
  apply (rule readsI, (rule reads_rules | (simp; fail))+)
  apply (elim exE conjE)
  apply (simp only: prod.inject prod.case append_assoc)
  apply (rule sm_type; assumption)
  done

lemma reads_comb [reads_rules]:
  assumes "reads atom (\<lambda>xs rest e. atom_text u xs e)" "list_all (\<lambda>c. byte c < 128) kw"
  shows "reads (combP atom kw kind) (\<lambda>xs rest e. comb_text u kw kind xs e)"
  unfolding combP_def
  apply (rule readsI, (rule reads_rules assms)+)
  apply (clarsimp simp: comb_text_def)
  apply (intro exI conjI, rule refl, assumption+, rule refl)
  done

lemma reads_zipP:
  "reads atom (\<lambda>xs rest e. atom_text u xs e) \<Longrightarrow> reads (zipP atom) (\<lambda>xs rest e. comb_text u ''zip'' EZip xs e)"
  using reads_comb [of atom u "''zip''" EZip] by (simp add: zipP_def combP_def)

lemma reads_mergeLineP:
  assumes "reads atom (\<lambda>xs rest e. atom_text u xs e)"
  shows "reads (mergeLineP u atom) (\<lambda>xs rest r. stmt_text u xs rest r)"
  unfolding mergeLineP_def
  apply (rule readsI, (rule reads_zipP reads_rules assms | (simp; fail))+)
  apply (elim exE conjE)
  apply (simp only: prod.inject prod.case append_assoc)
  apply (rule sm_merge; assumption)
  done

lemma reads_methodP [reads_rules]: "reads (methodP u) (\<lambda>xs rest (t, r, m, ps). method_text u xs t m ps)"
  unfolding methodP_def
  apply (rule readsI, (rule reads_rules)+)
  apply (clarsimp simp: method_text_def)
  apply (intro exI conjI, rule refl, assumption+)
  done

lemma reads_queryLineP:
  assumes "reads atom (\<lambda>xs rest e. atom_text u xs e)"
  shows "reads (queryLineP u atom) (\<lambda>xs rest r. stmt_text u xs rest r)"
  unfolding queryLineP_def
  apply (rule readsI, (rule reads_rules assms | (simp; fail))+)
  apply (elim exE conjE)
  apply (clarsimp simp del: list.map)
  apply (rule sm_query; assumption)
  done

lemma reads_updateLineP:
  assumes "reads atom (\<lambda>xs rest e. atom_text u xs e)"
  shows "reads (updateLineP u atom) (\<lambda>xs rest r. stmt_text u xs rest r)"
  unfolding updateLineP_def
  apply (rule readsI, (rule reads_rules assms | (simp; fail))+)
  apply (elim exE conjE)
  apply (clarsimp simp del: list.map)
  apply (rule sm_update; assumption)
  done

lemma reads_keyP [reads_rules]: "reads (keyP u) (\<lambda>xs rest k. key_text u xs k)"
  unfolding keyP_def
  apply (rule readsI, (rule reads_rules)+)
  apply (auto simp: key_text_def)
  done

lemma reads_collectionLineP: "reads (collectionLineP u) (\<lambda>xs rest r. stmt_text u xs rest r)"
  unfolding collectionLineP_def
  apply (rule readsI, (rule reads_rules | (simp; fail))+)
  apply (elim exE conjE)
  apply (simp only: prod.inject prod.case append_assoc)
  apply (rule sm_collection; assumption)
  done

lemma reads_guardLineP [reads_rules]:
  assumes "reads atom (\<lambda>xs rest e. atom_text u xs e)"
  shows "reads (guardLineP atom) (\<lambda>xs rest g. guard_text u xs rest g)"
  unfolding guardLineP_def otherwiseP_def caseP_def
  apply (rule readsI, (rule reads_rules assms | (simp; fail))+)
  apply (elim exE conjE disjE)
   apply (simp only: prod.inject prod.case append_assoc append_Cons append_Nil)
   apply (rule gd_otherwise; assumption)
  apply (simp only: prod.inject prod.case append_assoc append_Cons append_Nil)
  apply (rule gd_case; assumption)
  done

lemma reads_guardSepP [reads_rules]: "reads guardSepP (\<lambda>xs rest v. blanks_text xs rest)"
proof -
  have "reads (Many (Try blankOrCommentP)) (\<lambda>xs rest v. blanks_text xs rest)"
    by (rule reads_Many [OF reads_Try [OF reads_blankOrCommentP]]) (auto intro: blanks_text.intros)
  from reads_Discard [OF this] show ?thesis unfolding guardSepP_def by (rule readsI) auto
qed

lemma reads_guardedBodyP:
  assumes "reads atom (\<lambda>xs rest e. atom_text u xs e)"
  shows "reads (guardedBodyP atom) (\<lambda>xs rest e. body_text u xs rest e)"
proof -
  have g: "reads (Try (Prefix guardSepP (guardLineP atom)))
      (\<lambda>xs rest g. \<exists>bs ys. xs = bs @ ys \<and> blanks_text bs (ys @ rest) \<and> guard_text u ys rest g)"
    by (rule readsI, (rule reads_rules assms)+) blast
  have "reads (Many1 (Try (Prefix guardSepP (guardLineP atom)))) (\<lambda>xs rest gs. guards_text u xs rest gs \<and> gs \<noteq> [])"
    by (rule reads_Many1 [OF g], rule gs_none) (elim exE conjE, simp add: gs_more)
  note gs = this
  show ?thesis
    unfolding guardedBodyP_def
    by (rule readsI [OF reads_MapP [OF reads_Prefix [OF reads_endP gs]]]) (auto simp: body_text_def)
qed

lemma reads_retP [reads_rules]: "reads (retP u) (\<lambda>xs rest t. ret_text u xs t)"
  unfolding retP_def
  apply (rule readsI, (rule reads_rules | (simp; fail))+)
  apply (elim exE conjE disjE)
   apply (simp only: append_assoc ret_text_def)
   apply (rule disjI2, intro exI conjI, rule refl, assumption+)
  apply (simp add: ret_text_def)
  done

lemma reads_fnLineP:
  assumes "reads atom (\<lambda>xs rest e. atom_text u xs e)"
  shows "reads (fnLineP u atom) (\<lambda>xs rest r. stmt_text u xs rest r)"
proof -
  have "reads (Or (Try (rhsP (exprP atom))) (guardedBodyP atom)) (\<lambda>xs rest e. body_text u xs rest e)"
    by (rule readsI [OF reads_Or [OF reads_Try [OF reads_rhsP [OF reads_exprP [OF assms]]] reads_guardedBodyP [OF assms]]])
      (auto simp: body_text_def)
  note body = this
  show ?thesis
    unfolding fnLineP_def
    apply (rule readsI, (rule body reads_rules | (simp; fail))+)
    apply (elim exE conjE)
    apply (simp only: prod.inject prod.case append_assoc)
    apply (rule sm_fn; assumption)
    done
qed

lemma reads_lineP:
  assumes "reads atom (\<lambda>xs rest e. atom_text u xs e)"
  shows "reads (lineP u atom) (\<lambda>xs rest r. stmt_text u xs rest r)"
proof -
  have bar: "reads barLineP (\<lambda>xs rest r. stmt_text u xs rest r)"
    by (auto simp: reads_def barLineP_def split: parseResult.splits)
  have unk: "reads unknownLineP (\<lambda>xs rest r. stmt_text u xs rest r)"
    by (simp add: reads_def unknownLineP_def)
  have blank: "reads blankOrCommentLineP (\<lambda>xs rest r. stmt_text u xs rest r)"
    unfolding blankOrCommentLineP_def
    by (rule readsI [OF reads_MapP [OF reads_Try [OF reads_blankOrCommentP]]]) (auto intro: sm_blank)
  show ?thesis
    unfolding lineP_def
    by (rule readsI, (rule reads_Or reads_typeDefLineP reads_fnLineP [OF assms] reads_mergeLineP [OF assms]
        reads_queryLineP [OF assms] reads_updateLineP [OF assms] reads_collectionLineP bar blank unk)+) blast
qed

lemma reads_dslParser:
  assumes "reads atom (\<lambda>xs rest e. atom_text u xs e)"
  shows "reads (dslParser u atom) (\<lambda>xs rest pl. \<exists>rs. rest = [] \<and> program_text u xs rs \<and> pl = foldl addLine emptyPlan rs)"
proof -
  have m: "reads (Many (lineP u atom)) (\<lambda>xs rest rs. rest = [] \<longrightarrow> program_text u xs rs)"
    by (rule reads_Many [OF reads_lineP [OF assms]]) (auto intro: program_text.intros)
  show ?thesis
    unfolding dslParser_def
    by (rule readsI [OF reads_MapP [OF reads_Suffix [OF reads_EOF m]]]) auto
qed

text \<open>
  C32: nothing in a program is skipped or invented. When \<open>Parse\<close> returns a plan, the whole input is
  a sequence of statements of the language, one after the other with only blank lines and comments
  between them, and the plan holds exactly the definitions those statements spell, each in its list
  and in the order of the text.
\<close>

theorem Parse_sound:
  assumes "Parse u input = Inr pl"
  shows "\<exists>rs. program_text u (go_runes input) rs \<and> pl = foldl addLine emptyPlan rs"
proof -
  let ?n = "Suc (length (go_runes input))"
  obtain s c where p: "dslParser u (atomP u ?n) (NewStream (go_runes input)) = Success pl s c"
    using assms by (auto simp: Parse_def split: parseResult.splits)
  from readsD [OF reads_dslParser [OF reads_atomP] p] obtain xs rs where
    "ahead_of (NewStream (go_runes input)) = xs @ ahead_of s" "ahead_of s = []" "program_text u xs rs" "pl = foldl addLine emptyPlan rs"
    by blast
  then show ?thesis by (auto simp: NewStream_def)
qed

definition ascii :: unicode where
  "ascii =
     \<lparr> IsLetter = (\<lambda>r. (rn CHR ''A'' \<le> r \<and> r \<le> rn CHR ''Z'') \<or> (rn CHR ''a'' \<le> r \<and> r \<le> rn CHR ''z'')),
       IsDigit = is_digit \<rparr>"

lemma small_parse:
  "dslParser ascii a (NewStream (map byte ''type T=A.B'')) =
     Success (emptyPlan\<lparr>pl_Types := [\<lparr> td_Name = ''T'', td_Elem = KindElemRef ''A.B'' \<rparr>]\<rparr>)
       \<lparr> st_Items = map byte ''type T=A.B'', st_Pos = 10 \<rparr> True"
  by code_simp

lemma Parse_sound_witness:
  "\<exists>rs. program_text ascii (map byte ''type T=A.B'') rs \<and>
     foldl addLine emptyPlan rs = emptyPlan\<lparr>pl_Types := [\<lparr> td_Name = ''T'', td_Elem = KindElemRef ''A.B'' \<rparr>]\<rparr>"
proof -
  have g: "go_runes ''type T=A.B'' = map byte ''type T=A.B''"
    by (rule go_runes_ascii) simp
  have "Parse ascii ''type T=A.B'' = Inr (emptyPlan\<lparr>pl_Types := [\<lparr> td_Name = ''T'', td_Elem = KindElemRef ''A.B'' \<rparr>]\<rparr>)"
    unfolding Parse_def g small_parse by simp
  from Parse_sound [OF this] show ?thesis unfolding g by metis
qed

end
